(* ===== verification/Prelude.thy ===== *)
theory Prelude
  imports Main "HOL-Library.Sublist"
begin

text \<open>
  Shared vocabulary of the development: named collections of facts, the result type of
  fallible Go functions (\<open>Inl\<close> the error, \<open>Inr\<close> the value), a few list and map
  lemmas, and two interfaces that several components satisfy:
  \<^item> \<open>transition_system\<close>: a step function with an invariant, and what holds after any run;
  \<^item> \<open>append_only_log\<close>: an operation on a state that holds a log, and what any run of
    such operations keeps of the log.
\<close>

section \<open>Collections\<close>

named_theorems go_eval \<open>equations that evaluate the models of Go library functions\<close>
named_theorems result_simps \<open>facts about result values\<close>

section \<open>Results\<close>

type_synonym ('e, 'a) result = "'e + 'a"

definition bind_result :: "('e, 'a) result \<Rightarrow> ('a \<Rightarrow> ('e, 'b) result) \<Rightarrow> ('e, 'b) result" where
  "bind_result r f = (case r of Inl e \<Rightarrow> Inl e | Inr a \<Rightarrow> f a)"

lemma bind_result_simps [simp, result_simps]:
  "bind_result (Inl e) f = Inl e"
  "bind_result (Inr a) f = f a"
  by (simp_all add: bind_result_def)

lemma bind_result_Inr_conv [result_simps]:
  "bind_result r f = Inr b \<longleftrightarrow> (\<exists>a. r = Inr a \<and> f a = Inr b)"
  by (cases r) simp_all

lemma bind_result_cong [fundef_cong]:
  "r = r' \<Longrightarrow> (\<And>a. r' = Inr a \<Longrightarrow> f a = f' a) \<Longrightarrow> bind_result r f = bind_result r' f'"
  by (cases r') simp_all

text \<open>A loop that stops at the first error: \<open>for _, x := range xs { if err := step(x) ... }\<close>.\<close>

fun fold_result :: "('s \<Rightarrow> 'a \<Rightarrow> ('e, 's) result) \<Rightarrow> 's \<Rightarrow> 'a list \<Rightarrow> ('e, 's) result" where
  "fold_result f s [] = Inr s"
| "fold_result f s (x # xs) = bind_result (f s x) (\<lambda>s'. fold_result f s' xs)"

lemma fold_result_append:
  "fold_result f s (xs @ ys) = bind_result (fold_result f s xs) (\<lambda>s'. fold_result f s' ys)"
proof (induction xs arbitrary: s)
  case Nil
  then show ?case by simp
next
  case (Cons x xs)
  then show ?case by (cases "f s x") simp_all
qed

lemma fold_result_snoc:
  "fold_result f s (xs @ [x]) = bind_result (fold_result f s xs) (\<lambda>s'. f s' x)"
proof -
  have "bind_result (f s' x) Inr = f s' x" for s'
    by (cases "f s' x") simp_all
  then show ?thesis by (simp add: fold_result_append)
qed

text \<open>An invariant of every step of such a loop holds at its end.\<close>

lemma fold_result_invariant:
  assumes "fold_result f s xs = Inr s'" and "P s"
    and "\<And>s x s'. P s \<Longrightarrow> x \<in> set xs \<Longrightarrow> f s x = Inr s' \<Longrightarrow> P s'"
  shows "P s'"
  using assms
proof (induction xs arbitrary: s)
  case Nil
  then show ?case by simp
next
  case (Cons x xs)
  from Cons.prems(1) obtain t where t: "f s x = Inr t" and run: "fold_result f t xs = Inr s'"
    by (auto simp: result_simps)
  from Cons.prems(2,3) t have "P t" by (meson list.set_intros(1))
  moreover have "\<And>s x s'. P s \<Longrightarrow> x \<in> set xs \<Longrightarrow> f s x = Inr s' \<Longrightarrow> P s'"
    using Cons.prems(3) by (meson list.set_intros(2))
  ultimately show ?case using Cons.IH [OF run] by blast
qed

text \<open>A loop of checks that carries no state.\<close>

fun check_all :: "('a \<Rightarrow> 'e option) \<Rightarrow> 'a list \<Rightarrow> 'e option" where
  "check_all f [] = None"
| "check_all f (x # xs) = (case f x of Some e \<Rightarrow> Some e | None \<Rightarrow> check_all f xs)"

lemma check_all_None [simp]: "check_all f xs = None \<longleftrightarrow> (\<forall>x \<in> set xs. f x = None)"
  by (induction xs) (auto split: option.splits)

section \<open>Lists and maps\<close>

lemma distinct_nth_inj:
  "distinct xs \<Longrightarrow> i < length xs \<Longrightarrow> j < length xs \<Longrightarrow> xs ! i = xs ! j \<longleftrightarrow> i = j"
  by (simp add: nth_eq_iff_index_eq)

lemma map_update_same [simp]: "map f (xs[i := x]) = (map f xs)[i := f x]"
  by (simp add: map_update)

lemma sum_list_map_append [simp]:
  "sum_list (map f (xs @ ys)) = sum_list (map f xs) + (sum_list (map f ys) :: nat)"
  by simp

lemma prefix_nth: "prefix xs ys \<Longrightarrow> i < length xs \<Longrightarrow> ys ! i = xs ! i"
  by (auto simp: prefix_def nth_append)

section \<open>Interface: a transition system with an invariant\<close>

text \<open>
  A component's operations as one step function over commands. The provider proves that the
  start state satisfies the invariant and that every command keeps it; the client gets it after
  any run and in every reachable state.
\<close>

locale transition_system =
  fixes start :: "'s \<Rightarrow> bool"
    and step :: "'s \<Rightarrow> 'c \<Rightarrow> 's"
    and inv :: "'s \<Rightarrow> bool"
  assumes start_inv: "start s \<Longrightarrow> inv s"
    and step_inv: "inv s \<Longrightarrow> inv (step s c)"
begin

lemma run_inv: "inv s \<Longrightarrow> inv (foldl step s cs)"
  by (induction cs arbitrary: s) (simp_all add: step_inv)

lemma started_run_inv: "start s \<Longrightarrow> inv (foldl step s cs)"
  by (rule run_inv) (rule start_inv)

lemma every_state_inv: "start s \<Longrightarrow> inv (foldl step s (take n cs))"
  by (rule started_run_inv)

end

section \<open>Interface: an append-only log\<close>

text \<open>
  A state with a log that commands may only extend. The client gets that the log of any state is
  a prefix of the log of every later state, so an entry once read keeps its position and content.
\<close>

locale append_only_log =
  fixes log_of :: "'s \<Rightarrow> 'e list"
    and exec :: "'s \<Rightarrow> 'c \<Rightarrow> 's"
  assumes exec_extends: "prefix (log_of s) (log_of (exec s c))"
begin

lemma run_extends: "prefix (log_of s) (log_of (foldl exec s cs))"
proof (induction cs arbitrary: s)
  case Nil
  then show ?case by simp
next
  case (Cons c cs)
  have "prefix (log_of s) (log_of (exec s c))" by (rule exec_extends)
  moreover have "prefix (log_of (exec s c)) (log_of (foldl exec (exec s c) cs))" by (rule Cons.IH)
  ultimately show ?case by (simp add: prefix_order.trans)
qed

lemma entry_stable:
  "i < length (log_of s) \<Longrightarrow> log_of (foldl exec s cs) ! i = log_of s ! i"
  using run_extends by (rule prefix_nth)

lemma log_grows: "length (log_of s) \<le> length (log_of (foldl exec s cs))"
  using run_extends by (rule prefix_length_le)

end

end
