(* ===== verification/Go_Strings.thy ===== *)
theory Go_Strings
  imports Prelude "HOL-Library.Char_ord" "HOL-Library.List_Lexorder"
begin

text \<open>
  The part of Go's \<open>strings\<close>, \<open>strconv\<close> and \<open>unicode/utf8\<close> packages that the
  modelled code uses. A Go string is a sequence of bytes, here a \<^typ>\<open>char list\<close>; a function
  that counts or trims runes decodes UTF-8 as \<open>utf8.DecodeRune\<close> does (an invalid byte counts as
  one rune of width one).
\<close>

section \<open>Bytes and UTF-8\<close>

type_synonym gostring = "char list"

definition byte :: "char \<Rightarrow> nat" where
  "byte c = of_char c"

definition in_range :: "nat \<Rightarrow> nat \<Rightarrow> char \<Rightarrow> bool" where
  "in_range lo hi c \<longleftrightarrow> lo \<le> byte c \<and> byte c \<le> hi"

abbreviation continuation :: "char \<Rightarrow> bool" where
  "continuation \<equiv> in_range 128 191"

text \<open>Width in bytes of a well-formed multi-byte encoding at the head of the string, if any.\<close>

fun multi_width :: "gostring \<Rightarrow> nat option" where
  "multi_width [] = None"
| "multi_width (a # r) =
     (case r of
        [] \<Rightarrow> None
      | b # r2 \<Rightarrow>
          if in_range 194 223 a then (if continuation b then Some 2 else None)
          else (case r2 of
              [] \<Rightarrow> None
            | c # r3 \<Rightarrow>
                if byte a = 224 then (if in_range 160 191 b \<and> continuation c then Some 3 else None)
                else if byte a = 237 then (if in_range 128 159 b \<and> continuation c then Some 3 else None)
                else if in_range 225 239 a then (if continuation b \<and> continuation c then Some 3 else None)
                else (case r3 of
                    [] \<Rightarrow> None
                  | d # _ \<Rightarrow>
                      if byte a = 240 then (if in_range 144 191 b \<and> continuation c \<and> continuation d then Some 4 else None)
                      else if in_range 241 243 a then (if continuation b \<and> continuation c \<and> continuation d then Some 4 else None)
                      else if byte a = 244 then (if in_range 128 143 b \<and> continuation c \<and> continuation d then Some 4 else None)
                      else None)))"

text \<open>The width \<open>utf8.DecodeRune\<close> returns on a non-empty string, and \<open>utf8.RuneCountInString\<close>.\<close>

definition rune_width :: "gostring \<Rightarrow> nat" where
  "rune_width s = (case multi_width s of Some n \<Rightarrow> n | None \<Rightarrow> 1)"

lemma multi_width_pos: "multi_width s = Some n \<Longrightarrow> 2 \<le> n \<and> n \<le> length s"
  by (cases s) (auto split: list.splits if_splits)

lemma rune_width_pos [simp]: "0 < rune_width s"
  by (auto simp: rune_width_def split: option.splits dest: multi_width_pos)

function rune_count :: "gostring \<Rightarrow> nat" where
  "rune_count [] = 0"
| "rune_count (c # s) = Suc (rune_count (drop (rune_width (c # s)) (c # s)))"
  by pat_completeness auto
termination
  by (relation "measure length") (auto simp: drop_Cons' rune_width_pos)

function utf8_valid :: "gostring \<Rightarrow> bool" where
  "utf8_valid [] \<longleftrightarrow> True"
| "utf8_valid (c # s) \<longleftrightarrow>
     (byte c < 128 \<or> multi_width (c # s) \<noteq> None) \<and> utf8_valid (drop (rune_width (c # s)) (c # s))"
  by pat_completeness auto
termination
  by (relation "measure length") (auto simp: drop_Cons' rune_width_pos)

lemma rune_count_le_length: "rune_count s \<le> length s"
proof (induction s rule: rune_count.induct)
  case 1
  then show ?case by simp
next
  case (2 c s)
  have "0 < rune_width (c # s)" by simp
  then have "length (drop (rune_width (c # s)) (c # s)) \<le> length s"
    by (simp only: length_drop length_Cons)
  with 2 show ?case by (simp del: length_drop)
qed

lemma rune_count_pos [simp]: "0 < rune_count s \<longleftrightarrow> s \<noteq> []"
  by (cases s) simp_all

section \<open>strings.TrimSpace\<close>

text \<open>The UTF-8 encodings of the runes for which \<open>unicode.IsSpace\<close> holds.\<close>

definition space_encodings :: "gostring list" where
  "space_encodings =
     map (\<lambda>n. [char_of n]) [9, 10, 11, 12, 13, 32 :: nat]
     @ [map char_of [194, 133 :: nat], map char_of [194, 160 :: nat], map char_of [225, 154, 128 :: nat]]
     @ map (\<lambda>n. map char_of [226, 128, n :: nat]) [128, 129, 130, 131, 132, 133, 134, 135, 136, 137, 138, 168, 169, 175]
     @ [map char_of [226, 129, 159 :: nat], map char_of [227, 128, 128 :: nat]]"

text \<open>Strip any of the given byte sequences from the front, as long as one matches.\<close>

definition leading :: "gostring list \<Rightarrow> gostring \<Rightarrow> gostring option" where
  "leading ws s = find (\<lambda>w. w \<noteq> [] \<and> prefix w s) ws"

lemma leading_Some: "leading ws s = Some w \<Longrightarrow> w \<noteq> [] \<and> prefix w s \<and> w \<in> set ws"
  by (auto simp: leading_def find_Some_iff)

lemma leading_None: "leading ws s = None \<longleftrightarrow> (\<forall>w \<in> set ws. w = [] \<or> \<not> prefix w s)"
  by (auto simp: leading_def find_None_iff)

function strip :: "gostring list \<Rightarrow> gostring \<Rightarrow> gostring" where
  "strip ws s = (case leading ws s of None \<Rightarrow> s | Some w \<Rightarrow> strip ws (drop (length w) s))"
  by pat_completeness auto
termination
proof (relation "measure (\<lambda>(ws, s). length s)")
  show "wf (measure (\<lambda>(ws, s :: gostring). length s))" by simp
next
  fix ws s w assume "leading ws s = Some w"
  then have "w \<noteq> []" and "prefix w s" by (auto dest: leading_Some)
  then show "((ws, drop (length w) s), (ws, s)) \<in> measure (\<lambda>(ws, s). length s)"
    by (auto simp: prefix_def)
qed

declare strip.simps [simp del]

lemma strip_stop: "leading ws s = None \<Longrightarrow> strip ws s = s"
  by (subst strip.simps) simp

lemma leading_strip: "leading ws (strip ws s) = None"
proof (induction ws s rule: strip.induct)
  case (1 ws s)
  then show ?case
    by (cases "leading ws s") (simp_all add: strip.simps [of ws s])
qed

lemma strip_idem [simp]: "strip ws (strip ws s) = strip ws s"
  by (rule strip_stop) (rule leading_strip)

lemma strip_suffix: "suffix (strip ws s) s"
proof (induction ws s rule: strip.induct)
  case (1 ws s)
  show ?case
  proof (cases "leading ws s")
    case None
    then show ?thesis by (simp add: strip_stop)
  next
    case (Some w)
    with 1 have "suffix (strip ws (drop (length w) s)) (drop (length w) s)" by simp
    also have "suffix (drop (length w) s) s" by (rule suffix_drop)
    finally show ?thesis using Some by (simp add: strip.simps [of ws s])
  qed
qed

definition trim_space :: "gostring \<Rightarrow> gostring" where
  "trim_space s = rev (strip (map rev space_encodings) (rev (strip space_encodings s)))"

definition blank :: "gostring \<Rightarrow> bool" where
  "blank s \<longleftrightarrow> trim_space s = []"

lemma trim_space_Nil [simp]: "trim_space [] = []"
proof -
  have "strip ws [] = []" for ws
    using strip_suffix [of ws "[]"] by simp
  then show ?thesis by (simp add: trim_space_def)
qed

lemma blank_Nil [simp]: "blank []"
  by (simp add: blank_def)

lemma not_blank_nonempty: "\<not> blank s \<Longrightarrow> s \<noteq> []"
  by auto

text \<open>What trimming leaves neither starts nor ends with a space.\<close>

lemma trim_space_no_trailing:
  "leading (map rev space_encodings) (rev (trim_space s)) = None"
  by (simp add: trim_space_def leading_strip)

lemma trim_space_no_leading: "leading space_encodings (trim_space s) = None"
proof -
  let ?t = "strip space_encodings s"
  have "suffix (strip (map rev space_encodings) (rev ?t)) (rev ?t)" by (rule strip_suffix)
  then have "prefix (trim_space s) ?t"
    by (simp add: trim_space_def suffix_to_prefix)
  then have "prefix w (trim_space s) \<Longrightarrow> prefix w ?t" for w
    using prefix_order.trans by blast
  moreover have "leading space_encodings ?t = None" by (rule leading_strip)
  ultimately show ?thesis unfolding leading_None by blast
qed

lemma trim_space_idem [simp]: "trim_space (trim_space s) = trim_space s"
proof -
  have "strip space_encodings (trim_space s) = trim_space s"
    by (rule strip_stop) (rule trim_space_no_leading)
  moreover have "strip (map rev space_encodings) (rev (trim_space s)) = rev (trim_space s)"
    by (rule strip_stop) (rule trim_space_no_trailing)
  ultimately show ?thesis by (subst trim_space_def) (simp only: rev_rev_ident)
qed

lemma strip_length: "length (strip ws s) \<le> length s"
  using strip_suffix by (rule suffix_length_le)

lemma trim_space_length: "length (trim_space s) \<le> length s"
  using strip_length [of "map rev space_encodings" "rev (strip space_encodings s)"] strip_length [of space_encodings s]
  by (simp add: trim_space_def)

section \<open>Decimal numbers: strconv.Itoa and the %d verb\<close>

definition digit :: "nat \<Rightarrow> char" where
  "digit n = char_of (48 + n)"

definition digit_value :: "char \<Rightarrow> nat option" where
  "digit_value c = (if in_range 48 57 c then Some (byte c - 48) else None)"

lemma byte_digit [simp]: "n < 10 \<Longrightarrow> byte (digit n) = 48 + n"
  by (simp add: byte_def digit_def)

lemma digit_value_digit [simp]: "n < 10 \<Longrightarrow> digit_value (digit n) = Some n"
  by (simp add: digit_value_def in_range_def)

lemma digit_value_Some: "digit_value c = Some d \<longleftrightarrow> d < 10 \<and> c = digit d"
proof
  assume "digit_value c = Some d"
  then have r: "48 \<le> byte c" "byte c \<le> 57" and d: "d = byte c - 48"
    by (auto simp: digit_value_def in_range_def split: if_splits)
  have "48 + d = byte c" using r(1) d by simp
  then have "digit d = c" by (simp add: digit_def byte_def)
  moreover have "d < 10" using r d by simp
  ultimately show "d < 10 \<and> c = digit d" by blast
next
  assume "d < 10 \<and> c = digit d"
  then show "digit_value c = Some d" by simp
qed

fun itoa_nat :: "nat \<Rightarrow> gostring" where
  "itoa_nat n = (if n < 10 then [digit n] else itoa_nat (n div 10) @ [digit (n mod 10)])"

declare itoa_nat.simps [simp del]

definition itoa :: "int \<Rightarrow> gostring" where
  "itoa i = (if i < 0 then CHR ''-'' # itoa_nat (nat (- i)) else itoa_nat (nat i))"

text \<open>Reading a run of digits, and \<open>strconv.Atoi\<close> (without its range check: integers are unbounded here).\<close>

fun read_digits :: "nat \<Rightarrow> gostring \<Rightarrow> nat option" where
  "read_digits acc [] = Some acc"
| "read_digits acc (c # s) =
     (case digit_value c of None \<Rightarrow> None | Some d \<Rightarrow> read_digits (10 * acc + d) s)"

definition atoi :: "gostring \<Rightarrow> int option" where
  "atoi s =
     (case s of
        [] \<Rightarrow> None
      | c # r \<Rightarrow>
          if c = CHR ''-'' then (if r = [] then None else map_option (\<lambda>n. - int n) (read_digits 0 r))
          else if c = CHR ''+'' then (if r = [] then None else map_option int (read_digits 0 r))
          else map_option int (read_digits 0 s))"

lemma itoa_nat_nonempty [simp]: "itoa_nat n \<noteq> []"
  by (subst itoa_nat.simps) simp

lemma read_digits_append:
  "read_digits a (xs @ ys) = (case read_digits a xs of None \<Rightarrow> None | Some b \<Rightarrow> read_digits b ys)"
  by (induction xs arbitrary: a) (auto split: option.splits)

lemma read_digits_itoa_nat: "read_digits 0 (itoa_nat n) = Some n"
proof (induction n rule: itoa_nat.induct)
  case (1 n)
  show ?case
  proof (cases "n < 10")
    case True
    then show ?thesis by (simp add: itoa_nat.simps [of n])
  next
    case False
    with 1 show ?thesis by (simp add: itoa_nat.simps [of n] read_digits_append)
  qed
qed

lemma itoa_nat_digits: "c \<in> set (itoa_nat n) \<Longrightarrow> \<exists>d<10. c = digit d"
proof (induction n rule: itoa_nat.induct)
  case (1 n)
  show ?case
  proof (cases "n < 10")
    case True
    with "1.prems" show ?thesis by (auto simp: itoa_nat.simps [of n])
  next
    case False
    from "1.prems" False have "c \<in> set (itoa_nat (n div 10)) \<or> c = digit (n mod 10)"
      by (auto simp: itoa_nat.simps [of n])
    then show ?thesis
    proof
      assume "c \<in> set (itoa_nat (n div 10))"
      with False show ?thesis by (rule "1.IH")
    next
      assume "c = digit (n mod 10)"
      then show ?thesis by (intro exI [of _ "n mod 10"]) simp
    qed
  qed
qed

lemma digit_neq_sign [simp]:
  assumes "d < 10"
  shows "digit d \<noteq> CHR ''-''" and "digit d \<noteq> CHR ''+''"
proof -
  have "byte (digit d) \<noteq> byte (CHR ''-'')" "byte (digit d) \<noteq> byte (CHR ''+'')"
    using assms by (simp_all del: One_nat_def add: byte_def [of "CHR ''-''"] byte_def [of "CHR ''+''"])
  then show "digit d \<noteq> CHR ''-''" and "digit d \<noteq> CHR ''+''" by auto
qed

lemma itoa_nat_inject [simp]: "itoa_nat m = itoa_nat n \<longleftrightarrow> m = n"
  by (metis option.inject read_digits_itoa_nat)

lemma itoa_inject [simp]: "itoa m = itoa n \<longleftrightarrow> m = n"
proof -
  have neq: "CHR ''-'' # xs \<noteq> itoa_nat k" for xs k
  proof
    assume "CHR ''-'' # xs = itoa_nat k"
    then have "CHR ''-'' \<in> set (itoa_nat k)" by (metis list.set_intros(1))
    then show False using itoa_nat_digits digit_neq_sign(1) by metis
  qed
  show ?thesis
    using neq neq [symmetric] by (auto simp: itoa_def)
qed

lemma atoi_itoa [simp]: "atoi (itoa i) = Some i"
proof (cases "i < 0")
  case True
  then show ?thesis by (simp add: atoi_def itoa_def read_digits_itoa_nat)
next
  case False
  obtain c r where cr: "itoa_nat (nat i) = c # r"
    using itoa_nat_nonempty by (cases "itoa_nat (nat i)") auto
  then have "c \<in> set (itoa_nat (nat i))" by simp
  then have "c \<noteq> CHR ''-''" and "c \<noteq> CHR ''+''"
    using itoa_nat_digits digit_neq_sign by metis+
  then show ?thesis
    using False read_digits_itoa_nat [of "nat i"] cr by (simp add: atoi_def itoa_def)
qed

section \<open>Regular expressions of one shape\<close>

text \<open>
  The patterns of the modelled code are \<open>^F R{lo,hi}$\<close>: one character of class \<open>F\<close> and
  then between \<open>lo\<close> and \<open>hi\<close> characters of class \<open>R\<close>.
\<close>

definition lower :: "char \<Rightarrow> bool" where "lower = in_range 97 122"
definition upper :: "char \<Rightarrow> bool" where "upper = in_range 65 90"
definition decimal :: "char \<Rightarrow> bool" where "decimal = in_range 48 57"

lemma decimal_digit: "d < 10 \<Longrightarrow> decimal (digit d)"
  by (simp add: decimal_def in_range_def)

definition head_then :: "(char \<Rightarrow> bool) \<Rightarrow> (char \<Rightarrow> bool) \<Rightarrow> nat \<Rightarrow> nat \<Rightarrow> gostring \<Rightarrow> bool" where
  "head_then F R lo hi s =
     (case s of [] \<Rightarrow> False | c # r \<Rightarrow> F c \<and> list_all R r \<and> lo \<le> length r \<and> length r \<le> hi)"

lemma head_then_nonempty: "head_then F R lo hi s \<Longrightarrow> s \<noteq> []"
  by (cases s) (simp_all add: head_then_def)

section \<open>Replacing invalid UTF-8\<close>

text \<open>
  \<open>json.Marshal\<close> writes U+FFFD (bytes 239 191 189) for every byte of a string that is not part of
  a well-formed encoding.
\<close>

function to_valid :: "gostring \<Rightarrow> gostring" where
  "to_valid [] = []"
| "to_valid (c # s) =
     (if byte c < 128 \<or> multi_width (c # s) \<noteq> None
      then take (rune_width (c # s)) (c # s) @ to_valid (drop (rune_width (c # s)) (c # s))
      else map char_of [239, 191, 189 :: nat] @ to_valid s)"
  by pat_completeness auto
termination
  by (relation "measure length") (auto simp: drop_Cons' rune_width_pos)

lemma utf8_valid_to_valid_id: "utf8_valid s \<Longrightarrow> to_valid s = s"
proof (induction s rule: utf8_valid.induct)
  case 1
  then show ?case by simp
next
  case (2 c s)
  then have v: "byte c < 128 \<or> multi_width (c # s) \<noteq> None"
    and rest: "utf8_valid (drop (rune_width (c # s)) (c # s))"
    by (simp_all only: utf8_valid.simps)
  from "2.IH" [OF rest] v
  have "to_valid (c # s) = take (rune_width (c # s)) (c # s) @ drop (rune_width (c # s)) (c # s)"
    by (simp only: to_valid.simps if_True)
  then show ?case by (simp only: append_take_drop_id)
qed

section \<open>ASCII strings and evaluation\<close>

lemma byte_small: "byte c < 128 \<longleftrightarrow> \<not> digit7 c"
proof -
  have "byte c = of_bool (digit0 c) + 2 * (of_bool (digit1 c) + 2 * (of_bool (digit2 c) + 2 * (of_bool (digit3 c)
    + 2 * (of_bool (digit4 c) + 2 * (of_bool (digit5 c) + 2 * (of_bool (digit6 c) + 2 * of_bool (digit7 c)))))))"
    by (simp add: byte_def of_char_def)
  then show ?thesis by (cases "digit7 c") (simp_all add: of_bool_def)
qed

definition ascii :: "gostring \<Rightarrow> bool" where
  "ascii s \<longleftrightarrow> list_all (\<lambda>c. \<not> digit7 c) s"

lemma ascii_simps [simp]: "ascii []" "ascii (c # s) \<longleftrightarrow> \<not> digit7 c \<and> ascii s" "ascii (s @ t) \<longleftrightarrow> ascii s \<and> ascii t"
  by (simp_all add: ascii_def)

lemma rune_width_ascii: "\<not> digit7 c \<Longrightarrow> rune_width (c # s) = 1"
proof -
  assume "\<not> digit7 c"
  then have "byte c < 128" by (simp add: byte_small)
  then have "multi_width (c # s) = None"
    by (auto simp: in_range_def split: list.splits)
  then show ?thesis by (simp add: rune_width_def)
qed

lemma rune_count_ascii: "ascii s \<Longrightarrow> rune_count s = length s"
  by (induction s) (simp_all add: rune_width_ascii)

lemma utf8_valid_ascii: "ascii s \<Longrightarrow> utf8_valid s"
  by (induction s) (simp_all add: rune_width_ascii byte_small)

lemma strip_set: "set s \<subseteq> set (strip ws s) \<union> \<Union> (set ` set ws)"
proof (induction ws s rule: strip.induct)
  case (1 ws s)
  show ?case
  proof (cases "leading ws s")
    case None
    then show ?thesis by (simp add: strip_stop)
  next
    case (Some w)
    then have "prefix w s" and w: "w \<in> set ws" by (auto dest: leading_Some)
    then have "s = w @ drop (length w) s" by (auto simp: prefix_def)
    then have "set s = set w \<union> set (drop (length w) s)" by (metis set_append)
    with 1 [OF Some] w show ?thesis by (auto simp: strip.simps [of ws s] Some)
  qed
qed

lemma space_bytes: "c \<in> \<Union> (set ` set space_encodings) \<Longrightarrow> byte c \<le> 32 \<or> 128 \<le> byte c"
  by (auto simp: space_encodings_def byte_def)

lemma not_blank_if:
  assumes "c \<in> set s" and "32 < byte c" and "byte c < 128"
  shows "\<not> blank s"
proof
  assume "blank s"
  then have "strip (map rev space_encodings) (rev (strip space_encodings s)) = []"
    by (simp add: blank_def trim_space_def)
  with strip_set [of "rev (strip space_encodings s)" "map rev space_encodings"]
  have "set (strip space_encodings s) \<subseteq> \<Union> (set ` set space_encodings)" by simp
  with strip_set [of s space_encodings] assms(1) have "c \<in> \<Union> (set ` set space_encodings)" by blast
  with space_bytes assms(2,3) show False by fastforce
qed

text \<open>A sufficient test that evaluates quickly: some byte is a letter.\<close>

lemma not_blank_letter: "list_ex (\<lambda>c. \<not> digit7 c \<and> digit6 c) s \<Longrightarrow> \<not> blank s"
proof -
  assume "list_ex (\<lambda>c. \<not> digit7 c \<and> digit6 c) s"
  then obtain c where c: "c \<in> set s" "\<not> digit7 c" "digit6 c" by (auto simp: list_ex_iff)
  have "byte c = of_bool (digit0 c) + 2 * (of_bool (digit1 c) + 2 * (of_bool (digit2 c) + 2 * (of_bool (digit3 c)
    + 2 * (of_bool (digit4 c) + 2 * (of_bool (digit5 c) + 2 * (of_bool (digit6 c) + 2 * of_bool (digit7 c)))))))"
    by (simp add: byte_def of_char_def)
  with c have "64 \<le> byte c" "byte c < 128" by (simp_all add: of_bool_def byte_small)
  with c(1) show ?thesis by (intro not_blank_if) auto
qed

lemma to_valid_ascii: "ascii s \<Longrightarrow> to_valid s = s"
  by (simp add: utf8_valid_ascii utf8_valid_to_valid_id)

lemma itoa_nat_ascii: "ascii (itoa_nat n)"
proof -
  have "\<not> digit7 (digit d)" if "d < 10" for d
    using that byte_small [of "digit d"] by simp
  then show ?thesis by (auto simp: ascii_def list_all_iff dest: itoa_nat_digits)
qed

lemma itoa_ascii [simp]: "ascii (itoa i)"
  by (simp add: itoa_def itoa_nat_ascii)

lemma head_then_ascii:
  assumes "head_then F R lo hi s" and "\<And>c. F c \<Longrightarrow> byte c < 128" and "\<And>c. R c \<Longrightarrow> byte c < 128"
  shows "ascii s"
  using assms by (cases s) (auto simp: head_then_def ascii_def byte_small list_all_iff)

lemma byte_literals:
  "byte (CHR ''.'') = 46" "byte (CHR ''_'') = 95" "byte (CHR ''-'') = 45" "byte (CHR '':'') = 58"
  by (simp_all add: byte_def)

text \<open>What \<open>to_valid\<close> leaves is well-formed UTF-8.\<close>

lemma multi_width_take:
  "multi_width s = Some n \<Longrightarrow> multi_width (take n s @ t) = Some n"
  by (cases s) (auto split: list.splits if_splits)

lemma multi_width_high: "multi_width (c # s) = Some n \<Longrightarrow> \<not> byte c < 128"
  by (auto simp: in_range_def split: list.splits if_splits)

declare multi_width.simps(2) [simp del]

lemma utf8_valid_append_unit:
  assumes "byte c < 128 \<or> multi_width (c # s) \<noteq> None" and "utf8_valid t"
  shows "utf8_valid (take (rune_width (c # s)) (c # s) @ t)"
proof (cases "multi_width (c # s)")
  case None
  with assms(1) have "byte c < 128" by simp
  then have "\<not> digit7 c" by (simp add: byte_small)
  with None assms show ?thesis
    by (simp add: rune_width_def [of "c # s"] utf8_valid.simps(2) rune_width_ascii byte_small)
next
  case (Some n)
  then have n: "rune_width (c # s) = n" "2 \<le> n" "n \<le> length (c # s)"
    using multi_width_pos [OF Some] by (simp_all add: rune_width_def)
  then obtain u where u: "take n (c # s) = c # u" by (cases n) auto
  have m: "multi_width (c # u @ t) = Some n" using multi_width_take [OF Some, of t] u by simp
  then have "rune_width (c # u @ t) = n" by (simp add: rune_width_def)
  moreover have "length (c # u) = n" using n u by (metis length_take min_absorb2)
  ultimately have "utf8_valid (c # u @ t)" using m assms(2) by (simp add: utf8_valid.simps(2) drop_Cons')
  with u n show ?thesis by simp
qed

lemma utf8_valid_replacement: "utf8_valid t \<Longrightarrow> utf8_valid (map char_of [239, 191, 189 :: nat] @ t)"
proof -
  assume v: "utf8_valid t"
  have m: "multi_width (map char_of [239, 191, 189 :: nat] @ t) = Some 3"
    by (simp add: multi_width.simps(2) in_range_def byte_def)
  with v show ?thesis by (simp add: utf8_valid.simps(2) rune_width_def)
qed

lemma utf8_valid_to_valid [simp]: "utf8_valid (to_valid s)"
proof (induction s rule: to_valid.induct)
  case 1
  then show ?case by simp
next
  case (2 c s)
  show ?case
  proof (cases "byte c < 128 \<or> multi_width (c # s) \<noteq> None")
    case True
    with 2 have "utf8_valid (to_valid (drop (rune_width (c # s)) (c # s)))" by blast
    with True show ?thesis by (simp only: to_valid.simps if_True utf8_valid_append_unit)
  next
    case False
    with 2 have "utf8_valid (to_valid s)" by blast
    with False show ?thesis by (simp only: to_valid.simps if_False utf8_valid_replacement)
  qed
qed

lemma to_valid_idem [simp]: "to_valid (to_valid s) = to_valid s"
  by (rule utf8_valid_to_valid_id) simp
lemmas [go_eval] =
  lower_def upper_def decimal_def in_range_def byte_def head_then_def
  itoa_def itoa_nat.simps digit_def char_of_def

text \<open>
  The equations of the decoders split on every byte; proofs use the lemmas above instead.
\<close>

declare rune_count.simps(2) [simp del] utf8_valid.simps(2) [simp del] to_valid.simps(2) [simp del]

end
