(* ===== verification/Sha256.thy ===== *)
theory Sha256
  imports Go_Strings "HOL-Library.Word"
begin

text \<open>
  \<open>crypto/sha256.Sum256\<close> and its hexadecimal form (\<open>fmt.Sprintf("%x", hash)\<close>), which the code
  uses as the content hash of checkpoints, records and artifacts. FIPS 180-4 over 32-bit words.
\<close>

unbundle bit_operations_syntax

type_synonym w32 = "32 word"

definition ror :: "nat \<Rightarrow> w32 \<Rightarrow> w32" where
  "ror n x = drop_bit n x OR push_bit (32 - n) x"

definition round_constants :: "w32 list" where
  "round_constants =
     [1116352408, 1899447441, 3049323471, 3921009573, 961987163, 1508970993,
      2453635748, 2870763221, 3624381080, 310598401, 607225278, 1426881987,
      1925078388, 2162078206, 2614888103, 3248222580, 3835390401, 4022224774,
      264347078, 604807628, 770255983, 1249150122, 1555081692, 1996064986,
      2554220882, 2821834349, 2952996808, 3210313671, 3336571891, 3584528711,
      113926993, 338241895, 666307205, 773529912, 1294757372, 1396182291,
      1695183700, 1986661051, 2177026350, 2456956037, 2730485921, 2820302411,
      3259730800, 3345764771, 3516065817, 3600352804, 4094571909, 275423344,
      430227734, 506948616, 659060556, 883997877, 958139571, 1322822218,
      1537002063, 1747873779, 1955562222, 2024104815, 2227730452, 2361852424,
      2428436474, 2756734187, 3204031479, 3329325298]"

definition initial_hash :: "w32 list" where
  "initial_hash =
     [1779033703, 3144134277, 1013904242, 2773480762, 1359893119, 2600822924,
      528734635, 1541459225]"

definition pad_message :: "int list \<Rightarrow> int list" where
  "pad_message m =
     (let bits = 8 * int (length m)
      in m @ [128] @ replicate ((119 - length m mod 64) mod 64) 0
           @ map (\<lambda>q. bits div q mod 256)
               [72057594037927936, 281474976710656, 1099511627776, 4294967296, 16777216, 65536, 256, 1])"

fun to_words :: "int list \<Rightarrow> w32 list" where
  "to_words (a # b # c # d # r) =
     word_of_int (a * 16777216 + b * 65536 + c * 256 + d) # to_words r"
| "to_words _ = []"

text \<open>The message schedule, most recent word first: sixteen words and one more per call.\<close>

definition next_word :: "w32 list \<Rightarrow> w32" where
  "next_word ws =
     (let a = ws ! 14; b = ws ! 1;
          s0 = ror 7 a XOR ror 18 a XOR drop_bit 3 a;
          s1 = ror 17 b XOR ror 19 b XOR drop_bit 10 b
      in ws ! 15 + s0 + ws ! 6 + s1)"

fun expand :: "nat \<Rightarrow> w32 list \<Rightarrow> w32 list" where
  "expand 0 ws = ws"
| "expand (Suc n) ws = expand n (next_word ws # ws)"

fun sha_round :: "w32 list \<Rightarrow> w32 \<times> w32 \<Rightarrow> w32 list" where
  "sha_round [a, b, c, d, e, f, g, h] (k, w) =
     (let t1 = h + (ror 6 e XOR ror 11 e XOR ror 25 e) + ((e AND f) XOR (NOT e AND g)) + k + w;
          t2 = (ror 2 a XOR ror 13 a XOR ror 22 a) + ((a AND b) XOR (a AND c) XOR (b AND c))
      in [t1 + t2, a, b, c, d + t1, e, f, g])"
| "sha_round s _ = s"

definition sha_block :: "w32 list \<Rightarrow> w32 list \<Rightarrow> w32 list" where
  "sha_block hs ws =
     map2 (+) hs (foldl sha_round hs (zip round_constants (rev (expand 48 (rev ws)))))"

fun sha_blocks :: "nat \<Rightarrow> w32 list \<Rightarrow> w32 list \<Rightarrow> w32 list" where
  "sha_blocks 0 hs ws = hs"
| "sha_blocks (Suc n) hs ws = sha_blocks n (sha_block hs (take 16 ws)) (drop 16 ws)"

definition hex_digit :: "int \<Rightarrow> char" where
  "hex_digit n = (if n < 10 then char_of (48 + n) else char_of (87 + n))"

definition hex_word :: "w32 \<Rightarrow> gostring" where
  "hex_word w =
     map (\<lambda>q. hex_digit (uint w div q mod 16)) [268435456, 16777216, 1048576, 65536, 4096, 256, 16, 1]"

definition sha256_hex :: "gostring \<Rightarrow> gostring" where
  "sha256_hex s =
     (let ws = to_words (pad_message (map of_char s))
      in concat (map hex_word (sha_blocks (length ws div 16) initial_hash ws)))"

end
