(* ===== verification/Json_Values.thy ===== *)
theory Json_Values
  imports Sha256
begin

text \<open>
  JSON as Go's \<open>encoding/json\<close> sees it. A decoded value keeps the order and the duplicates of
  object members, so that \<open>canon\<close> can state what decoding into \<open>map[string]any\<close> (the last
  member of a name wins) followed by \<open>json.Marshal\<close> (members sorted by name) produces. Numbers keep
  their literal, as under \<open>UseNumber\<close>. White space between tokens is abstracted. A
  \<open>json.RawMessage\<close> is empty, not one JSON value, or the value it decodes to.
\<close>

datatype json =
    JNull
  | JBool bool
  | JNum gostring
  | JStr gostring
  | JArr "json list"
  | JObj "(gostring \<times> json) list"

datatype raw = Raw_Empty | Raw_Malformed | Raw json

section \<open>Canonical form\<close>

text \<open>Writing one member into an object whose members are sorted by name.\<close>

fun put_member :: "gostring \<Rightarrow> 'v \<Rightarrow> (gostring \<times> 'v) list \<Rightarrow> (gostring \<times> 'v) list" where
  "put_member k v [] = [(k, v)]"
| "put_member k v ((a, b) # ms) =
     (if k < a then (k, v) # (a, b) # ms
      else if k = a then (k, v) # ms
      else (a, b) # put_member k v ms)"

definition sort_members :: "(gostring \<times> 'v) list \<Rightarrow> (gostring \<times> 'v) list" where
  "sort_members ms = foldl (\<lambda>acc (k, v). put_member k v acc) [] ms"

fun canon :: "json \<Rightarrow> json" where
  "canon (JArr xs) = JArr (map canon xs)"
| "canon (JObj ms) = JObj (sort_members (map (\<lambda>(k, v). (k, canon v)) ms))"
| "canon j = j"

definition sorted_members :: "(gostring \<times> 'v) list \<Rightarrow> bool" where
  "sorted_members ms \<longleftrightarrow> sorted_wrt (<) (map fst ms)"

lemma put_member_keys: "fst ` set (put_member k v ms) = insert k (fst ` set ms)"
  by (induction k v ms rule: put_member.induct) auto

lemma put_member_values: "(a, b) \<in> set (put_member k v ms) \<Longrightarrow> (a = k \<and> b = v) \<or> (a, b) \<in> set ms"
  by (induction k v ms rule: put_member.induct) (auto split: if_splits)

lemma put_member_sorted: "sorted_members ms \<Longrightarrow> sorted_members (put_member k v ms)"
proof (induction k v ms rule: put_member.induct)
  case (1 k v)
  then show ?case by (simp add: sorted_members_def)
next
  case (2 k v a b ms)
  have keys: "set (map fst (put_member k v ms)) = insert k (fst ` set ms)"
    using put_member_keys by simp
  from 2 show ?case
    using keys by (auto simp: sorted_members_def)
qed

lemma map_of_put_member:
  "sorted_members ms \<Longrightarrow> map_of (put_member k v ms) = (map_of ms)(k \<mapsto> v)"
proof (induction k v ms rule: put_member.induct)
  case (1 k v)
  then show ?case by simp
next
  case (2 k v a b ms)
  then show ?case by (auto simp: sorted_members_def fun_eq_iff)
qed

lemma sort_members_snoc: "sort_members (ms @ [(k, v)]) = put_member k v (sort_members ms)"
  by (simp add: sort_members_def)

lemma sort_members_Nil [simp]: "sort_members [] = []"
  by (simp add: sort_members_def)

lemma sort_members_sorted: "sorted_members (sort_members ms)"
proof (induction ms rule: rev_induct)
  case Nil
  then show ?case by (simp add: sorted_members_def)
next
  case (snoc m ms)
  then show ?case by (cases m) (simp add: sort_members_snoc put_member_sorted)
qed

text \<open>Decoding into a map keeps the last member of every name.\<close>

lemma map_of_sort_members: "map_of (sort_members ms) = map_of (rev ms)"
proof (induction ms rule: rev_induct)
  case Nil
  then show ?case by simp
next
  case (snoc m ms)
  then show ?case
    by (cases m) (simp add: sort_members_snoc map_of_put_member sort_members_sorted)
qed

lemma sort_members_subset: "set (sort_members ms) \<subseteq> set ms"
proof (induction ms rule: rev_induct)
  case Nil
  then show ?case by simp
next
  case (snoc m ms)
  then show ?case
    by (cases m) (auto simp: sort_members_snoc dest: put_member_values)
qed

lemma put_member_last: "sorted_members (ms @ [(k, v)]) \<Longrightarrow> put_member k v ms = ms @ [(k, v)]"
proof (induction ms)
  case Nil
  then show ?case by simp
next
  case (Cons m ms)
  obtain a b where m: "m = (a, b)" by (cases m)
  with Cons.prems have "a < k" and "sorted_members (ms @ [(k, v)])"
    by (auto simp: sorted_members_def)
  with Cons.IH m show ?case by (auto dest: less_not_sym)
qed

lemma sorted_members_snocD: "sorted_members (ms @ [m]) \<Longrightarrow> sorted_members ms"
  by (simp add: sorted_members_def sorted_wrt_append)

lemma sort_members_id: "sorted_members ms \<Longrightarrow> sort_members ms = ms"
proof (induction ms rule: rev_induct)
  case Nil
  then show ?case by simp
next
  case (snoc m ms)
  obtain k v where m: "m = (k, v)" by (cases m)
  from snoc.prems have "sort_members ms = ms" by (intro snoc.IH) (rule sorted_members_snocD)
  with snoc.prems m show ?case by (simp add: sort_members_snoc put_member_last)
qed

lemma map_snd_sorted [simp]: "sorted_members (map (\<lambda>(k, v). (k, f v)) ms) = sorted_members ms"
  by (simp add: sorted_members_def case_prod_unfold comp_def)

lemma canon_idem [simp]: "canon (canon j) = canon j"
proof (induction j rule: canon.induct)
  case (2 ms)
  let ?s = "sort_members (map (\<lambda>(k, v). (k, canon v)) ms)"
  have "map (\<lambda>(k, v). (k, canon v)) ?s = ?s"
  proof (rule map_idI)
    fix m assume "m \<in> set ?s"
    with sort_members_subset have "m \<in> set (map (\<lambda>(k, v). (k, canon v)) ms)" by blast
    then obtain k v where kv: "(k, v) \<in> set ms" and m: "m = (k, canon v)" by auto
    from 2 [OF kv] have "canon (canon v) = canon v" by simp
    with m show "(case m of (k, v) \<Rightarrow> (k, canon v)) = m" by simp
  qed
  moreover have "sort_members ?s = ?s" by (rule sort_members_id) (rule sort_members_sorted)
  ultimately show ?case by simp
qed simp_all

section \<open>Encoded text\<close>

text \<open>
  \<open>json.Marshal\<close> with its default HTML escaping; only the length of the text and its hash are
  ever used.
\<close>

definition hex2 :: "nat \<Rightarrow> gostring" where
  "hex2 n = [hex_digit (int (n div 16)), hex_digit (int (n mod 16))]"

definition escape_ascii :: "char \<Rightarrow> gostring" where
  "escape_ascii c =
     (let n = byte c; bs = CHR 0x5C in
      if c = CHR 0x22 \<or> c = bs then [bs, c]
      else if n = 8 then [bs, CHR ''b''] else if n = 12 then [bs, CHR ''f'']
      else if n = 10 then [bs, CHR ''n''] else if n = 13 then [bs, CHR ''r'']
      else if n = 9 then [bs, CHR ''t'']
      else if n < 32 \<or> c = CHR ''<'' \<or> c = CHR ''>'' \<or> c = CHR ''&'' then bs # ''u00'' @ hex2 n
      else [c])"

function escape :: "gostring \<Rightarrow> gostring" where
  "escape [] = []"
| "escape (c # s) =
     (if byte c < 128 then escape_ascii c @ escape s
      else if multi_width (c # s) = None then CHR 0x5C # ''ufffd'' @ escape s
      else
        (let w = take (rune_width (c # s)) (c # s); r = drop (rune_width (c # s)) (c # s) in
         (if map byte w = [226, 128, 168] then CHR 0x5C # ''u2028''
          else if map byte w = [226, 128, 169] then CHR 0x5C # ''u2029''
          else w) @ escape r))"
  by pat_completeness auto
termination
  by (relation "measure length") (auto simp: drop_Cons' rune_width_pos)

definition quoted :: "gostring \<Rightarrow> gostring" where
  "quoted s = CHR 0x22 # escape s @ [CHR 0x22]"

fun commas :: "gostring list \<Rightarrow> gostring" where
  "commas [] = []"
| "commas [x] = x"
| "commas (x # xs) = x @ CHR '','' # commas xs"

fun json_text :: "json \<Rightarrow> gostring" where
  "json_text JNull = ''null''"
| "json_text (JBool b) = (if b then ''true'' else ''false'')"
| "json_text (JNum t) = t"
| "json_text (JStr s) = quoted s"
| "json_text (JArr xs) = CHR ''['' # commas (map json_text xs) @ '']''"
| "json_text (JObj ms) =
     CHR ''{'' # commas (map (\<lambda>(k, v). quoted k @ CHR '':'' # json_text v) ms) @ ''}''"

text \<open>A string field of a struct that is marshalled.\<close>

definition marshal_string :: "gostring \<Rightarrow> json" where
  "marshal_string s = JStr (to_valid s)"

definition marshal_int :: "int \<Rightarrow> json" where
  "marshal_int i = JNum (itoa i)"

section \<open>Decoding struct fields\<close>

text \<open>
  \<open>encoding/json\<close> matches an object member to a struct field by name up to case folding (ASCII
  letters, and the two non-ASCII runes that fold to K and S); the last matching member wins,
  \<open>null\<close> leaves a field at its zero value, and a string is decoded to well-formed UTF-8.
\<close>

function fold_name :: "gostring \<Rightarrow> gostring" where
  "fold_name [] = []"
| "fold_name (c # s) =
     (if lower c then char_of (byte c - 32) # fold_name s
      else if prefix (map char_of [226, 132, 170 :: nat]) (c # s) then CHR ''K'' # fold_name (drop 2 s)
      else if prefix (map char_of [197, 191 :: nat]) (c # s) then CHR ''S'' # fold_name (drop 1 s)
      else c # fold_name s)"
  by pat_completeness auto
termination
  by (relation "measure length") auto

definition up_ascii :: "char \<Rightarrow> char" where
  "up_ascii c = (if lower c then char_of (byte c - 32) else c)"

lemma fold_name_ascii: "ascii s \<Longrightarrow> fold_name s = map up_ascii s"
proof (induction s)
  case (Cons c s)
  then have "\<not> digit7 c" and "ascii s" by simp_all
  have "char_of (226 :: nat) \<noteq> c" "char_of (197 :: nat) \<noteq> c"
    using \<open>\<not> digit7 c\<close> byte_small [of "char_of (226 :: nat)"] byte_small [of "char_of (197 :: nat)"]
    by (auto simp: byte_def)
  with Cons show ?case by (simp add: up_ascii_def)
qed simp

declare fold_name.simps(2) [simp del] escape.simps(2) [simp del]

definition member_for :: "gostring \<Rightarrow> (gostring \<times> json) list \<Rightarrow> json option" where
  "member_for name ms =
     map_option snd (find (\<lambda>(k, v). k = name \<or> fold_name k = fold_name name) (rev ms))"

lemmas member_eval =
  member_for_def fold_name_ascii up_ascii_def lower_def in_range_def byte_def char_of_def

definition known_members :: "gostring list \<Rightarrow> (gostring \<times> json) list \<Rightarrow> bool" where
  "known_members names ms \<longleftrightarrow>
     list_all (\<lambda>(k, v). list_ex (\<lambda>name. k = name \<or> fold_name k = fold_name name) names) ms"

definition get_string :: "gostring \<Rightarrow> (gostring \<times> json) list \<Rightarrow> gostring option" where
  "get_string name ms =
     (case member_for name ms of
        None \<Rightarrow> Some []
      | Some JNull \<Rightarrow> Some []
      | Some (JStr s) \<Rightarrow> Some (to_valid s)
      | _ \<Rightarrow> None)"

definition get_int :: "gostring \<Rightarrow> (gostring \<times> json) list \<Rightarrow> int option" where
  "get_int name ms =
     (case member_for name ms of
        None \<Rightarrow> Some 0
      | Some JNull \<Rightarrow> Some 0
      | Some (JNum t) \<Rightarrow> atoi t
      | _ \<Rightarrow> None)"

definition get_bool :: "gostring \<Rightarrow> (gostring \<times> json) list \<Rightarrow> bool option" where
  "get_bool name ms =
     (case member_for name ms of
        None \<Rightarrow> Some False
      | Some JNull \<Rightarrow> Some False
      | Some (JBool b) \<Rightarrow> Some b
      | _ \<Rightarrow> None)"

definition get_raw :: "gostring \<Rightarrow> (gostring \<times> json) list \<Rightarrow> raw" where
  "get_raw name ms = (case member_for name ms of None \<Rightarrow> Raw_Empty | Some v \<Rightarrow> Raw v)"

fun all_some :: "'a option list \<Rightarrow> 'a list option" where
  "all_some [] = Some []"
| "all_some (None # _) = None"
| "all_some (Some x # xs) = map_option ((#) x) (all_some xs)"

lemma all_some_map_Some [simp]: "all_some (map (\<lambda>x. Some (f x)) xs) = Some (map f xs)"
  by (induction xs) simp_all

lemma all_some_Some: "all_some xs = Some ys \<longleftrightarrow> xs = map Some ys"
proof (induction xs arbitrary: ys rule: all_some.induct)
  case (3 x xs)
  then show ?case by (cases ys) auto
qed auto

section \<open>Decoding depends only on the canonical form\<close>

definition same_value :: "json \<Rightarrow> json \<Rightarrow> bool" where
  "same_value a b \<longleftrightarrow> canon a = canon b"

lemma same_value_refl [simp]: "same_value a a"
  by (simp add: same_value_def)

lemma canon_leaf:
  "canon j = JNull \<longleftrightarrow> j = JNull" "canon j = JBool b \<longleftrightarrow> j = JBool b"
  "canon j = JNum t \<longleftrightarrow> j = JNum t" "canon j = JStr s \<longleftrightarrow> j = JStr s"
  by (cases j; simp)+

lemma same_value_leaf:
  "same_value JNull j \<longleftrightarrow> j = JNull" "same_value (JBool b) j \<longleftrightarrow> j = JBool b"
  "same_value (JNum t) j \<longleftrightarrow> j = JNum t" "same_value (JStr s) j \<longleftrightarrow> j = JStr s"
  by (auto simp: same_value_def canon_leaf eq_commute [of _ "canon j"])

lemma same_value_arr: "same_value (JArr xs) j \<longleftrightarrow> (\<exists>ys. j = JArr ys \<and> list_all2 same_value xs ys)"
proof (cases j)
  case (JArr ys)
  have "map canon xs = map canon ys \<longleftrightarrow> list_all2 same_value xs ys"
    by (auto simp: list_all2_conv_all_nth same_value_def list_eq_iff_nth_eq)
  with JArr show ?thesis by (simp add: same_value_def)
qed (simp_all add: same_value_def)

definition canon_members :: "(gostring \<times> json) list \<Rightarrow> (gostring \<times> json) list" where
  "canon_members ms = sort_members (map (\<lambda>(k, v). (k, canon v)) ms)"

lemma map_of_canon_members: "map_of (canon_members ms) k = map_option canon (map_of (rev ms) k)"
  unfolding canon_members_def map_of_sort_members rev_map map_of_map by simp

lemma same_value_obj:
  "same_value (JObj ms) j \<longleftrightarrow> (\<exists>ns. j = JObj ns \<and> canon_members ms = canon_members ns)"
  by (cases j) (auto simp: same_value_def canon_members_def)

lemma canon_members_keys: "set (map fst (canon_members ms)) = set (map fst ms)"
proof -
  have "dom (map_of (canon_members ms)) = dom (map_of (rev ms))"
    by (auto simp: dom_def map_of_canon_members)
  then show ?thesis by (simp add: dom_map_of_conv_image_fst)
qed

definition exact_members :: "gostring list \<Rightarrow> (gostring \<times> json) list \<Rightarrow> bool" where
  "exact_members names ms \<longleftrightarrow> distinct (map fold_name names) \<and> set (map fst ms) \<subseteq> set names"

lemma exact_members_same:
  "canon_members ms = canon_members ns \<Longrightarrow> exact_members names ms \<longleftrightarrow> exact_members names ns"
  using canon_members_keys by (metis exact_members_def)

lemma find_map_of: "(\<And>k. k \<in> set (map fst ms) \<Longrightarrow> P k \<longleftrightarrow> k = name) \<Longrightarrow>
   map_option snd (find (\<lambda>(k, v). P k) ms) = map_of ms name"
  by (induction ms) auto

lemma member_for_exact:
  assumes "exact_members names ms" and "name \<in> set names"
  shows "member_for name ms = map_of (rev ms) name"
  unfolding member_for_def
proof (rule find_map_of)
  fix k assume "k \<in> set (map fst (rev ms))"
  with assms have "k \<in> set names" and "inj_on fold_name (set names)"
    by (auto simp: exact_members_def distinct_map)
  with assms(2) show "(k = name \<or> fold_name k = fold_name name) = (k = name)" by (auto dest: inj_onD)
qed

lemma known_members_exact: "exact_members names ms \<Longrightarrow> known_members names ms"
  by (fastforce simp: exact_members_def known_members_def list_all_iff list_ex_iff)

lemma member_for_same:
  assumes "canon_members ms = canon_members ns" and "exact_members names ms" and "name \<in> set names"
  shows "rel_option same_value (member_for name ms) (member_for name ns)"
proof -
  have ex: "exact_members names ns" using assms exact_members_same by blast
  have "map_option canon (member_for name ms) = map_option canon (member_for name ns)"
    using assms(1) map_of_canon_members member_for_exact [OF assms(2,3)] member_for_exact [OF ex assms(3)] by metis
  then show ?thesis by (cases "member_for name ms"; cases "member_for name ns") (auto simp: same_value_def)
qed

lemma get_string_same:
  assumes "rel_option same_value (member_for name ms) (member_for name ns)"
  shows "get_string name ms = get_string name ns"
  using assms by (cases "member_for name ms" rule: option.exhaust; cases "the (member_for name ms)")
    (auto simp: get_string_def same_value_leaf same_value_arr same_value_obj option_rel_Some1)

lemma get_int_same:
  assumes "rel_option same_value (member_for name ms) (member_for name ns)"
  shows "get_int name ms = get_int name ns"
  using assms by (cases "member_for name ms" rule: option.exhaust; cases "the (member_for name ms)")
    (auto simp: get_int_def same_value_leaf same_value_arr same_value_obj option_rel_Some1)

lemma get_bool_same:
  assumes "rel_option same_value (member_for name ms) (member_for name ns)"
  shows "get_bool name ms = get_bool name ns"
  using assms by (cases "member_for name ms" rule: option.exhaust; cases "the (member_for name ms)")
    (auto simp: get_bool_def same_value_leaf same_value_arr same_value_obj option_rel_Some1)

end
