(* ===== verification/Checkpoint.thy ===== *)
theory Checkpoint
  imports Json_Values
begin

text \<open>
  Checkpoints of an Agent Run (\<open>internal/agent/checkpoint.go\<close>), with the Action results and the
  model decisions they record (\<open>agent/actions.go\<close>, \<open>agent/action_error_catalog.go\<close>,
  \<open>models/decision.go\<close>). A checkpoint is one accepted outcome: a proposal of Actions, the result
  of one Action, a Steering Message or the Final Draft. Its identity key is determined by what it
  records, and its payload is canonical JSON with a SHA-256 of the encoded bytes.
\<close>

section \<open>Actions and their results\<close>

record action_proposal =
  ap_name :: gostring
  ap_input :: raw

record action_error =
  ae_kind :: gostring
  ae_code :: gostring
  ae_message :: gostring
  ae_suggestion :: gostring
  ae_retryable :: bool

record action_result =
  ar_status :: gostring
  ar_output :: raw
  ar_error_code :: gostring
  ar_error :: "action_error option"

definition action_succeeded :: gostring where "action_succeeded = ''succeeded''"
definition action_domain_error :: gostring where "action_domain_error = ''domain_error''"

definition action_name_ok :: "gostring \<Rightarrow> bool" where
  "action_name_ok =
     head_then lower (\<lambda>c. lower c \<or> decimal c \<or> c = CHR ''.'' \<or> c = CHR ''_'' \<or> c = CHR ''-'') 0 127"

definition action_code_ok :: "gostring \<Rightarrow> bool" where
  "action_code_ok = head_then lower (\<lambda>c. lower c \<or> decimal c \<or> c = CHR ''_'') 0 63"

definition action_error_ok :: "action_error \<Rightarrow> bool" where
  "action_error_ok e \<longleftrightarrow>
     \<not> (\<not> action_code_ok (ae_kind e) \<or> \<not> action_code_ok (ae_code e) \<or> blank (ae_message e)
        \<or> rune_count (ae_message e) > 512 \<or> rune_count (ae_suggestion e) > 512)"

text \<open>\<open>json.Unmarshal(raw, &m)\<close> into a map that is then non-nil.\<close>

fun is_object :: "raw \<Rightarrow> bool" where
  "is_object (Raw (JObj _)) = True"
| "is_object _ = False"

definition action_result_ok :: "action_result \<Rightarrow> bool" where
  "action_result_ok r \<longleftrightarrow>
     (if ar_status r = action_succeeded then
        \<not> (ar_error_code r \<noteq> [] \<or> ar_error r \<noteq> None \<or> ar_output r = Raw_Empty \<or> \<not> is_object (ar_output r))
      else if ar_status r = action_domain_error then
        (let legacy = ar_error r = None \<and> action_code_ok (ar_error_code r);
             structured = ar_error_code r = [] \<and> (case ar_error r of None \<Rightarrow> False | Some e \<Rightarrow> action_error_ok e)
         in \<not> (ar_output r \<noteq> Raw_Empty \<or> (\<not> legacy \<and> \<not> structured)))
      else False)"

text \<open>The Final Draft and the shape of a decision of the model.\<close>

definition final_draft_ok :: "gostring \<Rightarrow> bool" where
  "final_draft_ok text \<longleftrightarrow> \<not> blank text"

record model_decision =
  md_final :: "gostring option"
  md_proposal :: "action_proposal list option"

definition model_decision_ok :: "model_decision \<Rightarrow> bool" where
  "model_decision_ok d \<longleftrightarrow>
     \<not> ((md_final d = None) = (md_proposal d = None))
     \<and> (case md_final d of None \<Rightarrow> True | Some t \<Rightarrow> final_draft_ok t)
     \<and> (case md_proposal d of None \<Rightarrow> True | Some actions \<Rightarrow> actions \<noteq> [])"

section \<open>Pending checkpoints\<close>

datatype checkpoint_kind =
    Action_Proposal
  | Action_Result
  | Final_Draft
  | Steering_Message
  | Other_Kind gostring

record pending_checkpoint =
  pc_identity_key :: gostring
  pc_kind :: checkpoint_kind
  pc_decision_no :: int
  pc_action_index :: "int option"
  pc_action_id :: gostring
  pc_payload_version :: int
  pc_payload :: raw
  pc_payload_sha256 :: gostring

datatype checkpoint_error =
    Invalid_Proposal
  | Invalid_Proposal_Name
  | Payload_Not_Object
  | Invalid_Result_Identity
  | Invalid_Result
  | Invalid_Final_Draft
  | Invalid_Steering

definition decision_key :: "int \<Rightarrow> gostring" where
  "decision_key n = ''decision:'' @ itoa n"

definition action_key :: "int \<Rightarrow> int \<Rightarrow> gostring" where
  "action_key n i = ''decision:'' @ itoa n @ ''/action:'' @ itoa i"

definition final_key :: "int \<Rightarrow> gostring" where
  "final_key n = ''decision:'' @ itoa n @ ''/final''"

definition steering_key :: "int \<Rightarrow> gostring \<Rightarrow> gostring" where
  "steering_key n m = ''decision:'' @ itoa n @ ''/steer:'' @ m"

definition hash_payload :: "json \<Rightarrow> gostring" where
  "hash_payload j = sha256_hex (json_text j)"

fun canonical_json_object :: "raw \<Rightarrow> (checkpoint_error, json) result" where
  "canonical_json_object (Raw (JObj ms)) = Inr (canon (JObj ms))"
| "canonical_json_object _ = Inl Payload_Not_Object"

subsection \<open>Proposals\<close>

definition proposal_action_json :: "int \<Rightarrow> nat \<Rightarrow> gostring \<Rightarrow> json \<Rightarrow> json" where
  "proposal_action_json n i name input =
     JObj [(''action_id'', marshal_string (action_key n (int i))), (''index'', marshal_int (int i)),
           (''name'', marshal_string name), (''input'', input)]"

fun proposal_actions_json :: "int \<Rightarrow> nat \<Rightarrow> action_proposal list \<Rightarrow> (checkpoint_error, json list) result" where
  "proposal_actions_json n i [] = Inr []"
| "proposal_actions_json n i (a # as) =
     (if \<not> action_name_ok (ap_name a) then Inl Invalid_Proposal_Name
      else bind_result (canonical_json_object (ap_input a)) (\<lambda>input.
             bind_result (proposal_actions_json n (Suc i) as) (\<lambda>js.
               Inr (proposal_action_json n i (ap_name a) input # js))))"

definition new_proposal_checkpoint ::
  "int \<Rightarrow> action_proposal list \<Rightarrow> (checkpoint_error, pending_checkpoint) result" where
  "new_proposal_checkpoint n actions =
     (if n < 1 \<or> actions = [] then Inl Invalid_Proposal
      else bind_result (proposal_actions_json n 0 actions) (\<lambda>js.
        let encoded = JObj [(''actions'', JArr js)] in
        Inr \<lparr>pc_identity_key = decision_key n, pc_kind = Action_Proposal, pc_decision_no = n,
             pc_action_index = None, pc_action_id = [], pc_payload_version = 1,
             pc_payload = Raw encoded, pc_payload_sha256 = hash_payload encoded\<rparr>))"

subsection \<open>Action results\<close>

text \<open>\<open>omitempty\<close> drops an empty string, an empty raw message and a nil pointer.\<close>

definition opt_member :: "gostring \<Rightarrow> gostring \<Rightarrow> (gostring \<times> json) list" where
  "opt_member name s = (if s = [] then [] else [(name, marshal_string s)])"

definition action_error_json :: "action_error \<Rightarrow> json" where
  "action_error_json e =
     JObj ([(''kind'', marshal_string (ae_kind e)), (''code'', marshal_string (ae_code e)),
            (''message'', marshal_string (ae_message e))]
           @ opt_member ''suggestion'' (ae_suggestion e)
           @ [(''retryable'', JBool (ae_retryable e))])"

definition action_result_json :: "gostring \<Rightarrow> action_result \<Rightarrow> json option \<Rightarrow> json" where
  "action_result_json action_id r output =
     JObj ([(''action_id'', marshal_string action_id), (''status'', marshal_string (ar_status r))]
           @ (case output of None \<Rightarrow> [] | Some j \<Rightarrow> [(''output'', j)])
           @ opt_member ''error_code'' (ar_error_code r)
           @ (case ar_error r of None \<Rightarrow> [] | Some e \<Rightarrow> [(''error'', action_error_json e)]))"

definition new_action_result_checkpoint ::
  "int \<Rightarrow> int \<Rightarrow> gostring \<Rightarrow> action_result \<Rightarrow> (checkpoint_error, pending_checkpoint) result" where
  "new_action_result_checkpoint n i action_id r =
     (if n < 1 \<or> i < 0 \<or> action_id \<noteq> action_key n i then Inl Invalid_Result_Identity
      else if \<not> action_result_ok r then Inl Invalid_Result
      else bind_result
             (if ar_status r = action_succeeded
              then bind_result (canonical_json_object (ar_output r)) (\<lambda>j. Inr (Some j))
              else Inr None)
             (\<lambda>output.
               let encoded = action_result_json action_id r output in
               Inr \<lparr>pc_identity_key = action_id, pc_kind = Action_Result, pc_decision_no = n,
                    pc_action_index = Some i, pc_action_id = action_id,
                    pc_payload_version = (if ar_error r \<noteq> None then 2 else 1),
                    pc_payload = Raw encoded, pc_payload_sha256 = hash_payload encoded\<rparr>))"

subsection \<open>Final Drafts and Steering Messages\<close>

definition max_final_draft_bytes :: nat where "max_final_draft_bytes = 512 * 1024"
definition max_steering_bytes :: nat where "max_steering_bytes = 65536"

definition new_final_draft_checkpoint ::
  "int \<Rightarrow> gostring \<Rightarrow> (checkpoint_error, pending_checkpoint) result" where
  "new_final_draft_checkpoint n text =
     (if n < 1 \<or> length text > max_final_draft_bytes \<or> \<not> final_draft_ok text then Inl Invalid_Final_Draft
      else
        let encoded = JObj [(''text'', marshal_string text)] in
        Inr \<lparr>pc_identity_key = final_key n, pc_kind = Final_Draft, pc_decision_no = n,
             pc_action_index = None, pc_action_id = [], pc_payload_version = 1,
             pc_payload = Raw encoded, pc_payload_sha256 = hash_payload encoded\<rparr>)"

definition steering_id_ok :: "gostring \<Rightarrow> bool" where
  "steering_id_ok =
     (let C = (\<lambda>c. upper c \<or> lower c \<or> decimal c \<or> c = CHR ''.'' \<or> c = CHR ''_'' \<or> c = CHR '':'' \<or> c = CHR ''-'')
      in head_then C C 0 119)"

definition new_steering_checkpoint ::
  "int \<Rightarrow> gostring \<Rightarrow> gostring \<Rightarrow> (checkpoint_error, pending_checkpoint) result" where
  "new_steering_checkpoint n message_id content =
     (if n < 1 \<or> \<not> steering_id_ok message_id \<or> blank content \<or> length content > max_steering_bytes
      then Inl Invalid_Steering
      else
        let encoded = JObj [(''message_id'', marshal_string message_id), (''content'', marshal_string content)] in
        Inr \<lparr>pc_identity_key = steering_key n message_id, pc_kind = Steering_Message, pc_decision_no = n,
             pc_action_index = None, pc_action_id = [], pc_payload_version = 1,
             pc_payload = Raw encoded, pc_payload_sha256 = hash_payload encoded\<rparr>)"

section \<open>Facts about what the constructors accept\<close>

lemma canonical_json_object_Inr:
  "canonical_json_object r = Inr j \<longleftrightarrow> (\<exists>ms. r = Raw (JObj ms) \<and> j = canon (JObj ms))"
  by (cases r rule: canonical_json_object.cases) auto

lemma canon_object: "canon (JObj ms) = JObj (sort_members (map (\<lambda>(k, v). (k, canon v)) ms))"
  by simp

lemma canonical_json_object_canon:
  assumes "canonical_json_object r = Inr j"
  shows "canonical_json_object (Raw j) = Inr j"
proof -
  from assms obtain ms where j: "j = canon (JObj ms)" by (auto simp only: canonical_json_object_Inr)
  then obtain ms' where ms': "j = JObj ms'" using canon_object by blast
  from j have "canon j = j" by (simp only: canon_idem)
  with ms' show ?thesis by (simp only: canonical_json_object.simps)
qed

lemma canonical_json_object_same:
  "same_value a b \<Longrightarrow> canonical_json_object (Raw a) = canonical_json_object (Raw b)"
proof (cases a)
  case (JObj ms)
  assume "same_value a b"
  with JObj show ?thesis by (auto simp: same_value_obj canon_members_def)
next
  case (JArr xs)
  assume "same_value a b"
  with JArr show ?thesis by (auto simp: same_value_arr)
qed (auto simp: same_value_leaf)

end
