(* ===== verification/Action_Errors.thy ===== *)
theory Action_Errors
  imports Checkpoint
begin

text \<open>
  The static catalogue of domain errors the model may see (\<open>agent/action_error_catalog.go\<close>) and the
  function that replaces a legacy error code by its structured form.
\<close>

definition action_error_catalog :: "(gostring \<times> action_error) list" where
  "action_error_catalog =
   [
    (''division_by_zero'',
     \<lparr>ae_kind = ''domain'', ae_code = ''division_by_zero'',
      ae_message = ''The calculation cannot divide by zero.'',
      ae_suggestion = ''Use a non-zero divisor or choose another operation.'',
      ae_retryable = False\<rparr>),
    (''invalid_decimal'',
     \<lparr>ae_kind = ''domain'', ae_code = ''invalid_decimal'',
      ae_message = ''A calculation operand is not a supported decimal.'',
      ae_suggestion = ''Use canonical decimal strings without exponents.'',
      ae_retryable = False\<rparr>),
    (''invalid_operand_count'',
     \<lparr>ae_kind = ''domain'', ae_code = ''invalid_operand_count'',
      ae_message = ''The calculation requires exactly two operands.'',
      ae_suggestion = ''Provide exactly two decimal operands.'',
      ae_retryable = False\<rparr>),
    (''unsupported_operation'',
     \<lparr>ae_kind = ''domain'', ae_code = ''unsupported_operation'',
      ae_message = ''The requested calculation operation is unsupported.'',
      ae_suggestion = ''Use add, subtract, multiply, or divide.'',
      ae_retryable = False\<rparr>),
    (''calculation_result_too_large'',
     \<lparr>ae_kind = ''domain'', ae_code = ''calculation_result_too_large'',
      ae_message = ''The calculation result exceeds the supported size.'',
      ae_suggestion = ''Split the calculation into smaller bounded steps.'',
      ae_retryable = False\<rparr>),
    (''invalid_time_zone'',
     \<lparr>ae_kind = ''domain'', ae_code = ''invalid_time_zone'',
      ae_message = ''The requested time zone is invalid.'',
      ae_suggestion = ''Use a valid IANA time-zone name such as Asia/Shanghai.'',
      ae_retryable = False\<rparr>),
    (''retrieval_unavailable'',
     \<lparr>ae_kind = ''domain'', ae_code = ''retrieval_unavailable'',
      ae_message = ''Selected-source retrieval is currently unavailable.'',
      ae_suggestion = ''Retry once later or continue without claiming source support.'',
      ae_retryable = True\<rparr>),
    (''evidence_scope_unavailable'',
     \<lparr>ae_kind = ''domain'', ae_code = ''evidence_scope_unavailable'',
      ae_message = ''The requested Evidence scope is unavailable in this Research Run.'',
      ae_suggestion = ''Inspect an available Source again and use the exact source_id and entry_id it returns.'',
      ae_retryable = False\<rparr>),
    (''web_search_unavailable'',
     \<lparr>ae_kind = ''domain'', ae_code = ''web_search_unavailable'',
      ae_message = ''Web search is currently unavailable.'',
      ae_suggestion = ''Retry later or use another available evidence source.'',
      ae_retryable = True\<rparr>),
    (''web_search_timeout'',
     \<lparr>ae_kind = ''domain'', ae_code = ''web_search_timeout'',
      ae_message = ''Web search did not finish before its deadline.'',
      ae_suggestion = ''Retry with fewer or narrower queries.'',
      ae_retryable = True\<rparr>),
    (''web_search_rate_limited'',
     \<lparr>ae_kind = ''domain'', ae_code = ''web_search_rate_limited'',
      ae_message = ''Web search is temporarily rate limited.'',
      ae_suggestion = ''Wait before retrying or use another available source.'',
      ae_retryable = True\<rparr>),
    (''web_search_invalid_response'',
     \<lparr>ae_kind = ''domain'', ae_code = ''web_search_invalid_response'',
      ae_message = ''Web search returned an unusable response.'',
      ae_suggestion = ''Retry once with a simpler query or use another source.'',
      ae_retryable = True\<rparr>),
    (''code_sandbox_unavailable'',
     \<lparr>ae_kind = ''domain'', ae_code = ''code_sandbox_unavailable'',
      ae_message = ''The Python sandbox is currently unavailable.'',
      ae_suggestion = ''Retry once later or continue without computed results.'',
      ae_retryable = True\<rparr>),
    (''code_sandbox_rate_limited'',
     \<lparr>ae_kind = ''domain'', ae_code = ''code_sandbox_rate_limited'',
      ae_message = ''The Python sandbox is temporarily rate limited.'',
      ae_suggestion = ''Wait before retrying or continue without computed results.'',
      ae_retryable = True\<rparr>),
    (''code_sandbox_request_invalid'',
     \<lparr>ae_kind = ''domain'', ae_code = ''code_sandbox_request_invalid'',
      ae_message = ''The Python code or input files exceed the sandbox limits.'',
      ae_suggestion = ''Use fewer or smaller input files and shorter code.'',
      ae_retryable = False\<rparr>),
    (''read_url_unavailable'',
     \<lparr>ae_kind = ''domain'', ae_code = ''read_url_unavailable'',
      ae_message = ''Page reading is currently unavailable.'',
      ae_suggestion = ''Retry later or use another accessible source.'',
      ae_retryable = True\<rparr>),
    (''read_url_failed'',
     \<lparr>ae_kind = ''domain'', ae_code = ''read_url_failed'',
      ae_message = ''The requested page could not be read.'',
      ae_suggestion = ''Verify the URL or use another accessible source.'',
      ae_retryable = True\<rparr>),
    (''tool_result_expired'',
     \<lparr>ae_kind = ''domain'', ae_code = ''tool_result_expired'',
      ae_message = ''The recent Tool Result is no longer available.'',
      ae_suggestion = ''Repeat the original read-only Tool Call if the content is still needed.'',
      ae_retryable = False\<rparr>),
    (''tool_result_unauthorized'',
     \<lparr>ae_kind = ''authorization'', ae_code = ''tool_result_unauthorized'',
      ae_message = ''The Tool Result does not belong to the current user, Chat, and Run.'',
      ae_suggestion = ''Use only result references returned in this Research Run.'',
      ae_retryable = False\<rparr>),
    (''tool_result_corrupt'',
     \<lparr>ae_kind = ''infrastructure'', ae_code = ''tool_result_corrupt'',
      ae_message = ''The cached Tool Result failed integrity validation.'',
      ae_suggestion = ''Repeat the original read-only Tool Call if the content is still needed.'',
      ae_retryable = False\<rparr>),
    (''tool_result_range_invalid'',
     \<lparr>ae_kind = ''domain'', ae_code = ''tool_result_range_invalid'',
      ae_message = ''The requested Tool Result byte range is invalid.'',
      ae_suggestion = ''Use offset zero or the exact next_offset returned by the previous page.'',
      ae_retryable = False\<rparr>),
    (''tool_result_read_failed'',
     \<lparr>ae_kind = ''infrastructure'', ae_code = ''tool_result_read_failed'',
      ae_message = ''The recent Tool Result cache could not be read.'',
      ae_suggestion = ''Retry once or repeat the original read-only Tool Call.'',
      ae_retryable = True\<rparr>),
    (''skill_not_allowed'',
     \<lparr>ae_kind = ''domain'', ae_code = ''skill_not_allowed'',
      ae_message = ''The requested skill is not allowed for this Agent.'',
      ae_suggestion = ''Use one of the skills exposed to the current Agent.'',
      ae_retryable = False\<rparr>),
    (''skill_not_found'',
     \<lparr>ae_kind = ''domain'', ae_code = ''skill_not_found'',
      ae_message = ''The requested skill could not be found.'',
      ae_suggestion = ''Check the available skill names and choose one of them.'',
      ae_retryable = False\<rparr>),
    (''action_interrupted'',
     \<lparr>ae_kind = ''domain'', ae_code = ''action_interrupted'',
      ae_message = ''The previous tool execution was interrupted before its result was accepted.'',
      ae_suggestion = ''Inspect current state before deciding whether a safe retry is appropriate.'',
      ae_retryable = True\<rparr>)
   ]"

definition enrich_action_domain_error :: "action_result \<Rightarrow> action_result" where
  "enrich_action_domain_error r =
     (if ar_status r \<noteq> action_domain_error \<or> ar_error r \<noteq> None \<or> ar_error_code r = [] then r
      else
        let detail = (case map_of action_error_catalog (ar_error_code r) of
               Some d \<Rightarrow> d
             | None \<Rightarrow>
                 \<lparr>ae_kind = ''domain'', ae_code = ar_error_code r,
                  ae_message = ''The tool could not complete the requested operation.'',
                  ae_suggestion = ''Review the tool input and choose a different safe next action.'',
                  ae_retryable = False\<rparr>)
        in r\<lparr>ar_error_code := [], ar_error := Some detail\<rparr>)"

section \<open>The catalogue\<close>

lemma catalog_ok: "list_all (\<lambda>(k, e). ae_code e = k \<and> action_error_ok e) action_error_catalog"
  by (simp add: action_error_catalog_def action_error_ok_def action_code_ok_def go_eval
       not_blank_letter rune_count_ascii del: rune_count.simps)

lemma generic_message_ok: "\<not> blank ''The tool could not complete the requested operation.''"
   "rune_count ''The tool could not complete the requested operation.'' \<le> 512"
   "rune_count ''Review the tool input and choose a different safe next action.'' \<le> 512"
  "action_code_ok ''domain''"
  by (simp_all add: action_code_ok_def go_eval not_blank_letter rune_count_ascii del: rune_count.simps)

lemma catalog_member:
  assumes "map_of action_error_catalog k = Some e" shows "ae_code e = k" and "action_error_ok e"
  using catalog_ok map_of_SomeD [OF assms] by (auto simp: list_all_iff)

section \<open>What enrichment keeps\<close>

text \<open>
  enriching a valid Action result gives a valid Action result, and a domain error then always
  carries a valid structured error and no legacy code; the structured error of a legacy result has
  that result's code, whether or not the catalogue lists it.
\<close>

lemma enrich_keeps_results_valid:
  assumes "action_result_ok r"
  shows "action_result_ok (enrich_action_domain_error r)
    \<and> (ar_status r = action_domain_error \<longrightarrow> 
       (\<exists>e. ar_error (enrich_action_domain_error r) = Some e \<and> action_error_ok e
          \<and> ar_error_code (enrich_action_domain_error r) = []
          \<and> (ar_error r = None \<longrightarrow> ae_code e = ar_error_code r)))"
proof (cases "ar_status r \<noteq> action_domain_error \<or> ar_error r \<noteq> None")
  case True
  then have "enrich_action_domain_error r = r" by (auto simp: enrich_action_domain_error_def)
  with assms True show ?thesis
    by (auto simp: action_result_ok_def action_succeeded_def action_domain_error_def Let_def split: if_splits option.splits)
next
  case False
  then have code: "action_code_ok (ar_error_code r)" and out: "ar_output r = Raw_Empty"
    and st: "ar_status r = action_domain_error" "ar_error r = None"
    using assms by (auto simp: action_result_ok_def action_succeeded_def action_domain_error_def)
  then have ne: "ar_error_code r \<noteq> []" by (auto simp: action_code_ok_def dest: head_then_nonempty)
  obtain d where d: "enrich_action_domain_error r = r\<lparr>ar_error_code := [], ar_error := Some d\<rparr>"
    and dok: "action_error_ok d" and dc: "ae_code d = ar_error_code r"
  proof (cases "map_of action_error_catalog (ar_error_code r)")
    case None
    with st ne generic_message_ok code that show ?thesis
      by (simp add: enrich_action_domain_error_def action_error_ok_def del: rune_count.simps)
  next
    case (Some e)
    with st ne that catalog_member [OF Some] show ?thesis by (simp add: enrich_action_domain_error_def)
  qed
  show ?thesis using st out dok dc
    by (simp add: d action_result_ok_def action_succeeded_def action_domain_error_def)
qed
end
