(* ===== verification/Checkpoint_Prefix.thy ===== *)
theory Checkpoint_Prefix
  imports Action_Errors
begin

text \<open>
  Reading a Run's checkpoints back (\<open>internal/agent/checkpoint_prefix.go\<close>):
  \<open>LoadCheckpointPrefix\<close> replays the stored rows in sequence order and rejects any row that the
  constructors of theory \<open>Checkpoint\<close> would not have written at that place. The loop is
  \<open>fold_result load_step\<close> over the rows; cancellation of the context between two rows, which
  aborts the load without a prefix, is left out.
\<close>

section \<open>The accepted prefix\<close>

record checkpoint =
  cp_sequence_no :: int
  cp_pending :: pending_checkpoint

record accepted_action =
  aa_action_id :: gostring
  aa_index :: int
  aa_name :: gostring
  aa_input :: raw
  aa_result :: "action_result option"

record accepted_proposal =
  apr_decision_no :: int
  apr_actions :: "accepted_action list"

record accepted_steering =
  as_decision_no :: int
  as_message_id :: gostring
  as_content :: gostring

record checkpoint_prefix =
  cx_proposals :: "accepted_proposal list"
  cx_steering :: "accepted_steering list"
  cx_final :: "gostring option"
  cx_decisions :: int
  cx_actions :: int

datatype load_reason =
    Sequence_Gap
  | Follows_Final_Draft
  | Unexpected_Proposal
  | Invalid_Proposal_Payload
  | Invalid_Action_Ordinal
  | Proposal_Mismatch
  | No_Proposal
  | Result_Out_Of_Order
  | Invalid_Result_Payload
  | Result_Mismatch
  | Unexpected_Final
  | Invalid_Final_Payload
  | Final_Mismatch
  | Unexpected_Steering
  | Invalid_Steering_Payload
  | Steering_Mismatch
  | Steering_Delivered_Twice
  | Unknown_Kind

definition first_missing_result :: "accepted_proposal \<Rightarrow> int" where
  "first_missing_result p =
     (case find (\<lambda>i. aa_result (apr_actions p ! i) = None) [0..<length (apr_actions p)] of
        Some i \<Rightarrow> int i
      | None \<Rightarrow> -1)"

definition has_incomplete_proposal :: "checkpoint_prefix \<Rightarrow> bool" where
  "has_incomplete_proposal p \<longleftrightarrow>
     (if cx_proposals p = [] then False else first_missing_result (last (cx_proposals p)) \<ge> 0)"

section \<open>Decoding payloads\<close>

record proposal_entry =
  pe_action_id :: gostring
  pe_index :: int
  pe_name :: gostring
  pe_input :: raw

fun decode_proposal_entry :: "json \<Rightarrow> proposal_entry option" where
  "decode_proposal_entry JNull = Some \<lparr>pe_action_id = [], pe_index = 0, pe_name = [], pe_input = Raw_Empty\<rparr>"
| "decode_proposal_entry (JObj ms) =
     (case (get_string ''action_id'' ms, get_int ''index'' ms, get_string ''name'' ms) of
        (Some a, Some i, Some n) \<Rightarrow>
          Some \<lparr>pe_action_id = a, pe_index = i, pe_name = n, pe_input = get_raw ''input'' ms\<rparr>
      | _ \<Rightarrow> None)"
| "decode_proposal_entry _ = None"

fun decode_proposal :: "raw \<Rightarrow> proposal_entry list option" where
  "decode_proposal (Raw JNull) = Some []"
| "decode_proposal (Raw (JObj ms)) =
     (case member_for ''actions'' ms of
        None \<Rightarrow> Some []
      | Some JNull \<Rightarrow> Some []
      | Some (JArr xs) \<Rightarrow> all_some (map decode_proposal_entry xs)
      | _ \<Rightarrow> None)"
| "decode_proposal _ = None"

fun decode_action_error :: "json \<Rightarrow> action_error option option" where
  "decode_action_error JNull = Some None"
| "decode_action_error (JObj ms) =
     (case (get_string ''kind'' ms, get_string ''code'' ms, get_string ''message'' ms,
            get_string ''suggestion'' ms, get_bool ''retryable'' ms) of
        (Some k, Some c, Some m, Some s, Some r) \<Rightarrow>
          Some (Some \<lparr>ae_kind = k, ae_code = c, ae_message = m, ae_suggestion = s, ae_retryable = r\<rparr>)
      | _ \<Rightarrow> None)"
| "decode_action_error _ = None"

fun decode_action_result :: "raw \<Rightarrow> (gostring \<times> action_result) option" where
  "decode_action_result (Raw JNull) =
     Some ([], \<lparr>ar_status = [], ar_output = Raw_Empty, ar_error_code = [], ar_error = None\<rparr>)"
| "decode_action_result (Raw (JObj ms)) =
     (case (get_string ''action_id'' ms, get_string ''status'' ms, get_string ''error_code'' ms,
            decode_action_error (case member_for ''error'' ms of None \<Rightarrow> JNull | Some j \<Rightarrow> j)) of
        (Some a, Some s, Some c, Some e) \<Rightarrow>
          Some (a, \<lparr>ar_status = s, ar_output = get_raw ''output'' ms, ar_error_code = c, ar_error = e\<rparr>)
      | _ \<Rightarrow> None)"
| "decode_action_result _ = None"

fun decode_final :: "raw \<Rightarrow> gostring option" where
  "decode_final (Raw JNull) = Some []"
| "decode_final (Raw (JObj ms)) = get_string ''text'' ms"
| "decode_final _ = None"

fun decode_steering :: "raw \<Rightarrow> (gostring \<times> gostring) option" where
  "decode_steering (Raw JNull) = Some ([], [])"
| "decode_steering (Raw (JObj ms)) =
     (case (get_string ''message_id'' ms, get_string ''content'' ms) of
        (Some m, Some c) \<Rightarrow> Some (m, c)
      | _ \<Rightarrow> None)"
| "decode_steering _ = None"

section \<open>Comparing a row with what the code would have written\<close>

text \<open>
  \<open>sameJSON\<close> compares the bytes and else the decoded values; two decoded values are deeply equal
  when their canonical forms are.
\<close>

fun same_json :: "raw \<Rightarrow> raw \<Rightarrow> bool" where
  "same_json (Raw a) (Raw b) \<longleftrightarrow> canon a = canon b"
| "same_json Raw_Empty Raw_Empty = True"
| "same_json _ _ = False"

definition checkpoint_matches :: "pending_checkpoint \<Rightarrow> pending_checkpoint \<Rightarrow> bool" where
  "checkpoint_matches c e \<longleftrightarrow>
     (if pc_identity_key c \<noteq> pc_identity_key e \<or> pc_kind c \<noteq> pc_kind e \<or> pc_decision_no c \<noteq> pc_decision_no e
         \<or> pc_action_id c \<noteq> pc_action_id e \<or> pc_payload_version c \<noteq> pc_payload_version e
         \<or> pc_payload_sha256 c \<noteq> pc_payload_sha256 e \<or> \<not> same_json (pc_payload c) (pc_payload e)
      then False
      else if pc_action_index c = None \<or> pc_action_index e = None
      then pc_action_index c = None \<and> pc_action_index e = None
      else pc_action_index c = pc_action_index e)"

definition matches_result ::
  "pending_checkpoint \<Rightarrow> (checkpoint_error, pending_checkpoint) result \<Rightarrow> bool" where
  "matches_result c expected = (case expected of Inl _ \<Rightarrow> False | Inr e \<Rightarrow> checkpoint_matches c e)"

section \<open>The loop\<close>

record load_state =
  ls_prefix :: checkpoint_prefix
  ls_next :: int
  ls_final :: bool
  ls_position :: int

definition empty_prefix :: checkpoint_prefix where
  "empty_prefix = \<lparr>cx_proposals = [], cx_steering = [], cx_final = None, cx_decisions = 0, cx_actions = 0\<rparr>"

definition load_start :: load_state where
  "load_start = \<lparr>ls_prefix = empty_prefix, ls_next = 1, ls_final = False, ls_position = 0\<rparr>"

definition ordinals_ok :: "int \<Rightarrow> proposal_entry list \<Rightarrow> bool" where
  "ordinals_ok n es \<longleftrightarrow>
     list_all (\<lambda>i. pe_index (es ! i) = int i \<and> pe_action_id (es ! i) = action_key n (int i)) [0..<length es]"

definition load_proposal :: "load_state \<Rightarrow> pending_checkpoint \<Rightarrow> (load_reason, load_state) result" where
  "load_proposal s c =
     (let p = ls_prefix s; n = pc_decision_no c in
      if has_incomplete_proposal p \<or> n \<noteq> ls_next s then Inl Unexpected_Proposal
      else (case decode_proposal (pc_payload c) of
          None \<Rightarrow> Inl Invalid_Proposal_Payload
        | Some es \<Rightarrow>
            if es = [] then Inl Invalid_Proposal_Payload
            else if \<not> ordinals_ok n es then Inl Invalid_Action_Ordinal
            else if \<not> matches_result c (new_proposal_checkpoint n
                        (map (\<lambda>e. \<lparr>ap_name = pe_name e, ap_input = pe_input e\<rparr>) es)) then Inl Proposal_Mismatch
            else
              let accepted = \<lparr>apr_decision_no = n,
                    apr_actions = map (\<lambda>e. \<lparr>aa_action_id = pe_action_id e, aa_index = pe_index e,
                      aa_name = pe_name e, aa_input = pe_input e, aa_result = None\<rparr>) es\<rparr> in
              Inr (s\<lparr>ls_prefix := p\<lparr>cx_proposals := cx_proposals p @ [accepted],
                       cx_decisions := cx_decisions p + 1,
                       cx_actions := cx_actions p + int (length (apr_actions accepted))\<rparr>,
                     ls_next := ls_next s + 1\<rparr>)))"

definition set_result :: "accepted_proposal \<Rightarrow> nat \<Rightarrow> action_result \<Rightarrow> accepted_proposal" where
  "set_result p i r = p\<lparr>apr_actions := (apr_actions p)[i := (apr_actions p ! i)\<lparr>aa_result := Some r\<rparr>]\<rparr>"

definition load_result :: "load_state \<Rightarrow> pending_checkpoint \<Rightarrow> (load_reason, load_state) result" where
  "load_result s c =
     (let p = ls_prefix s in
      if cx_proposals p = [] then Inl No_Proposal
      else
        let proposal = last (cx_proposals p);
            index = (case pc_action_index c of None \<Rightarrow> -1 | Some i \<Rightarrow> i);
            k = nat index in
        if pc_decision_no c \<noteq> apr_decision_no proposal \<or> index < 0 \<or> index \<ge> int (length (apr_actions proposal))
           \<or> aa_result (apr_actions proposal ! k) \<noteq> None then Inl Result_Out_Of_Order
        else (case decode_action_result (pc_payload c) of
            None \<Rightarrow> Inl Invalid_Result_Payload
          | Some (action_id, r) \<Rightarrow>
              if action_id \<noteq> aa_action_id (apr_actions proposal ! k)
                 \<or> (pc_payload_version c \<noteq> 1 \<and> pc_payload_version c \<noteq> 2)
                 \<or> (pc_payload_version c = 1 \<and> ar_error r \<noteq> None)
                 \<or> (pc_payload_version c = 2 \<and> (ar_error r = None \<or> ar_error_code r \<noteq> []))
              then Inl Invalid_Result_Payload
              else if \<not> matches_result c (new_action_result_checkpoint (apr_decision_no proposal) index
                          (aa_action_id (apr_actions proposal ! k)) r) then Inl Result_Mismatch
              else Inr (s\<lparr>ls_prefix := p\<lparr>cx_proposals := butlast (cx_proposals p) @ [set_result proposal k r]\<rparr>\<rparr>)))"

definition load_final :: "load_state \<Rightarrow> pending_checkpoint \<Rightarrow> (load_reason, load_state) result" where
  "load_final s c =
     (let p = ls_prefix s; n = pc_decision_no c in
      if has_incomplete_proposal p \<or> n \<noteq> ls_next s then Inl Unexpected_Final
      else (case decode_final (pc_payload c) of
          None \<Rightarrow> Inl Invalid_Final_Payload
        | Some text \<Rightarrow>
            if \<not> matches_result c (new_final_draft_checkpoint n text) then Inl Final_Mismatch
            else Inr (s\<lparr>ls_prefix := p\<lparr>cx_final := Some text, cx_decisions := cx_decisions p + 1\<rparr>,
                        ls_next := ls_next s + 1, ls_final := True\<rparr>)))"

definition load_steering :: "load_state \<Rightarrow> pending_checkpoint \<Rightarrow> (load_reason, load_state) result" where
  "load_steering s c =
     (let p = ls_prefix s; n = pc_decision_no c in
      if has_incomplete_proposal p \<or> n \<noteq> ls_next s then Inl Unexpected_Steering
      else (case decode_steering (pc_payload c) of
          None \<Rightarrow> Inl Invalid_Steering_Payload
        | Some (m, content) \<Rightarrow>
            if \<not> matches_result c (new_steering_checkpoint n m content) then Inl Steering_Mismatch
            else if list_ex (\<lambda>d. as_message_id d = m) (cx_steering p) then Inl Steering_Delivered_Twice
            else Inr (s\<lparr>ls_prefix := p\<lparr>cx_steering := cx_steering p
                        @ [\<lparr>as_decision_no = n, as_message_id = m, as_content = content\<rparr>]\<rparr>\<rparr>)))"

definition load_kind :: "load_state \<Rightarrow> pending_checkpoint \<Rightarrow> (load_reason, load_state) result" where
  "load_kind s c =
     (case pc_kind c of
        Action_Proposal \<Rightarrow> load_proposal s c
      | Action_Result \<Rightarrow> load_result s c
      | Final_Draft \<Rightarrow> load_final s c
      | Steering_Message \<Rightarrow> load_steering s c
      | Other_Kind _ \<Rightarrow> Inl Unknown_Kind)"

definition load_step :: "load_state \<Rightarrow> checkpoint \<Rightarrow> (load_reason, load_state) result" where
  "load_step s c =
     (if cp_sequence_no c \<noteq> ls_position s + 1 then Inl Sequence_Gap
      else if ls_final s then Inl Follows_Final_Draft
      else bind_result (load_kind s (cp_pending c)) (\<lambda>s'. Inr (s'\<lparr>ls_position := ls_position s + 1\<rparr>)))"

definition load_run :: "checkpoint list \<Rightarrow> (load_reason, load_state) result" where
  "load_run cs = fold_result load_step load_start cs"

definition load_checkpoint_prefix :: "checkpoint list \<Rightarrow> (load_reason, checkpoint_prefix) result" where
  "load_checkpoint_prefix cs = bind_result (load_run cs) (\<lambda>s. Inr (ls_prefix s))"

section \<open>Well-formed prefixes\<close>

definition action_complete :: "accepted_action \<Rightarrow> bool" where
  "action_complete a \<longleftrightarrow> aa_result a \<noteq> None"

definition proposal_complete :: "accepted_proposal \<Rightarrow> bool" where
  "proposal_complete p \<longleftrightarrow> list_all action_complete (apr_actions p)"

definition action_wf :: "int \<Rightarrow> nat \<Rightarrow> accepted_action \<Rightarrow> bool" where
  "action_wf n i a \<longleftrightarrow>
     aa_index a = int i \<and> aa_action_id a = action_key n (int i) \<and> action_name_ok (aa_name a)
     \<and> is_object (aa_input a)
     \<and> (case aa_result a of None \<Rightarrow> True | Some r \<Rightarrow> action_result_ok r)"

definition proposal_wf :: "accepted_proposal \<Rightarrow> bool" where
  "proposal_wf p \<longleftrightarrow>
     apr_actions p \<noteq> [] \<and> 1 \<le> apr_decision_no p
     \<and> (\<forall>i < length (apr_actions p). action_wf (apr_decision_no p) i (apr_actions p ! i))"

definition steering_wf :: "int \<Rightarrow> accepted_steering \<Rightarrow> bool" where
  "steering_wf n m \<longleftrightarrow>
     1 \<le> as_decision_no m \<and> as_decision_no m \<le> n \<and> steering_id_ok (as_message_id m)
     \<and> \<not> blank (as_content m) \<and> length (as_content m) \<le> max_steering_bytes"

definition total_actions :: "accepted_proposal list \<Rightarrow> nat" where
  "total_actions ps = sum_list (map (\<lambda>p. length (apr_actions p)) ps)"

definition prefix_wf :: "checkpoint_prefix \<Rightarrow> bool" where
  "prefix_wf p \<longleftrightarrow>
     map apr_decision_no (cx_proposals p) = map int [1..<Suc (length (cx_proposals p))]
     \<and> list_all proposal_wf (cx_proposals p)
     \<and> list_all proposal_complete (butlast (cx_proposals p))
     \<and> cx_decisions p = int (length (cx_proposals p)) + (if cx_final p = None then 0 else 1)
     \<and> cx_actions p = int (total_actions (cx_proposals p))
     \<and> distinct (map as_message_id (cx_steering p))
     \<and> list_all (steering_wf (int (length (cx_proposals p)) + 1)) (cx_steering p)
     \<and> (case cx_final p of None \<Rightarrow> True
        | Some t \<Rightarrow> list_all proposal_complete (cx_proposals p) \<and> final_draft_ok t \<and> length t \<le> max_final_draft_bytes)"

definition load_inv :: "load_state \<Rightarrow> bool" where
  "load_inv s \<longleftrightarrow>
     prefix_wf (ls_prefix s) \<and> ls_next s = cx_decisions (ls_prefix s) + 1
     \<and> ls_final s = (cx_final (ls_prefix s) \<noteq> None)"

lemma first_missing_result_nonneg: "0 \<le> first_missing_result p \<longleftrightarrow> \<not> proposal_complete p"
  by (auto simp: first_missing_result_def proposal_complete_def action_complete_def list_all_length
      find_None_iff find_Some_iff split: option.splits)

lemma has_incomplete_proposal_iff:
  "has_incomplete_proposal p \<longleftrightarrow> cx_proposals p \<noteq> [] \<and> \<not> proposal_complete (last (cx_proposals p))"
  by (simp add: has_incomplete_proposal_def first_missing_result_nonneg)

lemma list_all_butlast_last:
  "xs \<noteq> [] \<Longrightarrow> list_all P (butlast xs) \<Longrightarrow> P (last xs) \<Longrightarrow> list_all P xs"
  by (induction xs) (auto split: if_splits)

lemma all_complete:
  "prefix_wf p \<Longrightarrow> \<not> has_incomplete_proposal p \<Longrightarrow> list_all proposal_complete (cx_proposals p)"
  by (cases "cx_proposals p = []") (auto simp: prefix_wf_def has_incomplete_proposal_iff intro: list_all_butlast_last)

lemma total_actions_snoc [simp]: "total_actions (ps @ [p]) = total_actions ps + length (apr_actions p)"
  by (simp add: total_actions_def)

lemma proposal_actions_json_ok:
  "proposal_actions_json n i as = Inr js \<Longrightarrow>
   list_all (\<lambda>a. action_name_ok (ap_name a) \<and> is_object (ap_input a)) as"
proof (induction as arbitrary: i js)
  case (Cons a as)
  then show ?case
    by (auto simp: result_simps canonical_json_object_Inr split: if_splits)
qed simp

lemma matches_result_Inr:
  "matches_result c r \<Longrightarrow> \<exists>e. r = Inr e \<and> checkpoint_matches c e"
  by (cases r) (simp_all add: matches_result_def)

lemma load_proposal_inv:
  assumes inv: "load_inv s" and nf: "\<not> ls_final s" and run: "load_proposal s c = Inr s'"
  shows "load_inv s'"
proof -
  let ?p = "ls_prefix s" and ?n = "pc_decision_no c"
  let ?acc = "\<lambda>es. \<lparr>apr_decision_no = ?n,
                    apr_actions = map (\<lambda>e. \<lparr>aa_action_id = pe_action_id e, aa_index = pe_index e,
                      aa_name = pe_name e, aa_input = pe_input e, aa_result = None\<rparr>) es\<rparr>"
  from run obtain es where inc: "\<not> has_incomplete_proposal ?p" and n: "?n = ls_next s"
    and es: "es \<noteq> []" and ord: "ordinals_ok ?n es"
    and m: "matches_result c (new_proposal_checkpoint ?n
                        (map (\<lambda>e. \<lparr>ap_name = pe_name e, ap_input = pe_input e\<rparr>) es))"
    and s': "s' = s\<lparr>ls_prefix := ?p\<lparr>cx_proposals := cx_proposals ?p @ [?acc es],
                       cx_decisions := cx_decisions ?p + 1,
                       cx_actions := cx_actions ?p + int (length es)\<rparr>,
                     ls_next := ls_next s + 1\<rparr>"
    by (auto simp: load_proposal_def Let_def split: if_splits option.splits)
  from m obtain js where n1: "1 \<le> ?n"
    and "proposal_actions_json ?n 0 (map (\<lambda>e. \<lparr>ap_name = pe_name e, ap_input = pe_input e\<rparr>) es) = Inr js"
    by (auto dest!: matches_result_Inr simp: new_proposal_checkpoint_def result_simps split: if_splits)
  then have ok: "list_all (\<lambda>e. action_name_ok (pe_name e) \<and> is_object (pe_input e)) es"
    by (auto dest!: proposal_actions_json_ok simp: list.pred_map comp_def)
  have wfp: "proposal_wf (?acc es)"
    using es n1 ord ok by (auto simp: proposal_wf_def action_wf_def ordinals_ok_def list_all_length)
  from inv nf have fin: "cx_final ?p = None" and wf: "prefix_wf ?p" and nx: "ls_next s = cx_decisions ?p + 1"
    by (auto simp: load_inv_def)
  from wf fin nx n have num: "?n = int (length (cx_proposals ?p)) + 1" by (simp add: prefix_wf_def)
  have "list_all (steering_wf (2 + int (length (cx_proposals ?p)))) (cx_steering ?p)"
    using wf by (auto simp: prefix_wf_def list_all_iff steering_wf_def)
  then have "prefix_wf (ls_prefix s')"
    using wf wfp fin num all_complete [OF wf inc] by (simp add: s' prefix_wf_def)
  then show ?thesis using fin nx nf by (simp add: load_inv_def s')
qed

lemma complete_set_result: "apr_decision_no (set_result p i r) = apr_decision_no p"
  "length (apr_actions (set_result p i r)) = length (apr_actions p)"
  by (simp_all add: set_result_def)

lemma set_result_wf:
  "proposal_wf p \<Longrightarrow> action_result_ok r \<Longrightarrow> i < length (apr_actions p) \<Longrightarrow> proposal_wf (set_result p i r)"
  by (auto simp: proposal_wf_def set_result_def action_wf_def nth_list_update)

lemma total_actions_last:
  "ps \<noteq> [] \<Longrightarrow> length (apr_actions q) = length (apr_actions (last ps)) \<Longrightarrow>
   total_actions (butlast ps @ [q]) = total_actions ps"
  by (metis append_butlast_last_id total_actions_snoc)

lemma prefix_wf_replace:
  assumes wf: "prefix_wf p" and fin: "cx_final p = None"
    and nums: "map apr_decision_no ps = map apr_decision_no (cx_proposals p)"
    and ok: "list_all proposal_wf ps" "list_all proposal_complete (butlast ps)"
    and tot: "total_actions ps = total_actions (cx_proposals p)"
  shows "prefix_wf (p\<lparr>cx_proposals := ps\<rparr>)"
proof -
  from nums have "length ps = length (cx_proposals p)" by (rule map_eq_imp_length_eq)
  with assms show ?thesis by (simp add: prefix_wf_def del: upt_Suc)
qed

lemma load_result_inv:
  assumes inv: "load_inv s" and nf: "\<not> ls_final s" and run: "load_result s c = Inr s'"
  shows "load_inv s'"
proof -
  let ?p = "ls_prefix s" and ?l = "last (cx_proposals (ls_prefix s))"
  from run obtain i r aid where ne: "cx_proposals ?p \<noteq> []" and i: "0 \<le> i" "i < int (length (apr_actions ?l))"
    and m: "matches_result c (new_action_result_checkpoint (apr_decision_no ?l) i aid r)"
    and s': "s' = s\<lparr>ls_prefix := ?p\<lparr>cx_proposals := butlast (cx_proposals ?p) @ [set_result ?l (nat i) r]\<rparr>\<rparr>"
    by (auto simp: load_result_def Let_def not_less split: if_splits option.splits)
  from m have rok: "action_result_ok r"
    by (auto dest!: matches_result_Inr simp: new_action_result_checkpoint_def split: if_splits)
  from inv nf have fin: "cx_final ?p = None" and wf: "prefix_wf ?p" and nx: "ls_next s = cx_decisions ?p + 1"
    by (auto simp: load_inv_def)
  let ?ps = "cx_proposals ?p" and ?q = "set_result ?l (nat i) r"
  have split: "?ps = butlast ?ps @ [?l]" using ne by simp
  have wfl: "proposal_wf ?l" and wfb: "list_all proposal_wf (butlast ?ps)"
    using wf arg_cong [OF split, of "list_all proposal_wf"] by (simp_all add: prefix_wf_def)
  have q: "proposal_wf ?q" using wfl rok i by (intro set_result_wf) auto
  have nums: "map apr_decision_no (butlast ?ps @ [?q]) = map apr_decision_no ?ps"
    using arg_cong [OF split, of "map apr_decision_no"] by (simp add: complete_set_result)
  have tot: "total_actions (butlast ?ps @ [?q]) = total_actions ?ps"
    using ne by (intro total_actions_last) (simp_all add: complete_set_result)
  have "list_all proposal_complete (butlast (butlast ?ps @ [?q]))"
    using wf by (simp add: prefix_wf_def)
  with wf fin nums wfb q tot have "prefix_wf (ls_prefix s')"
    by (auto simp: s' intro!: prefix_wf_replace)
  then show ?thesis using fin nx nf by (simp add: load_inv_def s')
qed

lemma load_final_inv:
  assumes inv: "load_inv s" and nf: "\<not> ls_final s" and run: "load_final s c = Inr s'"
  shows "load_inv s'"
proof -
  let ?p = "ls_prefix s"
  from run obtain t where inc: "\<not> has_incomplete_proposal ?p"
    and m: "matches_result c (new_final_draft_checkpoint (pc_decision_no c) t)"
    and s': "s' = s\<lparr>ls_prefix := ?p\<lparr>cx_final := Some t, cx_decisions := cx_decisions ?p + 1\<rparr>,
                        ls_next := ls_next s + 1, ls_final := True\<rparr>"
    by (auto simp: load_final_def Let_def split: if_splits option.splits)
  from m have t: "final_draft_ok t" "length t \<le> max_final_draft_bytes"
    by (auto dest!: matches_result_Inr simp: new_final_draft_checkpoint_def split: if_splits)
  from inv nf have fin: "cx_final ?p = None" and wf: "prefix_wf ?p" and nx: "ls_next s = cx_decisions ?p + 1"
    by (auto simp: load_inv_def)
  have "prefix_wf (ls_prefix s')"
    using wf t fin all_complete [OF wf inc] by (simp add: s' prefix_wf_def)
  then show ?thesis using nx by (simp add: load_inv_def s')
qed

lemma load_steering_inv:
  assumes inv: "load_inv s" and nf: "\<not> ls_final s" and run: "load_steering s c = Inr s'"
  shows "load_inv s'"
proof -
  let ?p = "ls_prefix s" and ?n = "pc_decision_no c"
  from run obtain m t where n: "?n = ls_next s"
    and mt: "matches_result c (new_steering_checkpoint ?n m t)"
    and dup: "\<not> list_ex (\<lambda>d. as_message_id d = m) (cx_steering ?p)"
    and s': "s' = s\<lparr>ls_prefix := ?p\<lparr>cx_steering := cx_steering ?p
                        @ [\<lparr>as_decision_no = ?n, as_message_id = m, as_content = t\<rparr>]\<rparr>\<rparr>"
    by (auto simp: load_steering_def Let_def split: if_splits option.splits)
  from mt have t: "1 \<le> ?n" "steering_id_ok m" "\<not> blank t" "length t \<le> max_steering_bytes"
    by (auto dest!: matches_result_Inr simp: new_steering_checkpoint_def split: if_splits)
  from inv nf have fin: "cx_final ?p = None" and wf: "prefix_wf ?p" and nx: "ls_next s = cx_decisions ?p + 1"
    by (auto simp: load_inv_def)
  from dup have "m \<notin> as_message_id ` set (cx_steering ?p)" by (auto simp: list_ex_iff)
  moreover have "steering_wf (int (length (cx_proposals ?p)) + 1) \<lparr>as_decision_no = ?n, as_message_id = m, as_content = t\<rparr>"
    using wf fin nx n t by (simp add: steering_wf_def prefix_wf_def)
  ultimately have "prefix_wf (ls_prefix s')"
    using wf fin by (simp add: s' prefix_wf_def)
  then show ?thesis using fin nx nf by (simp add: load_inv_def s')
qed

lemma load_step_inv:
  assumes "load_inv s" and "load_step s c = Inr s'"
  shows "load_inv s'"
proof -
  from assms(2) obtain t where nf: "\<not> ls_final s" and t: "load_kind s (cp_pending c) = Inr t"
    and s': "s' = t\<lparr>ls_position := ls_position s + 1\<rparr>"
    by (auto simp: load_step_def result_simps split: if_splits)
  have "load_inv t"
    using t by (auto simp: load_kind_def split: checkpoint_kind.splits
        intro: load_proposal_inv [OF assms(1) nf] load_result_inv [OF assms(1) nf]
          load_final_inv [OF assms(1) nf] load_steering_inv [OF assms(1) nf])
  then show ?thesis by (simp add: s' load_inv_def)
qed

lemma load_start_inv: "load_inv load_start"
  by (simp add: load_inv_def load_start_def empty_prefix_def prefix_wf_def total_actions_def)

lemma load_run_inv: "load_run cs = Inr s \<Longrightarrow> load_inv s"
  by (rule fold_result_invariant [of load_step load_start cs s load_inv])
    (auto simp: load_run_def load_start_inv intro: load_step_inv)

lemma load_kind_position: "load_kind s c = Inr s' \<Longrightarrow> ls_position s' = ls_position s"
  by (auto simp: load_kind_def load_proposal_def load_result_def load_final_def load_steering_def Let_def
      split: checkpoint_kind.splits if_splits option.splits)

lemma load_run_position: "load_run cs = Inr s \<Longrightarrow> ls_position s = int (length cs)"
proof (induction cs arbitrary: s rule: rev_induct)
  case Nil
  then show ?case by (auto simp: load_run_def load_start_def)
next
  case (snoc c cs)
  then show ?case
    by (fastforce simp: load_run_def fold_result_snoc load_step_def result_simps split: if_splits)
qed

section \<open>Round trip: what the constructors write loads again\<close>

lemma load_run_snoc: "load_run (cs @ [c]) = bind_result (load_run cs) (\<lambda>s. load_step s c)"
  by (simp add: load_run_def fold_result_snoc)

lemma action_key_ascii [simp]: "ascii (action_key n i)"
  by (simp add: action_key_def)

lemma action_name_ascii: "action_name_ok s \<Longrightarrow> ascii s"
  unfolding action_name_ok_def
  by (erule head_then_ascii) (auto simp: lower_def decimal_def in_range_def byte_literals)

lemma action_code_ascii: "action_code_ok s \<Longrightarrow> ascii s"
  unfolding action_code_ok_def
  by (erule head_then_ascii) (auto simp: lower_def decimal_def in_range_def byte_literals)

lemma steering_id_ascii: "steering_id_ok s \<Longrightarrow> ascii s"
  unfolding steering_id_ok_def Let_def
  by (erule head_then_ascii) (auto simp: lower_def upper_def decimal_def in_range_def byte_literals)

lemma entry_members:
  "member_for ''action_id'' [(''action_id'', a), (''index'', b), (''name'', c), (''input'', d)] = Some a"
  "member_for ''index'' [(''action_id'', a), (''index'', b), (''name'', c), (''input'', d)] = Some b"
  "member_for ''name'' [(''action_id'', a), (''index'', b), (''name'', c), (''input'', d)] = Some c"
  "member_for ''input'' [(''action_id'', a), (''index'', b), (''name'', c), (''input'', d)] = Some d"
  by (simp_all add: member_eval)

fun entries_of :: "int \<Rightarrow> nat \<Rightarrow> action_proposal list \<Rightarrow> proposal_entry list" where
  "entries_of n i [] = []"
| "entries_of n i (a # as) =
     \<lparr>pe_action_id = action_key n (int i), pe_index = int i, pe_name = ap_name a,
      pe_input = (case canonical_json_object (ap_input a) of Inr j \<Rightarrow> Raw j | Inl _ \<Rightarrow> Raw_Empty)\<rparr> # entries_of n (Suc i) as"

lemma decode_entries:
  "proposal_actions_json n i as = Inr js \<Longrightarrow> all_some (map decode_proposal_entry js) = Some (entries_of n i as)"
proof (induction as arbitrary: i js)
  case (Cons a as)
  then obtain input js' where nm: "action_name_ok (ap_name a)" and input: "canonical_json_object (ap_input a) = Inr input"
    and rest: "proposal_actions_json n (Suc i) as = Inr js'"
    and js: "js = proposal_action_json n i (ap_name a) input # js'"
    by (auto simp: result_simps split: if_splits)
  have "decode_proposal_entry (proposal_action_json n i (ap_name a) input) =
    Some \<lparr>pe_action_id = action_key n (int i), pe_index = int i, pe_name = ap_name a, pe_input = Raw input\<rparr>"
    by (simp add: proposal_action_json_def get_string_def get_int_def get_raw_def entry_members
        marshal_string_def marshal_int_def to_valid_ascii action_name_ascii nm)
  with Cons.IH [OF rest] show ?case by (simp add: js input)
qed simp


definition proposal_of :: "int \<Rightarrow> action_proposal list \<Rightarrow> accepted_proposal" where
  "proposal_of n actions =
     \<lparr>apr_decision_no = n,
      apr_actions = map (\<lambda>e. \<lparr>aa_action_id = pe_action_id e, aa_index = pe_index e,
                      aa_name = pe_name e, aa_input = pe_input e, aa_result = None\<rparr>) (entries_of n 0 actions)\<rparr>"

lemma length_entries_of [simp]: "length (entries_of n i as) = length as"
  by (induction as arbitrary: i) simp_all

lemma entries_ordinals: "k < length as \<Longrightarrow> pe_index (entries_of n i as ! k) = int (i + k)
   \<and> pe_action_id (entries_of n i as ! k) = action_key n (int (i + k))"
proof (induction as arbitrary: i k)
  case (Cons a as)
  then show ?case by (cases k) (auto simp: algebra_simps)
qed simp

lemma entries_reencode:
  "proposal_actions_json n i as = Inr js \<Longrightarrow>
   proposal_actions_json n i (map (\<lambda>e. \<lparr>ap_name = pe_name e, ap_input = pe_input e\<rparr>) (entries_of n i as)) = Inr js"
proof (induction as arbitrary: i js)
  case (Cons a as)
  then obtain input js' where "action_name_ok (ap_name a)" and input: "canonical_json_object (ap_input a) = Inr input"
    and "proposal_actions_json n (Suc i) as = Inr js'"
    and "js = proposal_action_json n i (ap_name a) input # js'"
    by (auto simp: result_simps split: if_splits)
  with Cons.IH canonical_json_object_canon [OF input] show ?case by simp
qed simp

lemma checkpoint_matches_refl: "pc_payload c = Raw j \<Longrightarrow> checkpoint_matches c c"
  by (simp add: checkpoint_matches_def)

lemma load_new_proposal:
  assumes new: "new_proposal_checkpoint (ls_next s) actions = Inr c"
    and inc: "\<not> has_incomplete_proposal (ls_prefix s)"
  shows "load_kind s c = Inr (s\<lparr>ls_prefix := (ls_prefix s)\<lparr>
             cx_proposals := cx_proposals (ls_prefix s) @ [proposal_of (ls_next s) actions],
             cx_decisions := cx_decisions (ls_prefix s) + 1,
             cx_actions := cx_actions (ls_prefix s) + int (length actions)\<rparr>,
           ls_next := ls_next s + 1\<rparr>)"
proof -
  let ?n = "ls_next s"
  from new obtain js where n: "1 \<le> ?n" "actions \<noteq> []" and js: "proposal_actions_json ?n 0 actions = Inr js"
    and c: "c = \<lparr>pc_identity_key = decision_key ?n, pc_kind = Action_Proposal, pc_decision_no = ?n,
             pc_action_index = None, pc_action_id = [], pc_payload_version = 1,
             pc_payload = Raw (JObj [(''actions'', JArr js)]), pc_payload_sha256 = hash_payload (JObj [(''actions'', JArr js)])\<rparr>"
    by (auto simp: new_proposal_checkpoint_def result_simps Let_def split: if_splits)
  have ne: "entries_of ?n 0 actions \<noteq> []" using n(2) by (metis length_0_conv length_entries_of)
  have dec: "decode_proposal (pc_payload c) = Some (entries_of ?n 0 actions)"
    using decode_entries [OF js] by (simp add: c member_for_def)
  have ord: "ordinals_ok ?n (entries_of ?n 0 actions)"
    by (simp add: ordinals_ok_def list_all_length entries_ordinals)
  have re: "new_proposal_checkpoint ?n (map (\<lambda>e. \<lparr>ap_name = pe_name e, ap_input = pe_input e\<rparr>) (entries_of ?n 0 actions)) = Inr c"
    using n ne entries_reencode [OF js] by (simp add: new_proposal_checkpoint_def c Let_def)
  have k: "pc_kind c = Action_Proposal" "pc_decision_no c = ?n" by (simp_all add: c)
  show ?thesis
    using inc ne ord dec re checkpoint_matches_refl [of c]
    by (simp add: load_kind_def load_proposal_def k proposal_of_def matches_result_def Let_def c)
qed

definition error_valid :: "action_error \<Rightarrow> bool" where
  "error_valid e \<longleftrightarrow> utf8_valid (ae_message e) \<and> utf8_valid (ae_suggestion e)"

lemma decode_error_json:
  assumes "action_error_ok e" and "error_valid e"
  shows "decode_action_error (action_error_json e) = Some (Some e)"
proof -
  from assms have "ascii (ae_kind e)" "ascii (ae_code e)" by (auto simp: action_error_ok_def action_code_ascii)
  with assms show ?thesis
    by (cases "ae_suggestion e = []")
      (simp_all add: action_error_json_def get_string_def get_bool_def member_eval marshal_string_def
        opt_member_def to_valid_ascii error_valid_def utf8_valid_to_valid_id)
qed

definition stored_result :: "action_result \<Rightarrow> action_result" where
  "stored_result r = (if ar_status r = action_succeeded then
      r\<lparr>ar_output := (case canonical_json_object (ar_output r) of Inr j \<Rightarrow> Raw j | Inl _ \<Rightarrow> Raw_Empty)\<rparr> else r)"

lemma action_code_ok_nonempty: "action_code_ok c \<Longrightarrow> c \<noteq> []"
  by (auto simp: action_code_ok_def dest: head_then_nonempty)

lemma decode_stored_result:
  assumes ok: "action_result_ok r" and e: "\<And>e. ar_error r = Some e \<Longrightarrow> error_valid e"
    and aid: "ascii action_id"
    and out: "(if ar_status r = action_succeeded
              then bind_result (canonical_json_object (ar_output r)) (\<lambda>j. Inr (Some j))
              else Inr None) = (Inr output :: (checkpoint_error, json option) result)"
  shows "decode_action_result (Raw (action_result_json action_id r output)) = Some (action_id, stored_result r)"
proof (cases "ar_status r = action_succeeded")
  case True
  with ok out obtain j where "canonical_json_object (ar_output r) = Inr j" "output = Some j"
    and "ar_error_code r = []" "ar_error r = None"
    by (auto simp: action_result_ok_def result_simps)
  then show ?thesis using True aid
    by (cases r) (simp add: action_result_json_def get_string_def get_raw_def member_eval marshal_string_def
        opt_member_def to_valid_ascii action_succeeded_def stored_result_def)
next
  case False
  with ok out have st: "ar_status r = action_domain_error" "output = None" "ar_output r = Raw_Empty"
    by (auto simp: action_result_ok_def Let_def split: if_splits)
  show ?thesis
  proof (cases "ar_error r")
    case None
    with ok st have "action_code_ok (ar_error_code r)" by (auto simp: action_result_ok_def action_domain_error_def action_succeeded_def)
    with None st aid show ?thesis
      by (cases r) (simp add: action_result_json_def get_string_def get_raw_def member_eval marshal_string_def
        opt_member_def to_valid_ascii action_code_ascii action_code_ok_nonempty
        action_domain_error_def action_succeeded_def stored_result_def)
  next
    case (Some err)
    with ok st have code: "ar_error_code r = []" and err: "action_error_ok err"
      by (auto simp: action_result_ok_def action_domain_error_def action_succeeded_def)
    have d: "decode_action_error (action_error_json err) = Some (Some err)"
      using err e [OF Some] by (rule decode_error_json)
    show ?thesis using Some st code d aid
      by (cases r) (simp add: action_result_json_def get_string_def get_raw_def member_eval marshal_string_def
        opt_member_def to_valid_ascii 
        action_domain_error_def action_succeeded_def stored_result_def)
  qed
qed

lemma action_result_status_ascii:
  "action_result_ok r \<Longrightarrow> ar_status r = action_succeeded \<or> ar_status r = action_domain_error"
  by (auto simp: action_result_ok_def split: if_splits)

lemma stored_result_simps [simp]:
  "ar_status (stored_result r) = ar_status r" "ar_error (stored_result r) = ar_error r"
  "ar_error_code (stored_result r) = ar_error_code r"
  by (simp_all add: stored_result_def)

lemma stored_result_ok: "action_result_ok r \<Longrightarrow> action_result_ok (stored_result r)"
proof (cases "ar_status r = action_succeeded")
  case True
  assume ok: "action_result_ok r"
  with True obtain ms where "ar_output r = Raw (JObj ms)"
    by (auto simp: action_result_ok_def elim!: is_object.elims)
  with True ok show ?thesis by (simp add: stored_result_def action_result_ok_def)
qed (simp add: stored_result_def)

lemma canonical_stored:
  "ar_status r = action_succeeded \<Longrightarrow> canonical_json_object (ar_output r) = Inr j \<Longrightarrow>
   canonical_json_object (ar_output (stored_result r)) = Inr j"
  by (simp add: stored_result_def canonical_json_object_canon)

lemma action_result_json_stored: "action_result_json a (stored_result r) = action_result_json a r"
  by (rule ext) (simp add: action_result_json_def)

lemma new_action_result_stored:
  assumes "new_action_result_checkpoint n i a r = Inr c"
  shows "new_action_result_checkpoint n i a (stored_result r) = Inr c"
  using assms canonical_stored stored_result_ok
  by (fastforce simp: new_action_result_checkpoint_def result_simps action_result_json_stored Let_def split: if_splits)

lemma load_new_result:
  assumes new: "new_action_result_checkpoint (apr_decision_no (last (cx_proposals (ls_prefix s)))) (int k) a r = Inr c"
    and ne: "cx_proposals (ls_prefix s) \<noteq> []"
    and k: "k < length (apr_actions (last (cx_proposals (ls_prefix s))))"
    and a: "a = aa_action_id (apr_actions (last (cx_proposals (ls_prefix s))) ! k)"
    and free: "aa_result (apr_actions (last (cx_proposals (ls_prefix s))) ! k) = None"
    and valid: "\<And>e. ar_error r = Some e \<Longrightarrow> error_valid e"
  shows "load_kind s c = Inr (s\<lparr>ls_prefix := (ls_prefix s)\<lparr>
            cx_proposals := butlast (cx_proposals (ls_prefix s))
              @ [set_result (last (cx_proposals (ls_prefix s))) k (stored_result r)]\<rparr>\<rparr>)"
proof -
  let ?n = "apr_decision_no (last (cx_proposals (ls_prefix s)))"
  from new obtain res where n: "1 \<le> ?n" and id: "a = action_key ?n (int k)" and ok: "action_result_ok r"
    and out: "(if ar_status r = action_succeeded
              then bind_result (canonical_json_object (ar_output r)) (\<lambda>j. Inr (Some j))
              else Inr None) = (Inr res :: (checkpoint_error, json option) result)"
    and c: "c = \<lparr>pc_identity_key = a, pc_kind = Action_Result, pc_decision_no = ?n,
                    pc_action_index = Some (int k), pc_action_id = a,
                    pc_payload_version = (if ar_error r \<noteq> None then 2 else 1),
                    pc_payload = Raw (action_result_json a r res),
                    pc_payload_sha256 = hash_payload (action_result_json a r res)\<rparr>"
    by (auto simp: new_action_result_checkpoint_def result_simps Let_def not_less simp del: not_None_eq split: if_split_asm)
  have dec: "decode_action_result (pc_payload c) = Some (a, stored_result r)"
    using decode_stored_result [OF ok valid _ out, of a] id by (simp add: c)
  have re: "new_action_result_checkpoint ?n (int k) a (stored_result r) = Inr c"
    using new by (rule new_action_result_stored)
  have code: "ar_error r \<noteq> None \<Longrightarrow> ar_error_code r = []"
    using ok by (auto simp: action_result_ok_def Let_def split: if_splits option.splits)
  show ?thesis
    using ne k free dec re code a checkpoint_matches_refl [of c]
    by (auto simp: load_kind_def load_result_def c Let_def matches_result_def)
qed

lemma load_new_final:
  assumes new: "new_final_draft_checkpoint (ls_next s) text = Inr c"
    and inc: "\<not> has_incomplete_proposal (ls_prefix s)" and valid: "utf8_valid text"
  shows "load_kind s c = Inr (s\<lparr>ls_prefix := (ls_prefix s)\<lparr>cx_final := Some text,
            cx_decisions := cx_decisions (ls_prefix s) + 1\<rparr>, ls_next := ls_next s + 1, ls_final := True\<rparr>)"
proof -
  from new have c: "pc_kind c = Final_Draft" "pc_decision_no c = ls_next s"
    "pc_payload c = Raw (JObj [(''text'', marshal_string text)])"
    by (auto simp: new_final_draft_checkpoint_def Let_def split: if_splits)
  have "decode_final (pc_payload c) = Some text"
    using valid by (simp add: c get_string_def member_for_def marshal_string_def utf8_valid_to_valid_id)
  then show ?thesis
    using inc new checkpoint_matches_refl [of c] by (simp add: load_kind_def load_final_def c Let_def matches_result_def)
qed

lemma load_new_steering:
  assumes new: "new_steering_checkpoint (ls_next s) m text = Inr c"
    and inc: "\<not> has_incomplete_proposal (ls_prefix s)" and valid: "utf8_valid text"
    and fresh: "m \<notin> as_message_id ` set (cx_steering (ls_prefix s))"
  shows "load_kind s c = Inr (s\<lparr>ls_prefix := (ls_prefix s)\<lparr>cx_steering := cx_steering (ls_prefix s)
            @ [\<lparr>as_decision_no = ls_next s, as_message_id = m, as_content = text\<rparr>]\<rparr>\<rparr>)"
proof -
  from new have c: "pc_kind c = Steering_Message" "pc_decision_no c = ls_next s"
    "pc_payload c = Raw (JObj [(''message_id'', marshal_string m), (''content'', marshal_string text)])"
    and m: "steering_id_ok m"
    by (auto simp: new_steering_checkpoint_def Let_def split: if_splits)
  have "decode_steering (pc_payload c) = Some (m, text)"
    using valid steering_id_ascii [OF m]
    by (simp add: c get_string_def member_eval marshal_string_def utf8_valid_to_valid_id to_valid_ascii)
  moreover have "\<not> list_ex (\<lambda>d. as_message_id d = m) (cx_steering (ls_prefix s))"
    using fresh by (auto simp: list_ex_iff)
  ultimately show ?thesis
    using inc new checkpoint_matches_refl [of c] by (simp add: load_kind_def load_steering_def c Let_def matches_result_def)
qed

section \<open>Accepting one more outcome\<close>

datatype outcome =
    Accept_Proposal "action_proposal list"
  | Accept_Result nat action_result
  | Accept_Final gostring
  | Accept_Steering gostring gostring

fun outcome_checkpoint :: "checkpoint_prefix \<Rightarrow> outcome \<Rightarrow> (checkpoint_error, pending_checkpoint) result" where
  "outcome_checkpoint p (Accept_Proposal actions) = new_proposal_checkpoint (cx_decisions p + 1) actions"
| "outcome_checkpoint p (Accept_Result k r) =
     new_action_result_checkpoint (apr_decision_no (last (cx_proposals p))) (int k)
       (aa_action_id (apr_actions (last (cx_proposals p)) ! k)) r"
| "outcome_checkpoint p (Accept_Final text) = new_final_draft_checkpoint (cx_decisions p + 1) text"
| "outcome_checkpoint p (Accept_Steering m text) = new_steering_checkpoint (cx_decisions p + 1) m text"

fun outcome_allowed :: "checkpoint_prefix \<Rightarrow> outcome \<Rightarrow> bool" where
  "outcome_allowed p (Accept_Proposal actions) \<longleftrightarrow> \<not> has_incomplete_proposal p"
| "outcome_allowed p (Accept_Result k r) \<longleftrightarrow>
     cx_proposals p \<noteq> [] \<and> k < length (apr_actions (last (cx_proposals p)))
     \<and> aa_result (apr_actions (last (cx_proposals p)) ! k) = None
     \<and> (case ar_error r of None \<Rightarrow> True | Some e \<Rightarrow> error_valid e)"
| "outcome_allowed p (Accept_Final text) \<longleftrightarrow> \<not> has_incomplete_proposal p \<and> utf8_valid text"
| "outcome_allowed p (Accept_Steering m text) \<longleftrightarrow>
     \<not> has_incomplete_proposal p \<and> utf8_valid text \<and> m \<notin> as_message_id ` set (cx_steering p)"

fun apply_outcome :: "checkpoint_prefix \<Rightarrow> outcome \<Rightarrow> checkpoint_prefix" where
  "apply_outcome p (Accept_Proposal actions) =
     p\<lparr>cx_proposals := cx_proposals p @ [proposal_of (cx_decisions p + 1) actions],
       cx_decisions := cx_decisions p + 1, cx_actions := cx_actions p + int (length actions)\<rparr>"
| "apply_outcome p (Accept_Result k r) =
     p\<lparr>cx_proposals := butlast (cx_proposals p) @ [set_result (last (cx_proposals p)) k (stored_result r)]\<rparr>"
| "apply_outcome p (Accept_Final text) = p\<lparr>cx_final := Some text, cx_decisions := cx_decisions p + 1\<rparr>"
| "apply_outcome p (Accept_Steering m text) =
     p\<lparr>cx_steering := cx_steering p @ [\<lparr>as_decision_no = cx_decisions p + 1, as_message_id = m, as_content = text\<rparr>]\<rparr>"

lemma load_outcome:
  assumes new: "outcome_checkpoint (ls_prefix s) e = Inr c" and nx: "ls_next s = cx_decisions (ls_prefix s) + 1"
    and ok: "outcome_allowed (ls_prefix s) e"
  shows "\<exists>s'. load_kind s c = Inr s' \<and> ls_prefix s' = apply_outcome (ls_prefix s) e"
proof (cases e)
  case (Accept_Proposal actions)
  with assms show ?thesis using load_new_proposal [of s actions c] by simp
next
  case (Accept_Result k r)
  with assms show ?thesis
    using load_new_result [of s k "aa_action_id (apr_actions (last (cx_proposals (ls_prefix s))) ! k)" r c]
    by (auto split: option.splits)
next
  case (Accept_Final t)
  with assms show ?thesis using load_new_final [of s t c] by simp
next
  case (Accept_Steering m t)
  with assms show ?thesis using load_new_steering [of s m t c] by simp
qed

lemma load_prefix_state:
  "load_checkpoint_prefix cs = Inr p \<longleftrightarrow> (\<exists>s. load_run cs = Inr s \<and> ls_prefix s = p)"
  by (simp add: load_checkpoint_prefix_def result_simps)

section \<open>A sample proposal\<close>

definition sample_actions :: "action_proposal list" where
  "sample_actions = [\<lparr>ap_name = ''web.search'', ap_input = Raw (JObj [(''q'', JStr ''x''), (''n'', JNum ''3'')])\<rparr>]"

lemma sample_proposal: "\<exists>c. new_proposal_checkpoint 1 sample_actions = Inr c"
  by (simp add: new_proposal_checkpoint_def sample_actions_def action_name_ok_def go_eval Let_def)

lemma empty_prefix_loads: "load_checkpoint_prefix [] = Inr empty_prefix"
  by (simp add: load_checkpoint_prefix_def load_run_def load_start_def)

lemma sample_proposal_loads:
  "\<exists>c p. new_proposal_checkpoint 1 sample_actions = Inr c
     \<and> load_checkpoint_prefix [\<lparr>cp_sequence_no = 1, cp_pending = c\<rparr>] = Inr p"
proof -
  obtain c where c: "new_proposal_checkpoint 1 sample_actions = Inr c" using sample_proposal by blast
  have "load_run [] = Inr load_start" by (simp add: load_run_def)
  moreover have "\<exists>s. load_kind load_start c = Inr s"
    using load_new_proposal [of load_start sample_actions c] c
    by (simp add: load_start_def empty_prefix_def has_incomplete_proposal_def)
  ultimately have "\<exists>p. load_checkpoint_prefix [\<lparr>cp_sequence_no = 1, cp_pending = c\<rparr>] = Inr p"
    using load_run_snoc [of "[]"] by (auto simp: load_prefix_state load_step_def load_start_def)
  with c show ?thesis by blast
qed

section \<open>Properties\<close>

text \<open>
  C11: every prefix that loads is well formed: its proposals carry the consecutive decision numbers
  1, 2, ..., each with the Action identities that its number and ordinals determine and with valid
  results; only the last proposal may miss results, and none does once the Final Draft is accepted;
  the two counters are the decisions and the Actions; no Steering Message was delivered twice.
\<close>

theorem loaded_prefix_wf: "load_checkpoint_prefix cs = Inr p \<Longrightarrow> prefix_wf p"
  by (auto simp: load_checkpoint_prefix_def result_simps load_inv_def dest!: load_run_inv)
theorem loaded_prefix_wf_witness:
  "\<exists>c p. new_proposal_checkpoint 1 sample_actions = Inr c
     \<and> load_checkpoint_prefix [\<lparr>cp_sequence_no = 1, cp_pending = c\<rparr>] = Inr p \<and> prefix_wf p"
  using sample_proposal_loads loaded_prefix_wf by blast

text \<open>
  C9: what the checkpoint constructors write can always be read back. After rows that load to the
  prefix p without a Final Draft, an outcome that the loader's guards allow (a further proposal, a
  missing result, the Final Draft, an undelivered Steering Message), built by its constructor and
  stored as the next row, loads, and gives exactly p extended by that outcome.
\<close>

theorem appended_outcome_loads:
  assumes "load_checkpoint_prefix cs = Inr p" and "cx_final p = None"
    and "outcome_checkpoint p e = Inr c" and "outcome_allowed p e"
  shows "load_checkpoint_prefix (cs @ [\<lparr>cp_sequence_no = int (length cs) + 1, cp_pending = c\<rparr>])
         = Inr (apply_outcome p e)"
proof -
  from assms(1) obtain s where s: "load_run cs = Inr s" and p: "p = ls_prefix s" by (auto simp: load_prefix_state)
  from s have inv: "load_inv s" and pos: "ls_position s = int (length cs)"
    by (rule load_run_inv, rule load_run_position)
  with assms(2-4) p obtain s' where "load_kind s c = Inr s'" "ls_prefix s' = apply_outcome p e"
    using load_outcome [of s e c] by (auto simp: load_inv_def)
  then show ?thesis
    using s pos inv assms(2) p by (simp add: load_prefix_state load_run_snoc load_step_def load_inv_def)
qed

theorem appended_outcome_loads_witness:
  "\<exists>c. new_proposal_checkpoint 1 sample_actions = Inr c
     \<and> load_checkpoint_prefix [\<lparr>cp_sequence_no = 1, cp_pending = c\<rparr>]
         = Inr (apply_outcome empty_prefix (Accept_Proposal sample_actions))"
proof -
  obtain c where c: "new_proposal_checkpoint 1 sample_actions = Inr c" using sample_proposal by blast
  moreover have "load_checkpoint_prefix ([] @ [\<lparr>cp_sequence_no = int (length ([] :: checkpoint list)) + 1, cp_pending = c\<rparr>])
       = Inr (apply_outcome empty_prefix (Accept_Proposal sample_actions))"
    using c by (intro appended_outcome_loads empty_prefix_loads)
      (simp_all add: empty_prefix_def has_incomplete_proposal_def)
  ultimately show ?thesis by auto
qed

text \<open>
  A Run can be resumed from any point of its history: every initial segment of rows that load
  also loads.
\<close>

lemma loaded_prefix_closed:
  assumes "load_checkpoint_prefix (cs @ ds) = Inr p"
  shows "\<exists>q. load_checkpoint_prefix cs = Inr q"
  using assms by (auto simp: load_checkpoint_prefix_def load_run_def fold_result_append result_simps)

end
