(* ===== verification/Checkpoint_Rows.thy ===== *)
theory Checkpoint_Rows
  imports Checkpoint_Prefix
begin

text \<open>
  Checkpoint rows as they come back from the database
  (\<open>canonicalStoredCheckpointPayload\<close> in \<open>internal/agent/postgres_checkpoint_store.go\<close>): the stored
  payload is decoded strictly, the checkpoint it stands for is rebuilt by its constructor, and the
  rebuilt payload replaces the stored text. The lemmas show that this undoes any change of spelling
  (member order, repeated members) that the database made.
\<close>

section \<open>Stored rows\<close>

text \<open>\<open>DisallowUnknownFields\<close> on the payload structs, nested objects included.\<close>

fun strict_proposal :: "raw \<Rightarrow> bool" where
  "strict_proposal (Raw (JObj ms)) \<longleftrightarrow>
     known_members [''actions''] ms
     \<and> (case member_for ''actions'' ms of
          Some (JArr xs) \<Rightarrow>
            list_all (\<lambda>x. case x of
                JObj fs \<Rightarrow> known_members [''action_id'', ''index'', ''name'', ''input''] fs
              | _ \<Rightarrow> True) xs
        | _ \<Rightarrow> True)"
| "strict_proposal _ \<longleftrightarrow> True"

fun strict_result :: "raw \<Rightarrow> bool" where
  "strict_result (Raw (JObj ms)) \<longleftrightarrow>
     known_members [''action_id'', ''status'', ''output'', ''error_code'', ''error''] ms
     \<and> (case member_for ''error'' ms of
          Some (JObj fs) \<Rightarrow> known_members [''kind'', ''code'', ''message'', ''suggestion'', ''retryable''] fs
        | _ \<Rightarrow> True)"
| "strict_result _ \<longleftrightarrow> True"

fun strict_fields :: "gostring list \<Rightarrow> raw \<Rightarrow> bool" where
  "strict_fields names (Raw (JObj ms)) \<longleftrightarrow> known_members names ms"
| "strict_fields names _ \<longleftrightarrow> True"

text \<open>The payload the code would have written for what a stored row decodes to.\<close>

definition expected_stored :: "pending_checkpoint \<Rightarrow> (checkpoint_error, pending_checkpoint) result option" where
  "expected_stored c =
     (case pc_kind c of
        Action_Proposal \<Rightarrow>
          (case (if strict_proposal (pc_payload c) then decode_proposal (pc_payload c) else None) of
             None \<Rightarrow> None
           | Some es \<Rightarrow>
               if es = [] \<or> \<not> ordinals_ok (pc_decision_no c) es then None
               else Some (new_proposal_checkpoint (pc_decision_no c)
                      (map (\<lambda>e. \<lparr>ap_name = pe_name e, ap_input = pe_input e\<rparr>) es)))
      | Action_Result \<Rightarrow>
          (case pc_action_index c of
             None \<Rightarrow> None
           | Some i \<Rightarrow>
               (case (if strict_result (pc_payload c) then decode_action_result (pc_payload c) else None) of
                  None \<Rightarrow> None
                | Some (action_id, r) \<Rightarrow>
                    if action_id \<noteq> pc_action_id c
                       \<or> (pc_payload_version c \<noteq> 1 \<and> pc_payload_version c \<noteq> 2)
                       \<or> (pc_payload_version c = 1 \<and> ar_error r \<noteq> None)
                       \<or> (pc_payload_version c = 2 \<and> (ar_error r = None \<or> ar_error_code r \<noteq> []))
                    then None
                    else Some (new_action_result_checkpoint (pc_decision_no c) i (pc_action_id c) r)))
      | Final_Draft \<Rightarrow>
          (case (if strict_fields [''text''] (pc_payload c) then decode_final (pc_payload c) else None) of
             None \<Rightarrow> None
           | Some t \<Rightarrow> Some (new_final_draft_checkpoint (pc_decision_no c) t))
      | Steering_Message \<Rightarrow>
          (case (if strict_fields [''message_id'', ''content''] (pc_payload c) then decode_steering (pc_payload c) else None) of
             None \<Rightarrow> None
           | Some (m, t) \<Rightarrow> Some (new_steering_checkpoint (pc_decision_no c) m t))
      | Other_Kind _ \<Rightarrow> None)"

section \<open>What a stored row scans to\<close>

text \<open>A checkpoint as one of the constructors builds it, from well-formed strings.\<close>

definition built :: "pending_checkpoint \<Rightarrow> bool" where
  "built e \<longleftrightarrow>
     (\<exists>n as. new_proposal_checkpoint n as = Inr e)
     \<or> (\<exists>n i a r. new_action_result_checkpoint n i a r = Inr e \<and> (\<forall>x. ar_error r = Some x \<longrightarrow> error_valid x))
     \<or> (\<exists>n t. new_final_draft_checkpoint n t = Inr e \<and> utf8_valid t)
     \<or> (\<exists>n m t. new_steering_checkpoint n m t = Inr e \<and> utf8_valid t)"

lemma same_value_sym: "same_value a b \<Longrightarrow> same_value b a"
  by (simp add: same_value_def)

lemma exact_entry: "exact_members [''action_id'', ''index'', ''name'', ''input'']
     [(''action_id'', a), (''index'', b), (''name'', c), (''input'', d)]"
  by (simp add: exact_members_def fold_name_ascii up_ascii_def go_eval)

lemma get_raw_same:
  assumes "rel_option same_value (member_for name ms) (member_for name ns)"
  shows "(get_raw name ms = Raw_Empty \<and> get_raw name ns = Raw_Empty)
    \<or> (\<exists>u v. get_raw name ms = Raw u \<and> get_raw name ns = Raw v \<and> same_value u v)"
  using assms by (auto simp: get_raw_def option_rel_Some1 split: option.splits)

lemma decode_entry_same:
  assumes nm: "action_name_ok name" and input: "canonical_json_object (Raw input) = Inr input"
    and same: "same_value (proposal_action_json n i name input) y"
  shows "\<exists>e. decode_proposal_entry y = Some e \<and> pe_index e = int i \<and> pe_action_id e = action_key n (int i)
    \<and> pe_name e = name \<and> canonical_json_object (pe_input e) = Inr input
    \<and> (case y of JObj fs \<Rightarrow> known_members [''action_id'', ''index'', ''name'', ''input''] fs | _ \<Rightarrow> True)"
proof -
  let ?names = "[''action_id'', ''index'', ''name'', ''input'']"
  let ?ms = "[(''action_id'', marshal_string (action_key n (int i))), (''index'', marshal_int (int i)),
           (''name'', marshal_string name), (''input'', input)]"
  from same obtain ns where y: "y = JObj ns" and c: "canon_members ?ms = canon_members ns"
    by (auto simp: proposal_action_json_def same_value_obj)
  have ex: "exact_members ?names ?ms" by (rule exact_entry)
  have kn: "known_members ?names ns" using c ex exact_members_same known_members_exact by blast
  have m: "name' \<in> set ?names \<Longrightarrow> rel_option same_value (member_for name' ?ms) (member_for name' ns)" for name'
    by (rule member_for_same [OF c ex])
  have s1: "get_string ''action_id'' ns = Some (action_key n (int i))"
  proof -
    have "get_string ''action_id'' ?ms = Some (action_key n (int i))"
      by (simp add: get_string_def entry_members marshal_string_def to_valid_ascii)
    with get_string_same [OF m, of "''action_id''"] show ?thesis by simp
  qed
  have s2: "get_int ''index'' ns = Some (int i)"
  proof -
    have "get_int ''index'' ?ms = Some (int i)" by (simp add: get_int_def entry_members marshal_int_def)
    with get_int_same [OF m, of "''index''"] show ?thesis by simp
  qed
  have s3: "get_string ''name'' ns = Some name"
  proof -
    have "get_string ''name'' ?ms = Some name"
      by (simp add: get_string_def entry_members marshal_string_def to_valid_ascii action_name_ascii [OF nm])
    with get_string_same [OF m, of "''name''"] show ?thesis by simp
  qed
  from get_raw_same [OF m, of "''input''"] obtain v where "get_raw ''input'' ns = Raw v" "same_value input v"
    by (auto simp: get_raw_def entry_members)
  then have s4: "canonical_json_object (get_raw ''input'' ns) = Inr input"
    using input canonical_json_object_same by metis
  show ?thesis using s1 s2 s3 s4 kn by (simp add: y)
qed

lemma decode_entries_same:
  assumes "proposal_actions_json n i as = Inr js" and "list_all2 same_value js ys"
  shows "\<exists>es. all_some (map decode_proposal_entry ys) = Some es \<and> length es = length as
    \<and> (\<forall>k < length as. pe_index (es ! k) = int (i + k) \<and> pe_action_id (es ! k) = action_key n (int (i + k)))
    \<and> proposal_actions_json n i (map (\<lambda>e. \<lparr>ap_name = pe_name e, ap_input = pe_input e\<rparr>) es) = Inr js
    \<and> list_all (\<lambda>x. case x of JObj fs \<Rightarrow> known_members [''action_id'', ''index'', ''name'', ''input''] fs | _ \<Rightarrow> True) ys"
  using assms
proof (induction as arbitrary: i js ys)
  case Nil
  then show ?case by simp
next
  case (Cons a as)
  from Cons.prems(1) obtain input js' where nm: "action_name_ok (ap_name a)"
    and input: "canonical_json_object (ap_input a) = Inr input"
    and rest: "proposal_actions_json n (Suc i) as = Inr js'"
    and js: "js = proposal_action_json n i (ap_name a) input # js'"
    by (auto simp: result_simps split: if_splits)
  from Cons.prems(2) js obtain y ys' where ys: "ys = y # ys'"
    and y: "same_value (proposal_action_json n i (ap_name a) input) y" and ys': "list_all2 same_value js' ys'"
    by (auto simp: list_all2_Cons1)
  from decode_entry_same [OF nm canonical_json_object_canon [OF input] y] obtain e
    where e: "decode_proposal_entry y = Some e" "pe_index e = int i" "pe_action_id e = action_key n (int i)"
      "pe_name e = ap_name a" "canonical_json_object (pe_input e) = Inr input"
      "case y of JObj fs \<Rightarrow> known_members [''action_id'', ''index'', ''name'', ''input''] fs | _ \<Rightarrow> True"
    by blast
  from Cons.IH [OF rest ys'] obtain es where es: "all_some (map decode_proposal_entry ys') = Some es" "length es = length as"
    "\<forall>k < length as. pe_index (es ! k) = int (Suc i + k) \<and> pe_action_id (es ! k) = action_key n (int (Suc i + k))"
    "proposal_actions_json n (Suc i) (map (\<lambda>e. \<lparr>ap_name = pe_name e, ap_input = pe_input e\<rparr>) es) = Inr js'"
    "list_all (\<lambda>x. case x of JObj fs \<Rightarrow> known_members [''action_id'', ''index'', ''name'', ''input''] fs | _ \<Rightarrow> True) ys'"
    by blast
  have "pe_index ((e # es) ! k) = int (i + k) \<and> pe_action_id ((e # es) ! k) = action_key n (int (i + k))"
    if "k < length (a # as)" for k
    using that e es(3) by (cases k) (auto simp: algebra_simps)
  with e es nm show ?case by (intro exI [of _ "e # es"]) (simp add: ys js)
qed

lemma expected_proposal:
  assumes new: "new_proposal_checkpoint n as = Inr e" and p: "pc_payload e = Raw j0" and same: "same_value j0 j"
  shows "expected_stored (e\<lparr>pc_payload := Raw j\<rparr>) = Some (Inr e)"
proof -
  from new p obtain js where n: "1 \<le> n" "as \<noteq> []" and js: "proposal_actions_json n 0 as = Inr js"
    and j0: "j0 = JObj [(''actions'', JArr js)]"
    and e: "e = \<lparr>pc_identity_key = decision_key n, pc_kind = Action_Proposal, pc_decision_no = n,
             pc_action_index = None, pc_action_id = [], pc_payload_version = 1,
             pc_payload = Raw (JObj [(''actions'', JArr js)]), pc_payload_sha256 = hash_payload (JObj [(''actions'', JArr js)])\<rparr>"
    by (auto simp: new_proposal_checkpoint_def result_simps Let_def split: if_splits)
  let ?ms = "[(''actions'', JArr js)]"
  from same j0 obtain ns where j: "j = JObj ns" and c: "canon_members ?ms = canon_members ns"
    by (auto simp: same_value_obj)
  have ex: "exact_members [''actions''] ?ms" by (simp add: exact_members_def)
  have kn: "known_members [''actions''] ns" using c ex exact_members_same known_members_exact by blast
  have "rel_option same_value (member_for ''actions'' ?ms) (member_for ''actions'' ns)"
    by (rule member_for_same [OF c ex]) simp
  then obtain ys where m: "member_for ''actions'' ns = Some (JArr ys)" and ys: "list_all2 same_value js ys"
    by (auto simp: member_for_def [of _ "[(_, _)]"] option_rel_Some1 same_value_arr)
  from decode_entries_same [OF js ys] obtain es where es: "all_some (map decode_proposal_entry ys) = Some es"
    "length es = length as"
    "\<forall>k < length as. pe_index (es ! k) = int k \<and> pe_action_id (es ! k) = action_key n (int k)"
    "proposal_actions_json n 0 (map (\<lambda>e. \<lparr>ap_name = pe_name e, ap_input = pe_input e\<rparr>) es) = Inr js"
    "list_all (\<lambda>x. case x of JObj fs \<Rightarrow> known_members [''action_id'', ''index'', ''name'', ''input''] fs | _ \<Rightarrow> True) ys"
    by auto
  have "es \<noteq> []" using es(2) n by auto
  moreover have "ordinals_ok n es" using es(2,3) by (simp add: ordinals_ok_def list_all_length)
  ultimately show ?thesis
    using es n m kn by (simp add: expected_stored_def e j new_proposal_checkpoint_def Let_def)
qed

lemma expected_final:
  assumes new: "new_final_draft_checkpoint n t = Inr e" and v: "utf8_valid t"
    and p: "pc_payload e = Raw j0" and same: "same_value j0 j"
  shows "expected_stored (e\<lparr>pc_payload := Raw j\<rparr>) = Some (Inr e)"
proof -
  from new p have e: "pc_kind e = Final_Draft" "pc_decision_no e = n" and j0: "j0 = JObj [(''text'', marshal_string t)]"
    by (auto simp: new_final_draft_checkpoint_def Let_def split: if_splits)
  let ?ms = "[(''text'', marshal_string t)]"
  from same j0 obtain ns where j: "j = JObj ns" and c: "canon_members ?ms = canon_members ns"
    by (auto simp: same_value_obj)
  have ex: "exact_members [''text''] ?ms" by (simp add: exact_members_def)
  have kn: "known_members [''text''] ns" using c ex exact_members_same known_members_exact by blast
  have "get_string ''text'' ns = Some t"
  proof -
    have "get_string ''text'' ?ms = Some t"
      using v by (simp add: get_string_def member_for_def marshal_string_def utf8_valid_to_valid_id)
    with get_string_same [OF member_for_same [OF c ex], of "''text''"] show ?thesis by simp
  qed
  with kn new e show ?thesis by (simp add: expected_stored_def j)
qed

lemma expected_steering:
  assumes new: "new_steering_checkpoint n m t = Inr e" and v: "utf8_valid t"
    and p: "pc_payload e = Raw j0" and same: "same_value j0 j"
  shows "expected_stored (e\<lparr>pc_payload := Raw j\<rparr>) = Some (Inr e)"
proof -
  from new p have e: "pc_kind e = Steering_Message" "pc_decision_no e = n" and m: "steering_id_ok m"
    and j0: "j0 = JObj [(''message_id'', marshal_string m), (''content'', marshal_string t)]"
    by (auto simp: new_steering_checkpoint_def Let_def split: if_splits)
  let ?ms = "[(''message_id'', marshal_string m), (''content'', marshal_string t)]"
    and ?names = "[''message_id'', ''content'']"
  from same j0 obtain ns where j: "j = JObj ns" and c: "canon_members ?ms = canon_members ns"
    by (auto simp: same_value_obj)
  have ex: "exact_members ?names ?ms" by (simp add: exact_members_def fold_name_ascii up_ascii_def go_eval)
  have kn: "known_members ?names ns" using c ex exact_members_same known_members_exact by blast
  have "get_string ''message_id'' ns = Some m"
  proof -
    have "get_string ''message_id'' ?ms = Some m"
      using steering_id_ascii [OF m] by (simp add: get_string_def member_eval marshal_string_def to_valid_ascii)
    with get_string_same [OF member_for_same [OF c ex], of "''message_id''"] show ?thesis by simp
  qed
  moreover have "get_string ''content'' ns = Some t"
  proof -
    have "get_string ''content'' ?ms = Some t"
      using v by (simp add: get_string_def member_for_def marshal_string_def utf8_valid_to_valid_id)
    with get_string_same [OF member_for_same [OF c ex], of "''content''"] show ?thesis by simp
  qed
  ultimately show ?thesis using kn new e by (simp add: expected_stored_def j)
qed


definition error_fields :: "gostring list" where
  "error_fields = [''kind'', ''code'', ''message'', ''suggestion'', ''retryable'']"

definition result_fields :: "gostring list" where
  "result_fields = [''action_id'', ''status'', ''output'', ''error_code'', ''error'']"

lemma error_fields_distinct: "distinct (map fold_name error_fields)"
  by (simp add: error_fields_def fold_name_ascii up_ascii_def go_eval)

lemma result_fields_distinct: "distinct (map fold_name result_fields)"
  by (simp add: result_fields_def fold_name_ascii up_ascii_def go_eval)

lemma decode_error_same:
  assumes "same_value (action_error_json x) y"
  shows "\<exists>fs. y = JObj fs \<and> known_members error_fields fs \<and> decode_action_error y = decode_action_error (action_error_json x)"
proof -
  obtain ms where ms: "action_error_json x = JObj ms"
    by (simp add: action_error_json_def)
  then have sub: "set (map fst ms) \<subseteq> set error_fields"
    by (auto simp: action_error_json_def error_fields_def opt_member_def split: if_splits)
  then have ex: "exact_members error_fields ms" by (simp add: exact_members_def error_fields_distinct)
  from assms ms obtain ns where y: "y = JObj ns" and c: "canon_members ms = canon_members ns"
    by (auto simp: same_value_obj)
  have kn: "known_members error_fields ns" using c ex exact_members_same known_members_exact by blast
  have m: "name \<in> set error_fields \<Longrightarrow> rel_option same_value (member_for name ms) (member_for name ns)" for name
    by (rule member_for_same [OF c ex])
  have "get_string ''kind'' ms = get_string ''kind'' ns" "get_string ''code'' ms = get_string ''code'' ns"
    "get_string ''message'' ms = get_string ''message'' ns" "get_string ''suggestion'' ms = get_string ''suggestion'' ns"
    "get_bool ''retryable'' ms = get_bool ''retryable'' ns"
    by (rule get_string_same get_bool_same, rule m, simp add: error_fields_def)+
  with kn show ?thesis by (simp add: y ms)
qed

lemma decode_result_output:
  "decode_action_result (Raw (JObj ms)) = Some (a, r) \<Longrightarrow> ar_output r = get_raw ''output'' ms"
  by (auto split: option.splits)

lemma decode_result_replace:
  assumes "decode_action_result (Raw (JObj ms)) = Some (a, r)"
    and "get_string ''action_id'' ms = get_string ''action_id'' ns" "get_string ''status'' ms = get_string ''status'' ns"
    and "get_string ''error_code'' ms = get_string ''error_code'' ns"
    and "decode_action_error (case member_for ''error'' ns of None \<Rightarrow> JNull | Some j \<Rightarrow> j)
      = decode_action_error (case member_for ''error'' ms of None \<Rightarrow> JNull | Some j \<Rightarrow> j)"
  shows "decode_action_result (Raw (JObj ns)) = Some (a, r\<lparr>ar_output := get_raw ''output'' ns\<rparr>)"
  using assms by (simp split: option.splits) auto

lemma expected_result:
  assumes new: "new_action_result_checkpoint n i a r = Inr e" and v: "\<And>x. ar_error r = Some x \<Longrightarrow> error_valid x"
    and p: "pc_payload e = Raw j0" and same: "same_value j0 j"
  shows "expected_stored (e\<lparr>pc_payload := Raw j\<rparr>) = Some (Inr e)"
proof -
  from new p obtain res where n: "1 \<le> n" "0 \<le> i" and a: "a = action_key n i" and ok: "action_result_ok r"
    and out: "(if ar_status r = action_succeeded
              then bind_result (canonical_json_object (ar_output r)) (\<lambda>j. Inr (Some j))
              else Inr None) = (Inr res :: (checkpoint_error, json option) result)"
    and j0: "j0 = action_result_json a r res"
    and e: "e = \<lparr>pc_identity_key = a, pc_kind = Action_Result, pc_decision_no = n,
                    pc_action_index = Some i, pc_action_id = a,
                    pc_payload_version = (if ar_error r \<noteq> None then 2 else 1),
                    pc_payload = Raw (action_result_json a r res),
                    pc_payload_sha256 = hash_payload (action_result_json a r res)\<rparr>"
    by (auto simp: new_action_result_checkpoint_def result_simps Let_def not_less simp del: not_None_eq split: if_split_asm)
  obtain ms where ms: "action_result_json a r res = JObj ms"
    by (simp add: action_result_json_def)
  then have sub: "set (map fst ms) \<subseteq> set result_fields"
    by (auto simp: action_result_json_def result_fields_def opt_member_def split: option.splits if_splits)
  then have ex: "exact_members result_fields ms" by (simp add: exact_members_def result_fields_distinct)
  from same ms j0 obtain ns where j: "j = JObj ns" and c: "canon_members ms = canon_members ns"
    by (auto simp: same_value_obj)
  have kn: "known_members result_fields ns" using c ex exact_members_same known_members_exact by blast
  have m: "name \<in> set result_fields \<Longrightarrow> rel_option same_value (member_for name ms) (member_for name ns)" for name
    by (rule member_for_same [OF c ex])
  have strs: "get_string ''action_id'' ms = get_string ''action_id'' ns" "get_string ''status'' ms = get_string ''status'' ns"
    "get_string ''error_code'' ms = get_string ''error_code'' ns"
    by (rule get_string_same, rule m, simp add: result_fields_def)+
  have dec: "decode_action_result (Raw (JObj ms)) = Some (a, stored_result r)"
    using decode_stored_result [OF ok v _ out, of a] a ms by simp
  have em: "member_for ''error'' ms = map_option action_error_json (ar_error r)"
    using sub ms by (subst member_for_exact [OF ex])
      (auto simp: result_fields_def action_result_json_def opt_member_def split: option.splits)
  have om: "get_raw ''output'' ms = ar_output (stored_result r)"
    using decode_result_output [OF dec] by simp
  have me: "rel_option same_value (member_for ''error'' ms) (member_for ''error'' ns)"
    by (rule m) (simp add: result_fields_def)
  have err: "decode_action_error (case member_for ''error'' ns of None \<Rightarrow> JNull | Some j \<Rightarrow> j)
      = decode_action_error (case member_for ''error'' ms of None \<Rightarrow> JNull | Some j \<Rightarrow> j)
      \<and> (case member_for ''error'' ns of Some (JObj fs) \<Rightarrow> known_members error_fields fs | _ \<Rightarrow> True)"
  proof (cases "ar_error r")
    case None
    with em me show ?thesis by simp
  next
    case (Some x)
    with em me obtain y where "member_for ''error'' ns = Some y" "same_value (action_error_json x) y"
      by (auto simp: option_rel_Some1)
    with decode_error_same [of x y] em Some show ?thesis by auto
  qed
  define r' where "r' = (stored_result r)\<lparr>ar_output := get_raw ''output'' ns\<rparr>"
  have dec': "decode_action_result (Raw (JObj ns)) = Some (a, r')"
    unfolding r'_def using dec strs err by (intro decode_result_replace) auto
  have raws: "(get_raw ''output'' ms = Raw_Empty \<and> get_raw ''output'' ns = Raw_Empty)
    \<or> (\<exists>u v. get_raw ''output'' ms = Raw u \<and> get_raw ''output'' ns = Raw v \<and> same_value u v)"
    by (rule get_raw_same, rule m) (simp add: result_fields_def)
  have "new_action_result_checkpoint n i a r' = Inr e"
  proof -
    have st: "new_action_result_checkpoint n i a (stored_result r) = Inr e" using new by (rule new_action_result_stored)
    have can: "canonical_json_object (ar_output r') = canonical_json_object (ar_output (stored_result r))"
      using raws om canonical_json_object_same by (auto simp: r'_def)
    have obj: "is_object (ar_output r') = is_object (ar_output (stored_result r))"
    proof -
      have iso: "is_object x = (\<exists>j. canonical_json_object x = Inr j)" for x
        by (cases x rule: is_object.cases) (auto simp: canonical_json_object_Inr)
      show ?thesis by (simp only: iso can)
    qed
    have emp: "ar_output r' = Raw_Empty \<longleftrightarrow> ar_output (stored_result r) = Raw_Empty"
      using raws om by (auto simp: r'_def)
    have flds: "ar_status r' = ar_status (stored_result r)" "ar_error r' = ar_error (stored_result r)"
      "ar_error_code r' = ar_error_code (stored_result r)"
      by (simp_all add: r'_def)
    have "action_result_ok r' = action_result_ok (stored_result r)"
      by (simp only: action_result_ok_def flds obj emp)
    moreover have "action_result_json a r' = action_result_json a (stored_result r)"
      by (rule ext) (simp only: action_result_json_def flds)
    ultimately have "new_action_result_checkpoint n i a r' = new_action_result_checkpoint n i a (stored_result r)"
      by (simp only: new_action_result_checkpoint_def flds can)
    with st show ?thesis by simp
  qed
  moreover have "ar_error r' = ar_error r" "ar_error_code r' = ar_error_code r" by (simp_all add: r'_def)
  moreover have "ar_error r \<noteq> None \<Longrightarrow> ar_error_code r = []"
    using ok by (auto simp: action_result_ok_def Let_def split: if_splits option.splits)
  moreover have "strict_result (Raw (JObj ns))"
    using kn conjunct2 [OF err] by (simp only: strict_result.simps result_fields_def error_fields_def simp_thms)
  ultimately show ?thesis
    using dec' by (simp add: expected_stored_def e j del: strict_result.simps decode_action_result.simps)
qed

lemma expected_built:
  assumes "built e" and "pc_payload e = Raw j0" and "same_value j0 j"
  shows "expected_stored (e\<lparr>pc_payload := Raw j\<rparr>) = Some (Inr e)"
  using assms unfolding built_def
  by (auto intro: expected_proposal expected_result expected_final expected_steering)

lemma get_string_valid: "get_string name ms = Some s \<Longrightarrow> utf8_valid s"
  by (auto simp: get_string_def split: option.splits json.splits)

lemma decode_error_valid: "decode_action_error j = Some (Some x) \<Longrightarrow> error_valid x"
  by (cases j rule: decode_action_error.cases)
    (auto simp: error_valid_def split: option.splits dest: get_string_valid)

lemma decode_result_valid:
  "decode_action_result p = Some (a, r) \<Longrightarrow> ar_error r = Some x \<Longrightarrow> error_valid x"
  by (cases p rule: decode_action_result.cases) (auto split: option.splits dest: decode_error_valid)

lemma decode_final_valid: "decode_final p = Some t \<Longrightarrow> utf8_valid t"
  by (cases p rule: decode_final.cases) (auto dest: get_string_valid)

lemma decode_steering_valid: "decode_steering p = Some (m, t) \<Longrightarrow> utf8_valid t"
  by (cases p rule: decode_steering.cases) (auto split: option.splits dest: get_string_valid)

lemma matches_fields:
  "checkpoint_matches c e \<Longrightarrow> pc_payload e = Raw j \<Longrightarrow>
   \<exists>i. pc_payload c = Raw i \<and> same_value i j \<and> c = e\<lparr>pc_payload := Raw i\<rparr>"
  by (cases c; cases e; cases "pc_payload c")
    (auto simp: checkpoint_matches_def same_value_def split: if_splits)

text \<open>An accepted row is the canonical row but for the spelling of its payload.\<close>

lemma accepted_built:
  assumes "load_kind s c = Inr s'"
  shows "\<exists>e j. built e \<and> pc_payload e = Raw j \<and> checkpoint_matches c e \<and> (\<exists>s''. load_kind s e = Inr s'')"
proof (cases "pc_kind c")
  case Action_Proposal
  with assms have run: "load_proposal s c = Inr s'" by (simp add: load_kind_def)
  then have g: "\<not> has_incomplete_proposal (ls_prefix s)" "pc_decision_no c = ls_next s"
    by (auto simp: load_proposal_def Let_def split: if_splits)
  from run obtain es where "decode_proposal (pc_payload c) = Some es"
    by (auto simp: load_proposal_def Let_def split: if_splits option.splits)
  with run g have "matches_result c (new_proposal_checkpoint (ls_next s) (map (\<lambda>e. \<lparr>ap_name = pe_name e, ap_input = pe_input e\<rparr>) es))"
    by (simp add: load_proposal_def Let_def split: if_splits)
  then obtain e where e: "new_proposal_checkpoint (ls_next s) (map (\<lambda>e. \<lparr>ap_name = pe_name e, ap_input = pe_input e\<rparr>) es) = Inr e"
    and "checkpoint_matches c e" by (auto dest: matches_result_Inr)
  moreover have "\<exists>j. pc_payload e = Raw j"
    using e by (auto simp: new_proposal_checkpoint_def result_simps Let_def split: if_splits)
  ultimately show ?thesis using load_new_proposal [OF e g(1)] unfolding built_def by blast
next
  case Action_Result
  let ?l = "last (cx_proposals (ls_prefix s))"
  from Action_Result assms obtain i r where ne: "cx_proposals (ls_prefix s) \<noteq> []"
    and k: "0 \<le> i" "nat i < length (apr_actions ?l)" and free: "aa_result (apr_actions ?l ! nat i) = None"
    and dec: "decode_action_result (pc_payload c) = Some (aa_action_id (apr_actions ?l ! nat i), r)"
    and m: "matches_result c (new_action_result_checkpoint (apr_decision_no ?l) i (aa_action_id (apr_actions ?l ! nat i)) r)"
    by (auto simp: load_kind_def load_result_def Let_def not_less split: if_splits option.splits)
  then obtain e where e: "new_action_result_checkpoint (apr_decision_no ?l) i (aa_action_id (apr_actions ?l ! nat i)) r = Inr e"
    and "checkpoint_matches c e" by (auto dest: matches_result_Inr)
  moreover have "\<exists>j. pc_payload e = Raw j"
    using e by (auto simp: new_action_result_checkpoint_def result_simps Let_def split: if_splits)
  moreover have v: "\<And>x. ar_error r = Some x \<Longrightarrow> error_valid x" using dec by (rule decode_result_valid)
  moreover have "\<exists>s''. load_kind s e = Inr s''"
    using load_new_result [of s "nat i" "aa_action_id (apr_actions ?l ! nat i)" r e] e ne k free v by auto
  ultimately show ?thesis unfolding built_def by blast
next
  case Final_Draft
  with assms obtain t where g: "\<not> has_incomplete_proposal (ls_prefix s)" "pc_decision_no c = ls_next s"
    and t: "decode_final (pc_payload c) = Some t" and m: "matches_result c (new_final_draft_checkpoint (ls_next s) t)"
    by (auto simp: load_kind_def load_final_def Let_def split: if_splits option.splits)
  then obtain e where e: "new_final_draft_checkpoint (ls_next s) t = Inr e"
    and "checkpoint_matches c e" by (auto dest: matches_result_Inr)
  moreover have "\<exists>j. pc_payload e = Raw j"
    using e by (auto simp: new_final_draft_checkpoint_def Let_def split: if_splits)
  ultimately show ?thesis
    using load_new_final [OF e g(1)] decode_final_valid [OF t] unfolding built_def by blast
next
  case Steering_Message
  with assms obtain mid t where g: "\<not> has_incomplete_proposal (ls_prefix s)" "pc_decision_no c = ls_next s"
    and t: "decode_steering (pc_payload c) = Some (mid, t)" and m: "matches_result c (new_steering_checkpoint (ls_next s) mid t)"
    and fresh: "\<not> list_ex (\<lambda>d. as_message_id d = mid) (cx_steering (ls_prefix s))"
    by (auto simp: load_kind_def load_steering_def Let_def split: if_splits option.splits)
  then obtain e where e: "new_steering_checkpoint (ls_next s) mid t = Inr e"
    and "checkpoint_matches c e" by (auto dest: matches_result_Inr)
  moreover have "\<exists>j. pc_payload e = Raw j"
    using e by (auto simp: new_steering_checkpoint_def Let_def split: if_splits)
  moreover have "mid \<notin> as_message_id ` set (cx_steering (ls_prefix s))" using fresh by (auto simp: list_ex_iff)
  ultimately show ?thesis
    using load_new_steering [OF e g(1) decode_steering_valid [OF t]] decode_steering_valid [OF t]
    unfolding built_def by blast
next
  case (Other_Kind k)
  with assms show ?thesis by (simp add: load_kind_def)
qed

end
