(* ===== verification/Checkpoint_Store.thy ===== *)
theory Checkpoint_Store
  imports Checkpoint_Rows
begin

text \<open>
  The durable checkpoint log of a Run (\<open>internal/agent/postgres_checkpoint_store.go\<close>) and the
  budget of its Agent Tree (\<open>agent/tree_budget.go\<close>). The state is what those transactions read
  and write of one Run: its status row, its job rows, its tree row and its checkpoint rows. A
  transaction holds the row locks, so each is one step. Two things are parameters: \<open>jsonb\<close>, the value
  PostgreSQL gives back for a JSON value stored in a \<open>jsonb\<close> column, and the faults of the
  connection: a transaction may fail before it takes effect, or commit and lose the acknowledgement.
  Trace rows and the notification that the same transaction writes are left out.
\<close>

section \<open>State\<close>

record attempt =
  at_job_id :: gostring
  at_run_id :: gostring
  at_attempt_no :: int
  at_lease_token :: gostring

record job_lease =
  jl_id :: gostring
  jl_status :: gostring
  jl_attempt_no :: int
  jl_lease_token :: gostring
  jl_expires_at :: "int option"

record agent_tree =
  tr_model_calls :: int
  tr_model_call_limit :: int
  tr_actions :: int
  tr_action_limit :: int
  tr_context_bytes :: int
  tr_context_byte_limit :: int
  tr_result_bytes :: int
  tr_result_byte_limit :: int
  tr_input_tokens :: int
  tr_cached_tokens :: int
  tr_output_tokens :: int
  tr_input_token_limit :: int

record run_store =
  rs_run_id :: gostring
  rs_status :: gostring
  rs_configured :: bool
  rs_output_empty :: bool
  rs_deadline :: "int option"
  rs_chat_member :: bool
  rs_studio_member :: bool
  rs_jobs :: "job_lease list"
  rs_tree :: "agent_tree option"
  rs_rows :: "checkpoint list"
  rs_now :: int

datatype store_error =
    Lease_Lost
  | Run_Deadline_Exceeded
  | Checkpoint_Invalid
  | Not_Authorized
  | Budget_Exhausted
  | Invalid_Charge
  | Database_Error
  | Joined store_error store_error

text \<open>\<open>errors.Is\<close> looks through a joined error.\<close>

fun error_is :: "store_error \<Rightarrow> store_error \<Rightarrow> bool" where
  "error_is (Joined a b) e \<longleftrightarrow> Joined a b = e \<or> error_is a e \<or> error_is b e"
| "error_is x e \<longleftrightarrow> x = e"

definition running :: gostring where "running = ''running''"

section \<open>Reading rows\<close>

definition canonical_stored_payload :: "pending_checkpoint \<Rightarrow> (store_error, raw) result" where
  "canonical_stored_payload c =
     (case expected_stored c of
        Some (Inr e) \<Rightarrow> Inr (pc_payload e)
      | _ \<Rightarrow> Inl Checkpoint_Invalid)"

definition scan_checkpoint :: "checkpoint \<Rightarrow> (store_error, checkpoint) result" where
  "scan_checkpoint row =
     bind_result (canonical_stored_payload (cp_pending row)) (\<lambda>payload.
       Inr (row\<lparr>cp_pending := (cp_pending row)\<lparr>pc_payload := payload\<rparr>\<rparr>))"

fun scan_rows :: "checkpoint list \<Rightarrow> (store_error, checkpoint list) result" where
  "scan_rows [] = Inr []"
| "scan_rows (row # rows) =
     bind_result (scan_checkpoint row) (\<lambda>c. bind_result (scan_rows rows) (\<lambda>cs. Inr (c # cs)))"

definition load_run_checkpoints :: "run_store \<Rightarrow> (store_error, checkpoint list) result" where
  "load_run_checkpoints s = scan_rows (sort_key cp_sequence_no (rs_rows s))"

definition load_run_checkpoints_before :: "run_store \<Rightarrow> int \<Rightarrow> (store_error, checkpoint list) result" where
  "load_run_checkpoints_before s n =
     scan_rows (filter (\<lambda>row. pc_decision_no (cp_pending row) < n) (sort_key cp_sequence_no (rs_rows s)))"

definition checkpoint_by_identity :: "run_store \<Rightarrow> gostring \<Rightarrow> (store_error, checkpoint option) result" where
  "checkpoint_by_identity s key =
     (case find (\<lambda>row. pc_identity_key (cp_pending row) = key) (rs_rows s) of
        None \<Rightarrow> Inr None
      | Some row \<Rightarrow> bind_result (scan_checkpoint row) (\<lambda>c. Inr (Some c)))"

definition load_valid :: "checkpoint list \<Rightarrow> (store_error, checkpoint_prefix) result" where
  "load_valid cs = (case load_checkpoint_prefix cs of Inl _ \<Rightarrow> Inl Checkpoint_Invalid | Inr p \<Rightarrow> Inr p)"

section \<open>Authority\<close>

definition find_job :: "run_store \<Rightarrow> attempt \<Rightarrow> job_lease option" where
  "find_job s a =
     (if rs_run_id s \<noteq> at_run_id a then None
      else find (\<lambda>j. jl_id j = at_job_id a \<and> jl_lease_token j = at_lease_token a
                     \<and> jl_attempt_no j = at_attempt_no a) (rs_jobs s))"

definition lease_valid :: "run_store \<Rightarrow> job_lease \<Rightarrow> bool" where
  "lease_valid s j = (case jl_expires_at j of None \<Rightarrow> False | Some t \<Rightarrow> t > rs_now s)"

text \<open>A null deadline makes the comparison null, which does not scan into a Go bool.\<close>

definition lock_checkpoint_authority :: "run_store \<Rightarrow> attempt \<Rightarrow> store_error option" where
  "lock_checkpoint_authority s a =
     (case find_job s a of
        None \<Rightarrow> Some Lease_Lost
      | Some j \<Rightarrow>
          (case rs_deadline s of
             None \<Rightarrow> Some Database_Error
           | Some d \<Rightarrow>
               if rs_status s \<noteq> running \<or> jl_status j \<noteq> running \<or> \<not> rs_output_empty s \<or> \<not> lease_valid s j
               then Some Lease_Lost
               else if \<not> d > rs_now s then Some Run_Deadline_Exceeded
               else if \<not> (rs_chat_member s \<or> rs_studio_member s) then Some Not_Authorized
               else None))"

section \<open>The budget of the Agent Tree\<close>

record tree_charge =
  ch_model_calls :: int
  ch_actions :: int
  ch_context_bytes :: int
  ch_result_bytes :: int

definition no_charge :: tree_charge where
  "no_charge = \<lparr>ch_model_calls = 0, ch_actions = 0, ch_context_bytes = 0, ch_result_bytes = 0\<rparr>"

definition charge_configured_tree :: "tree_charge \<Rightarrow> run_store \<Rightarrow> (store_error, run_store) result" where
  "charge_configured_tree c s =
     (if rs_run_id s = [] \<or> ch_model_calls c < 0 \<or> ch_actions c < 0 \<or> ch_context_bytes c < 0 \<or> ch_result_bytes c < 0
      then Inl Invalid_Charge
      else if c = no_charge then Inr s
      else if \<not> rs_configured s then Inr s
      else (case rs_tree s of
          None \<Rightarrow> Inl Budget_Exhausted
        | Some t \<Rightarrow>
            if tr_context_bytes t + ch_context_bytes c \<le> tr_context_byte_limit t
               \<and> tr_result_bytes t + ch_result_bytes c \<le> tr_result_byte_limit t
            then Inr (s\<lparr>rs_tree := Some (t\<lparr>
                tr_model_calls := min (tr_model_calls t + ch_model_calls c) (tr_model_call_limit t),
                tr_actions := min (tr_actions t + ch_actions c) (tr_action_limit t),
                tr_context_bytes := tr_context_bytes t + ch_context_bytes c,
                tr_result_bytes := tr_result_bytes t + ch_result_bytes c\<rparr>)\<rparr>)
            else Inl Budget_Exhausted))"

definition usage_count :: "int option \<Rightarrow> int" where
  "usage_count v = (case v of None \<Rightarrow> 0 | Some n \<Rightarrow> if n < 0 then 0 else n)"

definition record_model_usage :: "int option \<Rightarrow> int option \<Rightarrow> int option \<Rightarrow> run_store \<Rightarrow> run_store" where
  "record_model_usage input cached out s =
     (let i = usage_count input; c = usage_count cached; o' = usage_count out in
      if i = 0 \<and> o' = 0 then s
      else s\<lparr>rs_tree := map_option (\<lambda>t. t\<lparr>tr_input_tokens := tr_input_tokens t + i,
             tr_cached_tokens := tr_cached_tokens t + c, tr_output_tokens := tr_output_tokens t + o'\<rparr>) (rs_tree s)\<rparr>)"

definition model_budget_exhausted :: "run_store \<Rightarrow> bool" where
  "model_budget_exhausted s =
     (case rs_tree s of
        None \<Rightarrow> False
      | Some t \<Rightarrow>
          (tr_model_calls t \<ge> tr_model_call_limit t \<or> tr_actions t \<ge> tr_action_limit t)
          \<or> (tr_input_token_limit t > 0 \<and> tr_input_tokens t \<ge> tr_input_token_limit t))"

section \<open>Appending\<close>

datatype fault = No_Fault | Fault_Before_Commit | Acknowledgement_Lost

definition checkpoint_charge :: "checkpoint_kind \<Rightarrow> tree_charge" where
  "checkpoint_charge k =
     (case k of
        Action_Proposal \<Rightarrow> no_charge\<lparr>ch_model_calls := 1\<rparr>
      | Final_Draft \<Rightarrow> no_charge\<lparr>ch_model_calls := 1\<rparr>
      | Action_Result \<Rightarrow> no_charge\<lparr>ch_actions := 1\<rparr>
      | _ \<Rightarrow> no_charge)"

text \<open>The column \<open>payload\<close> is \<open>jsonb\<close>: a value is stored in the database's own normal form.\<close>

fun stored_payload :: "(json \<Rightarrow> json) \<Rightarrow> raw \<Rightarrow> raw" where
  "stored_payload jsonb (Raw j) = Raw (jsonb j)"
| "stored_payload jsonb r = r"

definition stored_row :: "(json \<Rightarrow> json) \<Rightarrow> checkpoint \<Rightarrow> checkpoint" where
  "stored_row jsonb c = c\<lparr>cp_pending := (cp_pending c)\<lparr>pc_payload := stored_payload jsonb (pc_payload (cp_pending c))\<rparr>\<rparr>"

definition append_tx ::
  "(json \<Rightarrow> json) \<Rightarrow> attempt \<Rightarrow> pending_checkpoint \<Rightarrow> run_store \<Rightarrow> (store_error, run_store \<times> checkpoint) result" where
  "append_tx jsonb a pending s =
     (case lock_checkpoint_authority s a of
        Some e \<Rightarrow> Inl e
      | None \<Rightarrow>
          bind_result (load_run_checkpoints s) (\<lambda>cs.
          bind_result (load_valid cs) (\<lambda>_.
            case find (\<lambda>x. pc_identity_key (cp_pending x) = pc_identity_key pending) cs of
              Some existing \<Rightarrow>
                if \<not> checkpoint_matches (cp_pending existing) pending then Inl Checkpoint_Invalid
                else Inr (s, existing)
            | None \<Rightarrow>
                let c = \<lparr>cp_sequence_no = int (length cs) + 1, cp_pending = pending\<rparr> in
                bind_result (load_valid (cs @ [c])) (\<lambda>_.
                bind_result (charge_configured_tree (checkpoint_charge (pc_kind pending))
                               (s\<lparr>rs_rows := rs_rows s @ [stored_row jsonb c]\<rparr>)) (\<lambda>s'.
                  Inr (s', c))))))"

definition append_checkpoint_once ::
  "(json \<Rightarrow> json) \<Rightarrow> fault \<Rightarrow> attempt \<Rightarrow> pending_checkpoint \<Rightarrow> run_store \<Rightarrow> run_store \<times> (store_error, checkpoint) result" where
  "append_checkpoint_once jsonb f a pending s =
     (if f = Fault_Before_Commit then (s, Inl Database_Error)
      else (case append_tx jsonb a pending s of
          Inl e \<Rightarrow> (s, Inl e)
        | Inr (s', c) \<Rightarrow> (s', if f = Acknowledgement_Lost \<and> s' \<noteq> s then Inl Database_Error else Inr c)))"

datatype reconcile_state = Reconcile_Lost | Reconcile_Current | Reconcile_Matched checkpoint | Reconcile_Deadline

text \<open>
  The reconciling query asks for chat membership only, while \<open>lock_checkpoint_authority\<close> also
  accepts a Studio output.
\<close>

definition reconcile_checkpoint ::
  "bool \<Rightarrow> attempt \<Rightarrow> pending_checkpoint \<Rightarrow> run_store \<Rightarrow> (store_error, reconcile_state) result" where
  "reconcile_checkpoint broken a pending s =
     (if broken then Inl Database_Error
      else bind_result (checkpoint_by_identity s (pc_identity_key pending)) (\<lambda>found.
        case found of
          Some c \<Rightarrow>
            if \<not> checkpoint_matches (cp_pending c) pending then Inl Checkpoint_Invalid
            else Inr (Reconcile_Matched c)
        | None \<Rightarrow>
            (case find_job s a of
               None \<Rightarrow> Inr Reconcile_Lost
             | Some j \<Rightarrow>
                 (case rs_deadline s of
                    None \<Rightarrow> Inl Database_Error
                  | Some d \<Rightarrow>
                      let active = rs_status s = running \<and> jl_status j = running \<and> rs_output_empty s \<and> rs_chat_member s in
                      if active \<and> \<not> d > rs_now s then Inr Reconcile_Deadline
                      else if active \<and> lease_valid s j then Inr Reconcile_Current
                      else Inr Reconcile_Lost))))"

text \<open>
  What happens around one try: the database may change before it (other transactions) and between
  it and the reconciliation, and each of the two transactions may fail.
\<close>

record try_env =
  te_before :: "run_store \<Rightarrow> run_store"
  te_fault :: fault
  te_between :: "run_store \<Rightarrow> run_store"
  te_cancelled :: bool
  te_broken :: bool

fun append_tries ::
  "(json \<Rightarrow> json) \<Rightarrow> attempt \<Rightarrow> pending_checkpoint \<Rightarrow> store_error \<Rightarrow> try_env list \<Rightarrow> run_store
     \<Rightarrow> run_store \<times> (store_error, checkpoint) result" where
  "append_tries jsonb a pending err [] s = (s, Inl err)"
| "append_tries jsonb a pending err (e # es) s =
     (case append_checkpoint_once jsonb (te_fault e) a pending (te_before e s) of
        (s', Inr c) \<Rightarrow> (s', Inr c)
      | (s', Inl x) \<Rightarrow>
          if error_is x Lease_Lost \<or> error_is x Run_Deadline_Exceeded \<or> error_is x Checkpoint_Invalid \<or> te_cancelled e
          then (s', Inl x)
          else
            let s'' = te_between e s' in
            (case reconcile_checkpoint (te_broken e) a pending s'' of
               Inl y \<Rightarrow> (s'', Inl (Joined x y))
             | Inr (Reconcile_Matched c) \<Rightarrow> (s'', Inr c)
             | Inr Reconcile_Lost \<Rightarrow> (s'', Inl Lease_Lost)
             | Inr Reconcile_Deadline \<Rightarrow> (s'', Inl Run_Deadline_Exceeded)
             | Inr Reconcile_Current \<Rightarrow> append_tries jsonb a pending x es s''))"

definition append_checkpoint ::
  "(json \<Rightarrow> json) \<Rightarrow> attempt \<Rightarrow> pending_checkpoint \<Rightarrow> try_env \<Rightarrow> try_env \<Rightarrow> run_store
     \<Rightarrow> run_store \<times> (store_error, checkpoint) result" where
  "append_checkpoint jsonb a pending e1 e2 s = append_tries jsonb a pending Database_Error [e1, e2] s"

definition load_prefix_tx :: "attempt \<Rightarrow> run_store \<Rightarrow> (store_error, checkpoint_prefix) result" where
  "load_prefix_tx a s =
     (case lock_checkpoint_authority s a of
        Some e \<Rightarrow> Inl e
      | None \<Rightarrow> bind_result (load_run_checkpoints s) load_valid)"

definition check_authority :: "attempt \<Rightarrow> run_store \<Rightarrow> store_error option" where
  "check_authority a s = lock_checkpoint_authority s a"

section \<open>The log that the rows stand for\<close>

text \<open>Row \<open>r\<close> stores the built checkpoint \<open>c\<close> up to the spelling of its payload.\<close>

definition row_of :: "checkpoint \<Rightarrow> checkpoint \<Rightarrow> bool" where
  "row_of c r \<longleftrightarrow>
     built (cp_pending c) \<and> cp_sequence_no r = cp_sequence_no c
     \<and> (\<exists>i j. pc_payload (cp_pending c) = Raw i \<and> same_value i j \<and> cp_pending r = (cp_pending c)\<lparr>pc_payload := Raw j\<rparr>)"

definition log_rep :: "checkpoint list \<Rightarrow> run_store \<Rightarrow> bool" where
  "log_rep cs s \<longleftrightarrow> list_all2 row_of cs (rs_rows s) \<and> (\<exists>p. load_checkpoint_prefix cs = Inr p)"

lemma built_raw: "built e \<Longrightarrow> \<exists>j. pc_payload e = Raw j"
  unfolding built_def
  by (auto simp: new_proposal_checkpoint_def new_action_result_checkpoint_def new_final_draft_checkpoint_def
      new_steering_checkpoint_def result_simps Let_def split: if_split_asm)

lemma scan_row: "row_of c r \<Longrightarrow> scan_checkpoint r = Inr c"
proof -
  assume "row_of c r"
  then obtain i j where b: "built (cp_pending c)" and n: "cp_sequence_no r = cp_sequence_no c"
    and i: "pc_payload (cp_pending c) = Raw i" and j: "same_value i j"
    and r: "cp_pending r = (cp_pending c)\<lparr>pc_payload := Raw j\<rparr>"
    by (auto simp: row_of_def)
  from expected_built [OF b i j] have "canonical_stored_payload (cp_pending r) = Inr (Raw i)"
    by (simp add: canonical_stored_payload_def r i)
  with n r i show ?thesis by (cases r; cases c) (auto simp: scan_checkpoint_def)
qed

lemma scan_rows_rep: "list_all2 row_of cs rs \<Longrightarrow> scan_rows rs = Inr cs"
  by (induction rule: list_all2_induct) (simp_all add: scan_row)

lemma load_run_sequence: "load_run cs = Inr s \<Longrightarrow> map cp_sequence_no cs = map int [1..<Suc (length cs)]"
proof (induction cs arbitrary: s rule: rev_induct)
  case Nil
  then show ?case by simp
next
  case (snoc c cs)
  then obtain t where t: "load_run cs = Inr t" and "load_step t c = Inr s"
    by (auto simp: load_run_snoc result_simps)
  then have "cp_sequence_no c = int (length cs) + 1"
    using load_run_position [OF t] by (auto simp: load_step_def split: if_splits)
  with snoc.IH [OF t] show ?case by simp
qed

lemma rep_sequence: "list_all2 row_of cs rs \<Longrightarrow> map cp_sequence_no rs = map cp_sequence_no cs"
  by (induction rule: list_all2_induct) (simp_all add: row_of_def)

lemma sorted_ints: "sorted (map int [a..<b])"
  by (auto simp: sorted_iff_nth_mono)

lemma load_rows_rep:
  assumes "log_rep cs s"
  shows "load_run_checkpoints s = Inr cs"
proof -
  from assms obtain t where t: "load_run cs = Inr t" by (auto simp: log_rep_def load_prefix_state)
  from assms have "map cp_sequence_no (rs_rows s) = map cp_sequence_no cs"
    by (intro rep_sequence) (simp add: log_rep_def)
  also have "\<dots> = map int [1..<Suc (length cs)]" using t by (rule load_run_sequence)
  finally have "map cp_sequence_no (rs_rows s) = map int [1..<Suc (length cs)]" .
  then have "sorted (map cp_sequence_no (rs_rows s))" using sorted_ints by metis
  then have "sort_key cp_sequence_no (rs_rows s) = rs_rows s" by (rule sort_key_id_if_sorted)
  with assms show ?thesis by (simp add: load_run_checkpoints_def log_rep_def scan_rows_rep)
qed

lemma load_valid_iff: "load_valid cs = Inr p \<longleftrightarrow> load_checkpoint_prefix cs = Inr p"
  by (simp add: load_valid_def split: sum.splits)

text \<open>Charging the tree touches nothing but the tree row.\<close>

lemma charge_rows: "charge_configured_tree ch s = Inr s' \<Longrightarrow> s' = s\<lparr>rs_tree := rs_tree s'\<rparr>"
  by (auto simp: charge_configured_tree_def split: if_splits option.splits)

definition jsonb_faithful :: "(json \<Rightarrow> json) \<Rightarrow> bool" where
  "jsonb_faithful jsonb \<longleftrightarrow> (\<forall>j. same_value j (jsonb j))"

lemma append_rep:
  assumes rep: "log_rep cs s" and jb: "jsonb_faithful jsonb"
    and run: "append_tx jsonb a pending s = Inr (s', c)"
  shows "(s' = s \<and> c \<in> set cs \<and> checkpoint_matches (cp_pending c) pending)
    \<or> (\<exists>e. log_rep (cs @ [\<lparr>cp_sequence_no = int (length cs) + 1, cp_pending = e\<rparr>]) s'
          \<and> rs_rows s' = rs_rows s @ [stored_row jsonb c]
          \<and> built e \<and> checkpoint_matches pending e \<and> c = \<lparr>cp_sequence_no = int (length cs) + 1, cp_pending = pending\<rparr>
          \<and> charge_configured_tree (checkpoint_charge (pc_kind pending)) (s\<lparr>rs_rows := rs_rows s'\<rparr>) = Inr s')"
proof -
  from run have auth: "lock_checkpoint_authority s a = None"
    by (auto simp: append_tx_def split: option.splits)
  show ?thesis
  proof (cases "find (\<lambda>x. pc_identity_key (cp_pending x) = pc_identity_key pending) cs")
    case (Some x)
    with run auth rep show ?thesis
      by (auto simp: append_tx_def load_rows_rep result_simps find_Some_iff split: if_splits)
  next
    case None
    let ?c = "\<lparr>cp_sequence_no = int (length cs) + 1, cp_pending = pending\<rparr>"
    from None run auth rep have c: "c = ?c" and ok: "\<exists>p. load_valid (cs @ [?c]) = Inr p"
      and ch: "charge_configured_tree (checkpoint_charge (pc_kind pending)) (s\<lparr>rs_rows := rs_rows s @ [stored_row jsonb ?c]\<rparr>) = Inr s'"
      by (auto simp: append_tx_def load_rows_rep result_simps Let_def)
    from ok obtain t u where t: "load_run cs = Inr t" and u: "load_step t ?c = Inr u"
      by (auto simp: load_valid_iff load_prefix_state load_run_snoc result_simps)
    then obtain v where "load_kind t pending = Inr v"
      by (auto simp: load_step_def result_simps split: if_splits)
    from accepted_built [OF this] obtain e j w where e: "built e" "pc_payload e = Raw j" "checkpoint_matches pending e"
      and w: "load_kind t e = Inr w" by blast
    from matches_fields [OF e(3,2)] obtain i where i: "pc_payload pending = Raw i" "same_value i j"
      "pending = e\<lparr>pc_payload := Raw i\<rparr>" by blast
    have "same_value j (jsonb i)"
      using i(2) jb by (auto simp: same_value_def jsonb_faithful_def)
    then have row: "row_of \<lparr>cp_sequence_no = int (length cs) + 1, cp_pending = e\<rparr> (stored_row jsonb ?c)"
      using e i by (auto simp: row_of_def stored_row_def)
    have rows: "rs_rows s' = rs_rows s @ [stored_row jsonb ?c]"
      using charge_rows [OF ch] by (cases s') (auto dest: arg_cong [of _ _ rs_rows])
    have "\<exists>p. load_checkpoint_prefix (cs @ [\<lparr>cp_sequence_no = int (length cs) + 1, cp_pending = e\<rparr>]) = Inr p"
      using t u w load_run_position [OF t]
      by (auto simp: load_prefix_state load_run_snoc load_step_def split: if_splits)
    with rep rows row have "log_rep (cs @ [\<lparr>cp_sequence_no = int (length cs) + 1, cp_pending = e\<rparr>]) s'"
      by (simp add: log_rep_def list_all2_appendI)
    with c rows e ch show ?thesis by auto
  qed
qed

end
