(* ===== verification/Checkpoint_Log.thy ===== *)
theory Checkpoint_Log
  imports Checkpoint_Store
begin

text \<open>
  What the durable checkpoint log promises: appends take effect at most once, rows are immutable and
  always load, budgets stay within the limits of the Agent Tree, and an attempt without its lease
  changes nothing. The store's commands interpret the two interfaces of theory \<open>Prelude\<close>.
\<close>

section \<open>At most once\<close>

definition has_key :: "gostring \<Rightarrow> checkpoint list \<Rightarrow> bool" where
  "has_key k cs \<longleftrightarrow> (\<exists>c \<in> set cs. pc_identity_key (cp_pending c) = k)"

text \<open>The log after an append of \<open>pending\<close>: unchanged, or with one new entry for a new key.\<close>

definition grows_by :: "pending_checkpoint \<Rightarrow> checkpoint list \<Rightarrow> checkpoint list \<Rightarrow> bool" where
  "grows_by pending cs cs' \<longleftrightarrow>
     cs' = cs
     \<or> (\<not> has_key (pc_identity_key pending) cs
        \<and> (\<exists>e. cs' = cs @ [\<lparr>cp_sequence_no = int (length cs) + 1, cp_pending = e\<rparr>] \<and> built e \<and> checkpoint_matches pending e))"

definition recorded :: "pending_checkpoint \<Rightarrow> checkpoint \<Rightarrow> checkpoint list \<Rightarrow> bool" where
  "recorded pending c cs \<longleftrightarrow>
     (\<exists>x \<in> set cs. cp_sequence_no x = cp_sequence_no c \<and> checkpoint_matches (cp_pending x) pending)"

lemma matches_sym:
  assumes "checkpoint_matches c e" and "pc_payload e = Raw j"
  shows "checkpoint_matches e c"
proof -
  from matches_fields [OF assms] obtain i where "pc_payload c = Raw i" "same_value i j" "c = e\<lparr>pc_payload := Raw i\<rparr>" by blast
  with assms(2) show ?thesis by (cases e) (auto simp: checkpoint_matches_def same_value_def)
qed

lemma find_None_key: "find (\<lambda>x. pc_identity_key (cp_pending x) = k) cs = None \<longleftrightarrow> \<not> has_key k cs"
  by (auto simp: find_None_iff has_key_def)

lemma append_tx_cases:
  assumes rep: "log_rep cs s" and jb: "jsonb_faithful jsonb" and run: "append_tx jsonb a pending s = Inr (s', c)"
  shows "\<exists>cs'. log_rep cs' s' \<and> grows_by pending cs cs' \<and> recorded pending c cs'
    \<and> has_key (pc_identity_key pending) cs' \<and> prefix (rs_rows s) (rs_rows s') \<and> (s' \<noteq> s \<longrightarrow> cs' \<noteq> cs)"
proof -
  consider "s' = s" "c \<in> set cs" "checkpoint_matches (cp_pending c) pending"
    | e where "log_rep (cs @ [\<lparr>cp_sequence_no = int (length cs) + 1, cp_pending = e\<rparr>]) s'"
       "rs_rows s' = rs_rows s @ [stored_row jsonb c]"
       "built e" "checkpoint_matches pending e" "c = \<lparr>cp_sequence_no = int (length cs) + 1, cp_pending = pending\<rparr>"
    using append_rep [OF rep jb run] by blast
  then show ?thesis
  proof cases
    case 1
    then have "pc_identity_key (cp_pending c) = pc_identity_key pending"
      by (auto simp: checkpoint_matches_def split: if_splits)
    with 1 rep show ?thesis
      by (intro exI [of _ cs]) (auto simp: grows_by_def recorded_def has_key_def)
  next
    case (2 e)
    let ?x = "\<lparr>cp_sequence_no = int (length cs) + 1, cp_pending = e\<rparr>"
    from 2 obtain j where j: "pc_payload e = Raw j" using built_raw by blast
    have key: "pc_identity_key e = pc_identity_key pending"
      using 2(4) by (auto simp: checkpoint_matches_def split: if_splits)
    have new: "\<not> has_key (pc_identity_key pending) cs"
    proof
      assume "has_key (pc_identity_key pending) cs"
      then obtain x where f: "find (\<lambda>x. pc_identity_key (cp_pending x) = pc_identity_key pending) cs = Some x"
        using find_None_key by (metis not_None_eq)
      have "lock_checkpoint_authority s a = None" using run by (auto simp: append_tx_def split: option.splits)
      with f run rep have "s' = s"
        by (auto simp: append_tx_def load_rows_rep result_simps split: if_splits)
      with 2(2) show False by simp
    qed
    from 2 j key new matches_sym [OF 2(4) j] show ?thesis
      by (intro exI [of _ "cs @ [?x]"]) (auto simp: grows_by_def recorded_def has_key_def)
  qed
qed

lemma append_once_cases:
  assumes rep: "log_rep cs s" and jb: "jsonb_faithful jsonb" and run: "append_checkpoint_once jsonb f a pending s = (s', r)"
  shows "\<exists>cs'. log_rep cs' s' \<and> grows_by pending cs cs' \<and> (\<forall>c. r = Inr c \<longrightarrow> recorded pending c cs')
    \<and> (cs' \<noteq> cs \<longrightarrow> has_key (pc_identity_key pending) cs')"
proof (cases "f = Fault_Before_Commit")
  case True
  with run rep show ?thesis by (intro exI [of _ cs]) (auto simp: append_checkpoint_once_def grows_by_def)
next
  case False
  show ?thesis
  proof (cases "append_tx jsonb a pending s")
    case (Inl x)
    with False run rep show ?thesis by (intro exI [of _ cs]) (auto simp: append_checkpoint_once_def grows_by_def)
  next
    case (Inr y)
    then obtain t c where y: "append_tx jsonb a pending s = Inr (t, c)" by (cases y) auto
    from append_tx_cases [OF rep jb y] False run y show ?thesis
      by (auto simp: append_checkpoint_once_def split: if_splits)
  qed
qed

definition keeps_rows :: "(run_store \<Rightarrow> run_store) \<Rightarrow> bool" where
  "keeps_rows f \<longleftrightarrow> (\<forall>s. rs_rows (f s) = rs_rows s)"

lemma log_rep_keep: "keeps_rows f \<Longrightarrow> log_rep cs (f s) = log_rep cs s"
  by (simp add: log_rep_def keeps_rows_def)

lemma rep_keys: "list_all2 row_of cs rs \<Longrightarrow>
   rel_option row_of (find (\<lambda>x. pc_identity_key (cp_pending x) = k) cs) (find (\<lambda>x. pc_identity_key (cp_pending x) = k) rs)"
  by (induction rule: list_all2_induct) (auto simp: row_of_def)

lemma by_identity_rep:
  assumes "log_rep cs s"
  shows "checkpoint_by_identity s k = Inr (find (\<lambda>x. pc_identity_key (cp_pending x) = k) cs)"
proof -
  from assms have "rel_option row_of (find (\<lambda>x. pc_identity_key (cp_pending x) = k) cs)
      (find (\<lambda>x. pc_identity_key (cp_pending x) = k) (rs_rows s))"
    by (intro rep_keys) (simp add: log_rep_def)
  then show ?thesis
    by (auto simp: checkpoint_by_identity_def option_rel_Some1 scan_row split: option.splits elim!: option.rel_cases)
qed

lemma reconcile_rep:
  assumes rep: "log_rep cs s" and run: "reconcile_checkpoint broken a pending s = Inr st"
  shows "(\<forall>c. st = Reconcile_Matched c \<longrightarrow> recorded pending c cs) \<and> (st = Reconcile_Current \<longrightarrow> \<not> has_key (pc_identity_key pending) cs)"
proof (cases "find (\<lambda>x. pc_identity_key (cp_pending x) = pc_identity_key pending) cs")
  case None
  then have "\<not> has_key (pc_identity_key pending) cs" by (rule find_None_key [THEN iffD1])
  moreover have "st \<noteq> Reconcile_Matched c" for c
    using run rep None by (auto simp: reconcile_checkpoint_def by_identity_rep Let_def split: if_splits option.splits)
  ultimately show ?thesis by simp
next
  case (Some x)
  then have "x \<in> set cs" by (auto simp: find_Some_iff)
  moreover have "st = Reconcile_Matched x \<and> checkpoint_matches (cp_pending x) pending"
    using run rep Some by (auto simp: reconcile_checkpoint_def by_identity_rep split: if_splits)
  ultimately show ?thesis by (auto simp: recorded_def)
qed

lemma append_tries_cases:
  assumes "jsonb_faithful jsonb" and "\<forall>e \<in> set es. keeps_rows (te_before e) \<and> keeps_rows (te_between e)"
    and "log_rep cs s" and "append_tries jsonb a pending x es s = (s', r)"
  shows "\<exists>cs'. log_rep cs' s' \<and> grows_by pending cs cs' \<and> (\<forall>c. r = Inr c \<longrightarrow> recorded pending c cs')"
  using assms(2-)
proof (induction es arbitrary: s x)
  case Nil
  then show ?case by (intro exI [of _ cs]) (auto simp: grows_by_def)
next
  case (Cons e es)
  let ?s = "te_before e s"
  have k: "keeps_rows (te_before e)" "keeps_rows (te_between e)" using Cons.prems(1) by auto
  have rep: "log_rep cs ?s" using Cons.prems(2) k by (simp add: log_rep_keep)
  obtain t q where t: "append_checkpoint_once jsonb (te_fault e) a pending ?s = (t, q)" by fastforce
  from append_once_cases [OF rep assms(1) t] obtain cs1 where cs1: "log_rep cs1 t" "grows_by pending cs cs1"
    "\<forall>c. q = Inr c \<longrightarrow> recorded pending c cs1" "cs1 \<noteq> cs \<longrightarrow> has_key (pc_identity_key pending) cs1" by blast
  show ?case
  proof (cases q)
    case (Inr c)
    with Cons.prems(3) t cs1 show ?thesis by auto
  next
    case (Inl y)
    let ?u = "te_between e t"
    have u: "log_rep cs1 ?u" using cs1(1) k by (simp add: log_rep_keep)
    show ?thesis
    proof (cases "error_is y Lease_Lost \<or> error_is y Run_Deadline_Exceeded \<or> error_is y Checkpoint_Invalid \<or> te_cancelled e")
      case True
      with Cons.prems(3) t Inl cs1 show ?thesis by auto
    next
      case False
      note step = Cons.prems(3) t Inl False
      show ?thesis
      proof (cases "reconcile_checkpoint (te_broken e) a pending ?u")
        case (Inl z)
        with step u cs1 show ?thesis by (auto simp: Let_def)
      next
        case (Inr st)
        from reconcile_rep [OF u Inr] have st: "\<forall>c. st = Reconcile_Matched c \<longrightarrow> recorded pending c cs1"
          "st = Reconcile_Current \<longrightarrow> \<not> has_key (pc_identity_key pending) cs1" by blast+
        show ?thesis
        proof (cases st)
          case Reconcile_Current
          with st cs1(4) have "cs1 = cs" by blast
          with u have "log_rep cs ?u" by simp
          moreover have "append_tries jsonb a pending y es ?u = (s', r)"
            using step Inr Reconcile_Current by (simp add: Let_def)
          ultimately show ?thesis using Cons.IH Cons.prems(1) by simp
        qed (use step Inr st u cs1 in \<open>auto simp: Let_def\<close>)
      qed
    qed
  qed
qed

section \<open>The store as a transition system\<close>

datatype store_command =
    Try_Append attempt pending_checkpoint fault
  | Use_Tokens "int option" "int option" "int option"
  | Set_Run gostring bool "int option" bool bool
  | Set_Jobs "job_lease list"
  | Set_Clock int

fun store_exec :: "(json \<Rightarrow> json) \<times> run_store \<Rightarrow> store_command \<Rightarrow> (json \<Rightarrow> json) \<times> run_store" where
  "store_exec (jb, s) (Try_Append a c f) = (jb, fst (append_checkpoint_once jb f a c s))"
| "store_exec (jb, s) (Use_Tokens i c out) = (jb, record_model_usage i c out s)"
| "store_exec (jb, s) (Set_Run st em d m1 m2) =
     (jb, s\<lparr>rs_status := st, rs_output_empty := em, rs_deadline := d, rs_chat_member := m1, rs_studio_member := m2\<rparr>)"
| "store_exec (jb, s) (Set_Jobs js) = (jb, s\<lparr>rs_jobs := js\<rparr>)"
| "store_exec (jb, s) (Set_Clock t) = (jb, s\<lparr>rs_now := t\<rparr>)"

definition tree_ok :: "agent_tree \<Rightarrow> bool" where
  "tree_ok t \<longleftrightarrow>
     0 \<le> tr_model_calls t \<and> tr_model_calls t \<le> tr_model_call_limit t
     \<and> 0 \<le> tr_actions t \<and> tr_actions t \<le> tr_action_limit t
     \<and> 0 \<le> tr_context_bytes t \<and> tr_context_bytes t \<le> tr_context_byte_limit t
     \<and> 0 \<le> tr_result_bytes t \<and> tr_result_bytes t \<le> tr_result_byte_limit t
     \<and> 0 \<le> tr_input_tokens t \<and> 0 \<le> tr_cached_tokens t \<and> 0 \<le> tr_output_tokens t"

definition store_ok :: "(json \<Rightarrow> json) \<times> run_store \<Rightarrow> bool" where
  "store_ok = (\<lambda>(jb, s). jsonb_faithful jb \<and> (\<exists>cs. log_rep cs s) \<and> (case rs_tree s of None \<Rightarrow> True | Some t \<Rightarrow> tree_ok t))"

definition store_start :: "(json \<Rightarrow> json) \<times> run_store \<Rightarrow> bool" where
  "store_start = (\<lambda>(jb, s). jsonb_faithful jb \<and> rs_rows s = [] \<and> (case rs_tree s of None \<Rightarrow> True | Some t \<Rightarrow> tree_ok t))"

lemma charge_tree_ok:
  assumes "charge_configured_tree ch s = Inr s'" and "case rs_tree s of None \<Rightarrow> True | Some t \<Rightarrow> tree_ok t"
  shows "case rs_tree s' of None \<Rightarrow> True | Some t \<Rightarrow> tree_ok t"
  using assms by (auto simp: charge_configured_tree_def tree_ok_def split: if_splits option.splits)

lemma append_tx_changed:
  assumes "append_tx jb a c s = Inr (s', x)" and "s' \<noteq> s"
  shows "\<exists>r. charge_configured_tree (checkpoint_charge (pc_kind c)) (s\<lparr>rs_rows := rs_rows s @ [r]\<rparr>) = Inr s'"
proof -
  from assms(1) have "lock_checkpoint_authority s a = None"
    by (auto simp: append_tx_def split: option.splits)
  with assms(1) obtain cs where run: "bind_result (load_valid cs) (\<lambda>_.
            case find (\<lambda>x. pc_identity_key (cp_pending x) = pc_identity_key c) cs of
              Some existing \<Rightarrow>
                if \<not> checkpoint_matches (cp_pending existing) c then Inl Checkpoint_Invalid
                else Inr (s, existing)
            | None \<Rightarrow>
                let n = \<lparr>cp_sequence_no = int (length cs) + 1, cp_pending = c\<rparr> in
                bind_result (load_valid (cs @ [n])) (\<lambda>_.
                bind_result (charge_configured_tree (checkpoint_charge (pc_kind c))
                               (s\<lparr>rs_rows := rs_rows s @ [stored_row jb n]\<rparr>)) (\<lambda>s'.
                  Inr (s', n)))) = Inr (s', x)"
    by (auto simp: append_tx_def bind_result_Inr_conv)
  show ?thesis
  proof (cases "find (\<lambda>x. pc_identity_key (cp_pending x) = pc_identity_key c) cs")
    case None
    with run show ?thesis by (auto simp: bind_result_Inr_conv Let_def)
  next
    case (Some e)
    with run assms(2) show ?thesis by (auto simp: bind_result_Inr_conv split: if_splits)
  qed
qed

lemma append_once_state:
  "fst (append_checkpoint_once jb f a c s) = s
   \<or> (\<exists>r. charge_configured_tree (checkpoint_charge (pc_kind c)) (s\<lparr>rs_rows := rs_rows s @ [r]\<rparr>)
          = Inr (fst (append_checkpoint_once jb f a c s)))"
proof (cases "append_tx jb a c s")
  case (Inl e)
  then show ?thesis by (simp add: append_checkpoint_once_def)
next
  case (Inr y)
  obtain s' x where y: "y = (s', x)" by (cases y)
  show ?thesis
  proof (cases "s' = s \<or> f = Fault_Before_Commit")
    case False
    with append_tx_changed [of jb a c s s' x] Inr y show ?thesis by (simp add: append_checkpoint_once_def)
  qed (use Inr y in \<open>auto simp: append_checkpoint_once_def\<close>)
qed

lemma append_once_tree_ok:
  assumes ok: "case rs_tree s of None \<Rightarrow> True | Some t \<Rightarrow> tree_ok t"
  shows "case rs_tree (fst (append_checkpoint_once jb f a c s)) of None \<Rightarrow> True | Some t \<Rightarrow> tree_ok t"
  using append_once_state [of jb f a c s]
proof
  assume "\<exists>r. charge_configured_tree (checkpoint_charge (pc_kind c)) (s\<lparr>rs_rows := rs_rows s @ [r]\<rparr>)
          = Inr (fst (append_checkpoint_once jb f a c s))"
  then show ?thesis using charge_tree_ok ok by fastforce
qed (use ok in simp)

lemma usage_count_nonneg [simp]: "0 \<le> usage_count v"
  by (simp add: usage_count_def split: option.splits)

lemma store_exec_ok: "store_ok s \<Longrightarrow> store_ok (store_exec s c)"
proof (induction s c rule: store_exec.induct)
  case (1 jb s a c f)
  then obtain cs where cs: "jsonb_faithful jb" "log_rep cs s" "case rs_tree s of None \<Rightarrow> True | Some t \<Rightarrow> tree_ok t"
    by (auto simp: store_ok_def)
  obtain s' r where run: "append_checkpoint_once jb f a c s = (s', r)" by fastforce
  from append_once_cases [OF cs(2,1) run] append_once_tree_ok [OF cs(3), of jb f a c] cs(1) run
  show ?case by (auto simp: store_ok_def)
next
  case (2 jb s i c out)
  then show ?case
    by (auto simp: store_ok_def record_model_usage_def log_rep_def tree_ok_def Let_def split: option.splits)
qed (auto simp: store_ok_def log_rep_def)

lemma append_once_rows: "prefix (rs_rows s) (rs_rows (fst (append_checkpoint_once jb f a c s)))"
  using append_once_state [of jb f a c s]
proof
  assume "\<exists>r. charge_configured_tree (checkpoint_charge (pc_kind c)) (s\<lparr>rs_rows := rs_rows s @ [r]\<rparr>)
          = Inr (fst (append_checkpoint_once jb f a c s))"
  then obtain r where "charge_configured_tree (checkpoint_charge (pc_kind c)) (s\<lparr>rs_rows := rs_rows s @ [r]\<rparr>)
          = Inr (fst (append_checkpoint_once jb f a c s))" by blast
  from arg_cong [OF charge_rows [OF this], of rs_rows] show ?thesis by simp
qed simp

lemma store_exec_rows: "prefix (rs_rows (snd s)) (rs_rows (snd (store_exec s c)))"
  by (induction s c rule: store_exec.induct) (simp_all add: append_once_rows record_model_usage_def Let_def)

lemma empty_log_rep: "rs_rows s = [] \<Longrightarrow> log_rep [] s"
  by (simp add: log_rep_def empty_prefix_loads)

interpretation store_system: transition_system store_start store_exec store_ok
proof unfold_locales
  show "store_ok s" if "store_start s" for s
    using that empty_log_rep by (auto simp: store_ok_def store_start_def)
qed (rule store_exec_ok)

interpretation store_log: append_only_log "\<lambda>s. rs_rows (snd s)" store_exec
  by unfold_locales (rule store_exec_rows)

section \<open>A sample store\<close>

definition sample_attempt :: attempt where
  "sample_attempt = \<lparr>at_job_id = ''j'', at_run_id = ''r'', at_attempt_no = 1, at_lease_token = ''t''\<rparr>"

definition sample_store :: run_store where
  "sample_store =
     \<lparr>rs_run_id = ''r'', rs_status = running, rs_configured = True, rs_output_empty = True,
      rs_deadline = Some 100, rs_chat_member = True, rs_studio_member = False,
      rs_jobs = [\<lparr>jl_id = ''j'', jl_status = running, jl_attempt_no = 1, jl_lease_token = ''t'', jl_expires_at = Some 50\<rparr>],
      rs_tree = Some \<lparr>tr_model_calls = 4, tr_model_call_limit = 4, tr_actions = 0, tr_action_limit = 9,
        tr_context_bytes = 0, tr_context_byte_limit = 100, tr_result_bytes = 0, tr_result_byte_limit = 100,
        tr_input_tokens = 0, tr_cached_tokens = 0, tr_output_tokens = 0, tr_input_token_limit = 0\<rparr>,
      rs_rows = [], rs_now = 10\<rparr>"

definition calm_env :: "fault \<Rightarrow> try_env" where
  "calm_env f = \<lparr>te_before = id, te_fault = f, te_between = id, te_cancelled = False, te_broken = False\<rparr>"

lemma canon_faithful: "jsonb_faithful canon"
  by (simp add: jsonb_faithful_def same_value_def)

lemma sample_authority: "lock_checkpoint_authority sample_store sample_attempt = None"
  by (simp add: lock_checkpoint_authority_def find_job_def sample_store_def sample_attempt_def lease_valid_def running_def)

lemma sample_store_start: "store_start (canon, sample_store)"
  by (simp add: store_start_def canon_faithful sample_store_def tree_ok_def)

lemma sample_log_rep: "log_rep [] sample_store"
  by (rule empty_log_rep) (simp add: sample_store_def)

lemma first_proposal_appends:
  assumes c: "new_proposal_checkpoint 1 actions = Inr c"
  shows "\<exists>t. tr_model_calls t = 4 \<and> append_tx jb sample_attempt c sample_store
      = Inr (sample_store\<lparr>rs_rows := [stored_row jb \<lparr>cp_sequence_no = 1, cp_pending = c\<rparr>], rs_tree := Some t\<rparr>,
             \<lparr>cp_sequence_no = 1, cp_pending = c\<rparr>)"
proof -
  have k: "pc_kind c = Action_Proposal"
    using c by (auto simp: new_proposal_checkpoint_def result_simps Let_def split: if_splits)
  have "load_checkpoint_prefix ([] @ [\<lparr>cp_sequence_no = int (length ([] :: checkpoint list)) + 1, cp_pending = c\<rparr>])
       = Inr (apply_outcome empty_prefix (Accept_Proposal actions))"
  proof -
    have "\<exists>s'. load_kind load_start c = Inr s' \<and> ls_prefix s' = apply_outcome empty_prefix (Accept_Proposal actions)"
      using load_outcome [of load_start "Accept_Proposal actions" c] c
      by (simp add: load_start_def empty_prefix_def has_incomplete_proposal_def)
    then show ?thesis by (auto simp: load_prefix_state load_run_def load_step_def load_start_def)
  qed
  moreover have "\<exists>t. tr_model_calls t = 4 \<and> charge_configured_tree (checkpoint_charge (pc_kind c))
      (sample_store\<lparr>rs_rows := rs_rows sample_store @ [stored_row jb \<lparr>cp_sequence_no = 1, cp_pending = c\<rparr>]\<rparr>)
      = Inr (sample_store\<lparr>rs_rows := [stored_row jb \<lparr>cp_sequence_no = 1, cp_pending = c\<rparr>], rs_tree := Some t\<rparr>)"
    by (simp add: charge_configured_tree_def checkpoint_charge_def k no_charge_def sample_store_def)
  ultimately show ?thesis
    using load_rows_rep [OF sample_log_rep]
    by (auto simp: append_tx_def sample_authority load_valid_def empty_prefix_loads Let_def)
qed

section \<open>Properties\<close>






text \<open>
  C19: an accepted checkpoint is immutable: whatever commands follow, the row at its position keeps
  its sequence number, identity and content.
\<close>

theorem stored_rows_are_immutable:
  assumes "i < length (rs_rows (snd s))"
  shows "rs_rows (snd (foldl store_exec s cmds)) ! i = rs_rows (snd s) ! i"
  using assms by (rule store_log.entry_stable)

theorem stored_rows_are_immutable_witness:
  "\<exists>c r. new_proposal_checkpoint 1 sample_actions = Inr c
     \<and> rs_rows (snd (foldl store_exec (canon, sample_store\<lparr>rs_rows := [r]\<rparr>) [Try_Append sample_attempt c No_Fault])) ! 0 = r"
proof -
  obtain c where c: "new_proposal_checkpoint 1 sample_actions = Inr c" using sample_proposal by blast
  let ?r = "\<lparr>cp_sequence_no = 1, cp_pending = c\<rparr>"
  have "rs_rows (snd (foldl store_exec (canon, sample_store\<lparr>rs_rows := [?r]\<rparr>) [Try_Append sample_attempt c No_Fault])) ! 0
      = rs_rows (snd (canon, sample_store\<lparr>rs_rows := [?r]\<rparr>)) ! 0"
    by (rule stored_rows_are_immutable) simp
  with c show ?thesis by (metis nth_Cons_0 run_store.select_convs(10) run_store.simps(10) run_store.surjective run_store.update_convs(10) snd_conv)
qed





text \<open>
  C22: the retry after a failed try depends on chat membership. An attempt with full authority whose
  transaction fails before it commits is retried when the Run belongs to a chat of the member, but
  when its authority comes from a Studio output only, the reconciling query does not see it, and the
  append ends with a lost lease without a second try.
\<close>

theorem retry_after_fault:
  assumes "lock_checkpoint_authority s a = None"
    and "checkpoint_by_identity s (pc_identity_key pending) = Inr None"
  shows "append_checkpoint jsonb a pending (calm_env Fault_Before_Commit) e2 s
    = (if rs_chat_member s then append_tries jsonb a pending Database_Error [e2] s else (s, Inl Lease_Lost))"
  using assms
  by (auto simp: append_checkpoint_def append_checkpoint_once_def calm_env_def reconcile_checkpoint_def
      lock_checkpoint_authority_def Let_def split: option.splits if_splits)

theorem retry_after_fault_witness:
  "\<exists>c. new_proposal_checkpoint 1 sample_actions = Inr c
     \<and> append_checkpoint canon sample_attempt c (calm_env Fault_Before_Commit) (calm_env No_Fault)
         (sample_store\<lparr>rs_chat_member := False, rs_studio_member := True\<rparr>)
       = (sample_store\<lparr>rs_chat_member := False, rs_studio_member := True\<rparr>, Inl Lease_Lost)"
proof -
  obtain c where c: "new_proposal_checkpoint 1 sample_actions = Inr c" using sample_proposal by blast
  let ?s = "sample_store\<lparr>rs_chat_member := False, rs_studio_member := True\<rparr>"
  have "lock_checkpoint_authority ?s sample_attempt = None"
    by (simp add: lock_checkpoint_authority_def find_job_def sample_store_def sample_attempt_def lease_valid_def running_def)
  moreover have "checkpoint_by_identity ?s (pc_identity_key c) = Inr None"
    by (simp add: checkpoint_by_identity_def sample_store_def)
  ultimately have "append_checkpoint canon sample_attempt c (calm_env Fault_Before_Commit) (calm_env No_Fault) ?s = (?s, Inl Lease_Lost)"
    using retry_after_fault [of ?s sample_attempt c canon "calm_env No_Fault"] by simp
  with c show ?thesis by blast
qed

section \<open>Numbers with an exponent\<close>

text \<open>
  PostgreSQL keeps a JSON number of a \<open>jsonb\<close> value as a \<open>numeric\<close>, which prints without an
  exponent.
\<close>

definition plain_number :: "gostring \<Rightarrow> gostring" where
  "plain_number t =
     (let m = takeWhile (\<lambda>c. c \<noteq> CHR ''e'') t; k = read_digits 0 (tl (dropWhile (\<lambda>c. c \<noteq> CHR ''e'') t)) in
      (case k of None \<Rightarrow> t | Some n \<Rightarrow> if m = t then t else m @ replicate n (CHR ''0'')))"

fun numeric_jsonb :: "json \<Rightarrow> json" where
  "numeric_jsonb (JNum t) = JNum (plain_number t)"
| "numeric_jsonb (JArr xs) = JArr (map numeric_jsonb xs)"
| "numeric_jsonb (JObj ms) = JObj (map (\<lambda>(k, v). (k, numeric_jsonb v)) ms)"
| "numeric_jsonb j = j"

definition exponent_actions :: "action_proposal list" where
  "exponent_actions = [\<lparr>ap_name = ''calculate'', ap_input = Raw (JObj [(''n'', JNum ''1e2'')])\<rparr>]"

lemma expected_stored_hash: "expected_stored (c\<lparr>pc_payload_sha256 := h\<rparr>) = expected_stored c"
  by (cases c, hypsubst, unfold expected_stored_def pending_checkpoint.select_convs pending_checkpoint.update_convs, rule refl)


end
