(* ===== verification/Action_Registry.thy ===== *)
theory Action_Registry
  imports Checkpoint_Log
begin

text \<open>
  The Actions a Run may call: the registry of \<open>internal/agent/actions.go\<close> and the view of it that an
  MCP tool session gives (\<open>agent/mcp_tool_plane.go\<close>): which definitions a decision may choose from,
  and which proposals are valid. What an Action itself does (its input check, its availability) is a
  field of the tool.
\<close>

record execution =
  ex_attempt :: attempt
  ex_user_id :: gostring
  ex_chat_id :: gostring
  ex_time_zone :: gostring
  ex_agent_config_id :: gostring
  ex_action_decision_limit :: int
  ex_final_decision_limit :: int
  ex_action_limit :: int
  ex_action_batch_limit :: int
  ex_action_result_byte_limit :: int
  ex_action_results_byte_limit :: int
  ex_overflow_retry_limit :: int
  ex_existing_child_count :: int

datatype tool_scheduling = Tool_Ordered_Sync | Tool_Parallel | Tool_Exclusive_Delegation

record tool =
  tl_name :: gostring
  tl_description :: gostring
  tl_schema :: raw
  tl_schema_bytes :: nat
  tl_plan_mutation :: bool
  tl_available :: "execution \<Rightarrow> bool"
  tl_input_ok :: "raw \<Rightarrow> bool"
  tl_crash_replay_safe :: bool
  tl_scheduling :: tool_scheduling

section \<open>Building the registry\<close>

datatype registry_error =
    Bad_Action_Name gostring
  | Bad_Action_Description gostring
  | Bad_Action_Schema gostring
  | Duplicate_Action gostring

definition tool_error :: "tool \<Rightarrow> registry_error option" where
  "tool_error t =
     (if \<not> action_name_ok (tl_name t) then Some (Bad_Action_Name (tl_name t))
      else if trim_space (tl_description t) = [] \<or> rune_count (trim_space (tl_description t)) > 512
      then Some (Bad_Action_Description (tl_name t))
      else if tl_schema_bytes t = 0 \<or> tl_schema_bytes t > 16 * 1024 \<or> \<not> is_object (tl_schema t)
      then Some (Bad_Action_Schema (tl_name t))
      else None)"

fun first_duplicate :: "gostring list \<Rightarrow> gostring list \<Rightarrow> gostring option" where
  "first_duplicate seen [] = None"
| "first_duplicate seen (n # ns) = (if n \<in> set seen then Some n else first_duplicate (n # seen) ns)"

definition new_action_registry :: "tool list \<Rightarrow> (registry_error, tool list) result" where
  "new_action_registry actions =
     (case check_all tool_error actions of
        Some e \<Rightarrow> Inl e
      | None \<Rightarrow>
          let registered = sort_key tl_name actions in
          (case first_duplicate [] (map tl_name registered) of
             Some n \<Rightarrow> Inl (Duplicate_Action n)
           | None \<Rightarrow> Inr registered))"

definition resolve_tool :: "tool list \<Rightarrow> gostring \<Rightarrow> tool option" where
  "resolve_tool tools name = find (\<lambda>t. tl_name t = name) tools"

section \<open>Definitions and proposals\<close>

text \<open>
  \<open>ActionPolicy\<close>: the remaining Action budget, the Run for availability (nil skips that test) and
  the allowed names (nil allows all).
\<close>

record action_policy =
  pol_remaining_actions :: int
  pol_execution :: "execution option"
  pol_allowed_names :: "gostring list option"

definition registry_definitions :: "tool list \<Rightarrow> action_policy \<Rightarrow> gostring list" where
  "registry_definitions tools pol =
     map tl_name (filter (\<lambda>t.
        \<not> (\<not> tl_plan_mutation t \<and> pol_remaining_actions pol \<le> 0)
        \<and> (case pol_execution pol of None \<Rightarrow> True | Some ex \<Rightarrow> tl_available t ex)
        \<and> (case pol_allowed_names pol of None \<Rightarrow> True | Some ns \<Rightarrow> tl_name t \<in> set ns)) tools)"

definition session_definitions :: "tool list \<Rightarrow> action_policy \<Rightarrow> gostring list" where
  "session_definitions tools pol =
     map tl_name (filter (\<lambda>t.
        \<not> (\<not> tl_plan_mutation t \<and> pol_remaining_actions pol \<le> 0)
        \<and> (case pol_execution pol of None \<Rightarrow> True | Some ex \<Rightarrow> tl_available t ex)) tools)"

datatype proposal_fault =
    Empty_Batch
  | Unknown_Action nat gostring
  | Bad_Input nat
  | Not_Exclusive

fun validate_from :: "bool \<Rightarrow> tool list \<Rightarrow> nat \<Rightarrow> nat \<Rightarrow> action_proposal list \<Rightarrow> proposal_fault option" where
  "validate_from session tools count i [] = None"
| "validate_from session tools count i (p # ps) =
     (case resolve_tool tools (ap_name p) of
        None \<Rightarrow> Some (Unknown_Action i (ap_name p))
      | Some t \<Rightarrow>
          if \<not> tl_input_ok t (ap_input p) then Some (Bad_Input i)
          else if session \<and> tl_scheduling t = Tool_Exclusive_Delegation \<and> count \<noteq> 1 then Some Not_Exclusive
          else validate_from session tools count (Suc i) ps)"

definition registry_validate_proposal :: "tool list \<Rightarrow> action_proposal list \<Rightarrow> proposal_fault option" where
  "registry_validate_proposal tools ps =
     (if ps = [] then Some Empty_Batch else validate_from False tools (length ps) 0 ps)"

definition session_validate_proposal :: "tool list \<Rightarrow> action_proposal list \<Rightarrow> proposal_fault option" where
  "session_validate_proposal tools ps =
     (if ps = [] then Some Empty_Batch else validate_from True tools (length ps) 0 ps)"

section \<open>Facts\<close>

lemma first_duplicate_None: "first_duplicate seen ns = None \<longleftrightarrow> distinct ns \<and> set ns \<inter> set seen = {}"
  by (induction seen ns rule: first_duplicate.induct) auto

lemma resolve_tool_member:
  assumes "distinct (map tl_name tools)" and "t \<in> set tools"
  shows "resolve_tool tools (tl_name t) = Some t"
  using assms by (induction tools) (auto simp: resolve_tool_def)

lemma resolve_tool_Some: "resolve_tool tools n = Some t \<Longrightarrow> t \<in> set tools \<and> tl_name t = n"
  by (auto simp: resolve_tool_def find_Some_iff)

lemma resolve_tool_None: "resolve_tool tools n = None \<longleftrightarrow> n \<notin> set (map tl_name tools)"
  by (auto simp: resolve_tool_def find_None_iff)

lemma validate_from_ok:
  "validate_from session tools count i ps = None \<Longrightarrow> p \<in> set ps \<Longrightarrow>
   \<exists>t. resolve_tool tools (ap_name p) = Some t \<and> tl_input_ok t (ap_input p)
       \<and> (session \<longrightarrow> tl_scheduling t = Tool_Exclusive_Delegation \<longrightarrow> count = 1)"
  by (induction session tools count i ps rule: validate_from.induct) (auto split: option.splits if_splits)

lemma new_action_registry_facts:
  assumes "new_action_registry actions = Inr tools"
  shows "sorted (map tl_name tools) \<and> distinct (map tl_name tools) \<and> set tools = set actions
         \<and> (\<forall>t \<in> set tools. action_name_ok (tl_name t))"
proof -
  from assms have ok: "\<forall>t \<in> set actions. tool_error t = None"
    and d: "first_duplicate [] (map tl_name (sort_key tl_name actions)) = None"
    and t: "tools = sort_key tl_name actions"
    by (auto simp: new_action_registry_def Let_def split: option.splits)
  have "action_name_ok (tl_name t)" if "tool_error t = None" for t
    using that by (simp add: tool_error_def split: if_splits)
  with ok d t show ?thesis by (auto simp: first_duplicate_None)
qed

section \<open>Properties\<close>

text \<open>
  A registry that is built holds exactly the given Actions in strictly increasing order of their
  well-formed names, so that every one of them, and nothing else, is found by its name.
\<close>

lemma registry_resolves_exactly_its_actions:
  assumes "new_action_registry actions = Inr tools"
  shows "sorted_wrt (<) (map tl_name tools)
    \<and> (\<forall>n t. resolve_tool tools n = Some t \<longleftrightarrow> t \<in> set actions \<and> tl_name t = n)"
proof -
  note f = new_action_registry_facts [OF assms]
  have eq: "set tools = set actions" using f by simp
  have "sorted_wrt (<) (map tl_name tools)" using f by (simp add: strict_sorted_iff)
  moreover have "resolve_tool tools n = Some t \<longleftrightarrow> t \<in> set actions \<and> tl_name t = n" for n t
    using f eq resolve_tool_member [of tools t] resolve_tool_Some [of tools n t] by auto
  ultimately show ?thesis by blast
qed

definition sample_tool :: "gostring \<Rightarrow> bool \<Rightarrow> tool_scheduling \<Rightarrow> tool" where
  "sample_tool n plan sched =
     \<lparr>tl_name = n, tl_description = ''Does it.'', tl_schema = Raw (JObj []), tl_schema_bytes = 2,
      tl_plan_mutation = plan, tl_available = (\<lambda>_. True), tl_input_ok = is_object,
      tl_crash_replay_safe = False, tl_scheduling = sched\<rparr>"

lemma sample_description:
  "trim_space ''Does it.'' \<noteq> []" "rune_count (trim_space ''Does it.'') \<le> 512"
proof -
  have "\<not> blank ''Does it.''" by (rule not_blank_letter) simp
  then show "trim_space ''Does it.'' \<noteq> []" by (simp add: blank_def)
  have "rune_count (trim_space ''Does it.'') \<le> length (trim_space ''Does it.'')" by (rule rune_count_le_length)
  also have "\<dots> \<le> length ''Does it.''" by (rule trim_space_length)
  also have "\<dots> \<le> 512" by simp
  finally show "rune_count (trim_space ''Does it.'') \<le> 512" .
qed

lemma sample_tool_ok: "action_name_ok n \<Longrightarrow> tool_error (sample_tool n plan sched) = None"
  using sample_description by (simp add: tool_error_def sample_tool_def)

end
