(* ===== verification/Controller_Budget.thy ===== *)
theory Controller_Budget
  imports Action_Registry
begin

text \<open>
  The pure part of the Agent Controller (\<open>internal/agent/controller.go\<close>): what counts against the
  budgets of a Run, which decisions of the model are accepted for the current prefix, which Actions
  are still to run, and how many bytes of results the prefix holds.
\<close>

section \<open>Counting\<close>

definition is_plan_mutation_name :: "gostring \<Rightarrow> bool" where
  "is_plan_mutation_name n \<longleftrightarrow> n = ''rewrite_todo_list'' \<or> n = ''update_todo_status''"

fun proposal_budget_use :: "action_proposal list \<Rightarrow> int \<times> int" where
  "proposal_budget_use [] = (0, 0)"
| "proposal_budget_use (a # as) =
     (let (business, plan) = proposal_budget_use as in
      if is_plan_mutation_name (ap_name a) then (business, plan + 1) else (business + 1, plan))"

definition business_actions_in :: "accepted_proposal \<Rightarrow> int" where
  "business_actions_in p = int (length (filter (\<lambda>a. \<not> is_plan_mutation_name (aa_name a)) (apr_actions p)))"

definition accepted_business_actions :: "checkpoint_prefix \<Rightarrow> int" where
  "accepted_business_actions p = sum_list (map business_actions_in (cx_proposals p))"

definition accepted_business_decisions :: "checkpoint_prefix \<Rightarrow> int" where
  "accepted_business_decisions p =
     int (length (filter (\<lambda>q. list_ex (\<lambda>a. \<not> is_plan_mutation_name (aa_name a)) (apr_actions q)) (cx_proposals p)))"

definition completed_action_has_canonical_input :: "checkpoint_prefix \<Rightarrow> gostring \<Rightarrow> raw \<Rightarrow> bool" where
  "completed_action_has_canonical_input p name input =
     (case canonical_json_object input of
        Inl _ \<Rightarrow> False
      | Inr wanted \<Rightarrow>
          list_ex (\<lambda>q. list_ex (\<lambda>a.
              aa_name a = name
              \<and> (case aa_result a of None \<Rightarrow> False | Some r \<Rightarrow> ar_status r = action_succeeded)
              \<and> canonical_json_object (aa_input a) = Inr wanted) (apr_actions q)) (cx_proposals p))"

definition incomplete_actions :: "checkpoint_prefix \<Rightarrow> (accepted_proposal \<times> accepted_action list) option" where
  "incomplete_actions p =
     (if cx_proposals p = [] then None
      else
        let proposal = last (cx_proposals p);
            pending = filter (\<lambda>a. aa_result a = None) (apr_actions proposal) in
        if pending = [] then None else Some (proposal, pending))"

section \<open>Bytes of results\<close>

text \<open>The length of a checkpoint's encoded payload.\<close>

definition payload_bytes :: "pending_checkpoint \<Rightarrow> int" where
  "payload_bytes c = (case pc_payload c of Raw j \<Rightarrow> int (length (json_text j)) | _ \<Rightarrow> 0)"

fun add_result_bytes :: "int \<Rightarrow> accepted_action list \<Rightarrow> (checkpoint_error, int) result" where
  "add_result_bytes n [] = Inr 0"
| "add_result_bytes n (a # as) =
     (case aa_result a of
        None \<Rightarrow> add_result_bytes n as
      | Some r \<Rightarrow>
          bind_result (new_action_result_checkpoint n (aa_index a) (aa_action_id a) r) (\<lambda>c.
          bind_result (add_result_bytes n as) (\<lambda>k. Inr (payload_bytes c + k))))"

fun proposals_result_bytes :: "accepted_proposal list \<Rightarrow> (checkpoint_error, int) result" where
  "proposals_result_bytes [] = Inr 0"
| "proposals_result_bytes (q # qs) =
     bind_result (add_result_bytes (apr_decision_no q) (apr_actions q)) (\<lambda>a.
     bind_result (proposals_result_bytes qs) (\<lambda>b. Inr (a + b)))"

definition encoded_action_result_bytes :: "checkpoint_prefix \<Rightarrow> (checkpoint_error, int) result" where
  "encoded_action_result_bytes p = proposals_result_bytes (cx_proposals p)"

section \<open>Accepting a decision\<close>

datatype decision_fault =
    Invalid_Decision
  | Batch_Too_Large nat
  | Tool_Unavailable nat gostring
  | Proposal_Fault proposal_fault
  | Repeated_Todo_Rewrite gostring
  | Multiple_Plan_Mutations
  | Action_Budget_Exceeded int
  | No_Business_Decision_Left

fun first_unavailable :: "gostring list \<Rightarrow> nat \<Rightarrow> action_proposal list \<Rightarrow> decision_fault option" where
  "first_unavailable names i [] = None"
| "first_unavailable names i (a # as) =
     (if ap_name a \<notin> set names then Some (Tool_Unavailable i (ap_name a)) else first_unavailable names (Suc i) as)"

definition validate_decision_for_request ::
  "(action_proposal list \<Rightarrow> proposal_fault option) \<Rightarrow> checkpoint_prefix \<Rightarrow> model_decision \<Rightarrow> gostring list
     \<Rightarrow> bool \<Rightarrow> execution \<Rightarrow> int \<Rightarrow> bool \<Rightarrow> decision_fault option" where
  "validate_decision_for_request validate p d names capable ex remaining available =
     (if \<not> model_decision_ok d then Some Invalid_Decision
      else (case md_proposal d of
          None \<Rightarrow> None
        | Some actions \<Rightarrow>
            if \<not> capable then None
            else if int (length actions) > ex_action_batch_limit ex then Some (Batch_Too_Large (length actions))
            else (case first_unavailable names 0 actions of
                Some f \<Rightarrow> Some f
              | None \<Rightarrow>
                  (case validate actions of
                     Some f \<Rightarrow> Some (Proposal_Fault f)
                   | None \<Rightarrow>
                       (case find (\<lambda>a. ap_name a = ''rewrite_todo_list''
                                       \<and> completed_action_has_canonical_input p (ap_name a) (ap_input a)) actions of
                          Some a \<Rightarrow> Some (Repeated_Todo_Rewrite (ap_name a))
                        | None \<Rightarrow>
                            let (business, plan) = proposal_budget_use actions in
                            if plan > 1 then Some Multiple_Plan_Mutations
                            else if business > remaining then Some (Action_Budget_Exceeded business)
                            else if business > 0 \<and> \<not> available then Some No_Business_Decision_Left
                            else None)))))"

definition remaining_actions :: "execution \<Rightarrow> checkpoint_prefix \<Rightarrow> int" where
  "remaining_actions ex p = ex_action_limit ex - accepted_business_actions p"

definition business_decision_available :: "execution \<Rightarrow> checkpoint_prefix \<Rightarrow> bool" where
  "business_decision_available ex p \<longleftrightarrow>
     accepted_business_decisions p < ex_action_decision_limit ex \<and> remaining_actions ex p > 0"

section \<open>Facts\<close>

lemma proposal_budget_use_counts:
  "proposal_budget_use as =
     (int (length (filter (\<lambda>a. \<not> is_plan_mutation_name (ap_name a)) as)),
      int (length (filter (\<lambda>a. is_plan_mutation_name (ap_name a)) as)))"
  by (induction as) (simp_all add: Let_def)

lemma entries_names: "map pe_name (entries_of n i as) = map ap_name as"
  by (induction as arbitrary: i) simp_all

lemma proposal_of_names: "map aa_name (apr_actions (proposal_of n as)) = map ap_name as"
  by (simp add: proposal_of_def comp_def entries_names)

lemma filter_names_length:
  "map f xs = map g ys \<Longrightarrow> length (filter (\<lambda>x. P (f x)) xs) = length (filter (\<lambda>y. P (g y)) ys)"
  using filter_map [of P f xs] filter_map [of P g ys] by (metis comp_def length_map filter_cong)

lemma business_actions_in_new: "business_actions_in (proposal_of n as) = fst (proposal_budget_use as)"
  using filter_names_length [OF proposal_of_names, where P = "\<lambda>n. \<not> is_plan_mutation_name n"]
  by (simp add: business_actions_in_def proposal_budget_use_counts)

lemma business_decision_new:
  "list_ex (\<lambda>a. \<not> is_plan_mutation_name (aa_name a)) (apr_actions (proposal_of n as)) \<longleftrightarrow> 0 < fst (proposal_budget_use as)"
proof -
  have "list_ex (\<lambda>a. \<not> is_plan_mutation_name (aa_name a)) (apr_actions (proposal_of n as))
      \<longleftrightarrow> 0 < business_actions_in (proposal_of n as)"
    by (auto simp: business_actions_in_def list_ex_iff filter_empty_conv)
  then show ?thesis by (simp add: business_actions_in_new)
qed

lemma incomplete_actions_None:
  "incomplete_actions p = None \<longleftrightarrow> \<not> has_incomplete_proposal p"
  by (auto simp: incomplete_actions_def has_incomplete_proposal_iff proposal_complete_def action_complete_def
      list_all_iff Let_def filter_empty_conv)

lemma validate_decision_ok:
  assumes "validate_decision_for_request v p d names True ex rem avail = None" and "md_proposal d = Some actions"
  shows "actions \<noteq> [] \<and> int (length actions) \<le> ex_action_batch_limit ex
    \<and> (\<forall>a \<in> set actions. ap_name a \<in> set names) \<and> v actions = None
    \<and> fst (proposal_budget_use actions) \<le> rem \<and> snd (proposal_budget_use actions) \<le> 1
    \<and> (0 < fst (proposal_budget_use actions) \<longrightarrow> avail)"
proof -
  have "first_unavailable names i as = None \<Longrightarrow> \<forall>a \<in> set as. ap_name a \<in> set names" for i as
    by (induction names i as rule: first_unavailable.induct) (auto split: if_splits)
  with assms show ?thesis
    by (fastforce simp: validate_decision_for_request_def model_decision_ok_def split: option.splits if_splits prod.splits)
qed

text \<open>The budgets of a Run, as a property of its prefix.\<close>

definition within_budget :: "execution \<Rightarrow> checkpoint_prefix \<Rightarrow> bool" where
  "within_budget ex p \<longleftrightarrow>
     accepted_business_actions p \<le> max 0 (ex_action_limit ex)
     \<and> accepted_business_decisions p \<le> max 0 (ex_action_decision_limit ex)"

lemma accepted_business_nonneg: "0 \<le> accepted_business_actions p"
  by (auto simp: accepted_business_actions_def business_actions_in_def intro!: sum_list_nonneg)

lemma decision_keeps_budget:
  assumes "within_budget ex p"
    and "validate_decision_for_request v p d names True ex (remaining_actions ex p) (business_decision_available ex p) = None"
    and "md_proposal d = Some actions"
  shows "within_budget ex (apply_outcome p (Accept_Proposal actions))
    \<and> actions \<noteq> [] \<and> int (length actions) \<le> ex_action_batch_limit ex
    \<and> (\<forall>a \<in> set actions. ap_name a \<in> set names)
    \<and> length (filter (\<lambda>a. is_plan_mutation_name (ap_name a)) actions) \<le> 1"
proof -
  note v = validate_decision_ok [OF assms(2,3)]
  let ?b = "fst (proposal_budget_use actions)"
  have "accepted_business_actions (apply_outcome p (Accept_Proposal actions)) = accepted_business_actions p + ?b"
    by (simp add: accepted_business_actions_def business_actions_in_new)
  moreover have "accepted_business_decisions (apply_outcome p (Accept_Proposal actions))
      = accepted_business_decisions p + (if 0 < ?b then 1 else 0)"
    by (simp add: accepted_business_decisions_def business_decision_new)
  moreover have "0 \<le> ?b" by (simp add: proposal_budget_use_counts)
  moreover have "?b \<le> remaining_actions ex p" using v by simp
  moreover have "0 < ?b \<longrightarrow> business_decision_available ex p" using v by simp
  ultimately have "within_budget ex (apply_outcome p (Accept_Proposal actions))"
    using assms(1) by (auto simp: within_budget_def remaining_actions_def business_decision_available_def)
  moreover have "length (filter (\<lambda>a. is_plan_mutation_name (ap_name a)) actions) \<le> 1"
    using v by (simp add: proposal_budget_use_counts)
  ultimately show ?thesis using v by simp
qed

section \<open>Properties\<close>

text \<open>
  the budgets of a Run hold along its history. Starting within budget, a decision that passes the
  check for the current prefix, with the remaining Actions and the availability of a business decision
  computed as the loop computes them, leaves the Run within budget after it is accepted: no more
  business Actions than the Action limit and no more business decisions than the decision limit. Its
  batch is not empty, not larger than the batch limit, names only offered tools, and mutates the TODO
  list at most once.
\<close>

lemma accepted_decision_within_budget:
  assumes "within_budget ex p"
    and "validate_decision_for_request v p d names True ex (remaining_actions ex p) (business_decision_available ex p) = None"
    and "md_proposal d = Some actions"
  shows "within_budget ex (apply_outcome p (Accept_Proposal actions))
    \<and> actions \<noteq> [] \<and> int (length actions) \<le> ex_action_batch_limit ex
    \<and> (\<forall>a \<in> set actions. ap_name a \<in> set names)
    \<and> length (filter (\<lambda>a. is_plan_mutation_name (ap_name a)) actions) \<le> 1"
  using assms by (rule decision_keeps_budget)

definition sample_execution :: execution where
  "sample_execution =
     \<lparr>ex_attempt = sample_attempt, ex_user_id = ''u'', ex_chat_id = ''c'', ex_time_zone = ''UTC'',
      ex_agent_config_id = ''nano.leader@1'', ex_action_decision_limit = 3, ex_final_decision_limit = 1,
      ex_action_limit = 4, ex_action_batch_limit = 2, ex_action_result_byte_limit = 1000,
      ex_action_results_byte_limit = 4000, ex_overflow_retry_limit = 1, ex_existing_child_count = 0\<rparr>"

end
