(* ===== verification/Controller.thy ===== *)
theory Controller
  imports Controller_Budget
begin

text \<open>
  The Agent Controller's loop (\<open>Controller.Execute\<close> in \<open>internal/agent/controller.go\<close>) over any
  runtime. The runtime, the model and the tools are a record of functions on a world: what
  \<open>ControllerRuntime\<close>, its optional interfaces (an option: nil when not implemented) and
  \<open>DecisionModel\<close> offer. Each function returns the changed world with its error or value. The loop
  may run as long as its deadline lets it, so it takes fuel; the loop that asks for one decision is
  total. Tracing, metrics and the isolated query of Studio Runs (\<open>QueryContextRuntime\<close>) are left
  out; the text of the message that asks the model to repair its answer is its reason.
\<close>

section \<open>Errors\<close>

datatype model_error_kind =
    Model_Timeout | Model_Unavailable | Model_Invalid_Response | Model_Context_Overflow | Model_Rejected

datatype repair_reason =
    Cut_Off
  | Rejected_Decision decision_fault
  | Reported gostring

datatype ctl_error =
    Store_Failure store_error
  | Model_Failure model_error_kind "repair_reason option"
  | Tool_Call_Failure gostring
  | Checkpoint_Failure checkpoint_error
  | Context_Canceled
  | Plain_Failure gostring
  | Joined_Failure ctl_error ctl_error

fun model_error_code :: "model_error_kind \<Rightarrow> gostring" where
  "model_error_code Model_Timeout = ''model_timeout''"
| "model_error_code Model_Unavailable = ''model_unavailable''"
| "model_error_code Model_Invalid_Response = ''model_invalid_response''"
| "model_error_code Model_Context_Overflow = ''model_context_overflow''"
| "model_error_code Model_Rejected = ''model_request_rejected''"

fun failure_is :: "store_error \<Rightarrow> ctl_error \<Rightarrow> bool" where
  "failure_is e (Store_Failure x) \<longleftrightarrow> error_is x e"
| "failure_is e (Joined_Failure a b) \<longleftrightarrow> failure_is e a \<or> failure_is e b"
| "failure_is e _ \<longleftrightarrow> False"

fun is_canceled :: "ctl_error \<Rightarrow> bool" where
  "is_canceled Context_Canceled = True"
| "is_canceled (Joined_Failure a b) = (is_canceled a \<or> is_canceled b)"
| "is_canceled _ = False"

fun as_model_error :: "ctl_error \<Rightarrow> (model_error_kind \<times> repair_reason option) option" where
  "as_model_error (Model_Failure k r) = Some (k, r)"
| "as_model_error (Joined_Failure a b) = (case as_model_error a of Some x \<Rightarrow> Some x | None \<Rightarrow> as_model_error b)"
| "as_model_error _ = None"

fun is_tool_call_error :: "ctl_error \<Rightarrow> bool" where
  "is_tool_call_error (Tool_Call_Failure _) = True"
| "is_tool_call_error (Joined_Failure a b) = (is_tool_call_error a \<or> is_tool_call_error b)"
| "is_tool_call_error _ = False"

definition error_kind :: "ctl_error option \<Rightarrow> model_error_kind option" where
  "error_kind e = (case e of None \<Rightarrow> None | Some x \<Rightarrow> map_option fst (as_model_error x))"

definition is_retryable_model_error :: "ctl_error \<Rightarrow> bool" where
  "is_retryable_model_error e \<longleftrightarrow> error_kind (Some e) = Some Model_Timeout \<or> error_kind (Some e) = Some Model_Unavailable"

section \<open>The runtime\<close>

record 'q model_request =
  mq_body :: 'q
  mq_overflow_attempt :: nat
  mq_invocation :: gostring
  mq_repair :: "repair_reason option option"

record model_outcome =
  mo_decision :: model_decision
  mo_finish_reason :: gostring
  mo_input_tokens :: "int option"
  mo_cached_tokens :: "int option"
  mo_output_tokens :: "int option"

type_synonym ('w, 'a) op = "'w \<Rightarrow> 'w \<times> (ctl_error, 'a) result"

record ('w, 'q) runtime =
  rt_load :: "attempt \<Rightarrow> ('w, execution) op"
  rt_start_run :: "(attempt \<Rightarrow> execution \<Rightarrow> ('w, unit) op) option"
  rt_load_prefix :: "attempt \<Rightarrow> ('w, checkpoint_prefix) op"
  rt_check_authority :: "attempt \<Rightarrow> ('w, unit) op"
  rt_append :: "attempt \<Rightarrow> pending_checkpoint \<Rightarrow> ('w, unit) op"
  rt_publish_final :: "attempt \<Rightarrow> gostring \<Rightarrow> ('w, unit) op"
  rt_fail :: "attempt \<Rightarrow> gostring \<Rightarrow> ('w, unit) op"
  rt_pending_steering :: "(attempt \<Rightarrow> ('w, (gostring \<times> gostring) list) op) option"
  rt_budget_exhausted :: "(attempt \<Rightarrow> ('w, bool) op) option"
  rt_record_usage :: "(attempt \<Rightarrow> model_outcome \<Rightarrow> ('w, unit) op) option"
  rt_wrap_up_tools :: "(execution \<Rightarrow> gostring list option) option"
  rt_prepare_request :: "(execution \<Rightarrow> checkpoint_prefix \<Rightarrow> gostring list \<Rightarrow> gostring \<Rightarrow> ('w, 'q) op) option"
  rt_build_request :: "execution \<Rightarrow> checkpoint_prefix \<Rightarrow> gostring list \<Rightarrow> ('w, 'q) op"
  rt_finalize_request :: "(execution \<Rightarrow> checkpoint_prefix \<Rightarrow> 'q model_request \<Rightarrow> ('w, 'q model_request) op) option"
  rt_decide :: "'q model_request \<Rightarrow> 'w \<Rightarrow> 'w \<times> model_outcome \<times> ctl_error option"
  rt_prepare_response :: "(execution \<Rightarrow> checkpoint_prefix \<Rightarrow> model_decision \<Rightarrow> ('w, model_decision) op) option"
  rt_prepare_final :: "(attempt \<Rightarrow> execution \<Rightarrow> checkpoint_prefix \<Rightarrow> gostring \<Rightarrow> ('w, gostring) op) option"
  rt_invalid_retry_limit :: "nat option"
  rt_invocation :: "execution \<Rightarrow> gostring"
  rt_session :: bool
  rt_open_session :: "attempt \<Rightarrow> execution \<Rightarrow> ('w, unit) op"
  rt_tools :: "tool list"
  rt_list_tools :: "('w, unit) op"
  rt_invoke :: "execution \<Rightarrow> accepted_action \<Rightarrow> ('w, action_result) op"
  rt_schedule :: "'w \<Rightarrow> nat \<Rightarrow> nat list"
  rt_context_done :: "'w \<Rightarrow> bool"
  rt_cause_lease_lost :: "'w \<Rightarrow> bool"

text \<open>The definitions offered: a session first lists its tools, which may fail.\<close>

definition action_definitions :: "('w, 'q) runtime \<Rightarrow> action_policy \<Rightarrow> ('w, gostring list) op" where
  "action_definitions rt pol w =
     (if \<not> rt_session rt then (w, Inr (registry_definitions (rt_tools rt) pol))
      else (case rt_list_tools rt w of
          (w', Inl e) \<Rightarrow> (w', Inl e)
        | (w', Inr _) \<Rightarrow> (w', Inr (session_definitions (rt_tools rt) pol))))"

definition validate_proposal :: "('w, 'q) runtime \<Rightarrow> action_proposal list \<Rightarrow> proposal_fault option" where
  "validate_proposal rt ps =
     (if rt_session rt then session_validate_proposal (rt_tools rt) ps else registry_validate_proposal (rt_tools rt) ps)"

definition is_exclusive_delegation :: "('w, 'q) runtime \<Rightarrow> gostring \<Rightarrow> bool" where
  "is_exclusive_delegation rt name \<longleftrightarrow>
     (if \<not> rt_session rt then False
      else (case resolve_tool (rt_tools rt) name of None \<Rightarrow> False | Some t \<Rightarrow> tl_scheduling t = Tool_Exclusive_Delegation))"

definition all_parallel_eligible :: "('w, 'q) runtime \<Rightarrow> accepted_action list \<Rightarrow> bool" where
  "all_parallel_eligible rt as \<longleftrightarrow>
     rt_session rt
     \<and> list_all (\<lambda>a. case resolve_tool (rt_tools rt) (aa_name a) of
           None \<Rightarrow> False | Some t \<Rightarrow> tl_scheduling t = Tool_Parallel) as"

definition action_crash_replay_safe :: "('w, 'q) runtime \<Rightarrow> gostring \<Rightarrow> bool" where
  "action_crash_replay_safe rt name \<longleftrightarrow>
     (case resolve_tool (rt_tools rt) name of None \<Rightarrow> False | Some t \<Rightarrow> tl_crash_replay_safe t)"

definition invalid_response_retry_limit :: "('w, 'q) runtime \<Rightarrow> nat" where
  "invalid_response_retry_limit rt = (case rt_invalid_retry_limit rt of None \<Rightarrow> 0 | Some n \<Rightarrow> n)"

section \<open>Reporting errors\<close>

text \<open>What \<open>Execute\<close> returns: nil is None.\<close>

type_synonym 'w returning = "'w \<times> ctl_error option"

definition ctl_fail :: "('w, 'q) runtime \<Rightarrow> attempt \<Rightarrow> gostring \<Rightarrow> ctl_error \<Rightarrow> 'w \<Rightarrow> 'w returning" where
  "ctl_fail rt a code cause w =
     (case rt_fail rt a code w of
        (w', Inl e) \<Rightarrow> (w', Some (Joined_Failure cause e))
      | (w', Inr _) \<Rightarrow> (w', Some cause))"

definition handle_runtime_error :: "('w, 'q) runtime \<Rightarrow> attempt \<Rightarrow> ctl_error \<Rightarrow> 'w \<Rightarrow> 'w returning" where
  "handle_runtime_error rt a e w =
     (if failure_is Lease_Lost e \<or> failure_is Run_Deadline_Exceeded e \<or> is_canceled e then (w, Some e)
      else if failure_is Checkpoint_Invalid e then ctl_fail rt a ''checkpoint_invalid'' e w
      else (w, Some e))"

definition handle_model_error :: "('w, 'q) runtime \<Rightarrow> attempt \<Rightarrow> ctl_error \<Rightarrow> 'w \<Rightarrow> 'w returning" where
  "handle_model_error rt a e w =
     (if rt_cause_lease_lost rt w \<or> failure_is Lease_Lost e then (w, Some (Store_Failure Lease_Lost))
      else if is_canceled e then (w, Some e)
      else (case as_model_error e of
          None \<Rightarrow> ctl_fail rt a ''model_unavailable'' e w
        | Some (k, _) \<Rightarrow>
            if k = Model_Timeout \<or> k = Model_Unavailable then (w, Some e)
            else ctl_fail rt a (model_error_code k) e w))"

definition action_execution_error :: "('w, 'q) runtime \<Rightarrow> attempt \<Rightarrow> ctl_error \<Rightarrow> 'w \<Rightarrow> 'w returning" where
  "action_execution_error rt a e w =
     (if failure_is Lease_Lost e then handle_runtime_error rt a e w
      else if rt_context_done rt w then (w, Some e)
      else if is_tool_call_error e then (w, Some e)
      else ctl_fail rt a ''model_invalid_response'' e w)"


text \<open>Run an operation, then its error handler or its continuation.\<close>

definition try_op :: "('w, 'a) op \<Rightarrow> (ctl_error \<Rightarrow> 'w \<Rightarrow> 'w \<times> 's) \<Rightarrow> ('a \<Rightarrow> 'w \<Rightarrow> 'w \<times> 's) \<Rightarrow> 'w \<Rightarrow> 'w \<times> 's" where
  "try_op m h f w = (case m w of (w', Inl e) \<Rightarrow> h e w' | (w', Inr x) \<Rightarrow> f x w')"

definition lift_check :: "(checkpoint_error, 'a) result \<Rightarrow> ('w, 'a) op" where
  "lift_check r w = (w, case r of Inl e \<Rightarrow> Inl (Checkpoint_Failure e) | Inr x \<Rightarrow> Inr x)"

section \<open>Actions\<close>

definition over_result_budget :: "execution \<Rightarrow> int \<Rightarrow> pending_checkpoint \<Rightarrow> bool" where
  "over_result_budget ex used c \<longleftrightarrow>
     payload_bytes c > ex_action_result_byte_limit ex \<or> used + payload_bytes c > ex_action_results_byte_limit ex"

definition budget_exhausted :: ctl_error where
  "budget_exhausted = Plain_Failure ''Action Result byte budget exceeded''"

definition append_or_report :: "('w, 'q) runtime \<Rightarrow> attempt \<Rightarrow> pending_checkpoint \<Rightarrow> 'w \<Rightarrow> 'w returning" where
  "append_or_report rt a c = try_op (rt_append rt a c) (handle_runtime_error rt a) (\<lambda>_ w. (w, None))"

definition accept_result ::
  "('w, 'q) runtime \<Rightarrow> attempt \<Rightarrow> execution \<Rightarrow> checkpoint_prefix \<Rightarrow> accepted_proposal \<Rightarrow> accepted_action \<Rightarrow> action_result \<Rightarrow> 'w \<Rightarrow> 'w returning" where
  "accept_result rt a ex p proposal action r =
     (if \<not> action_result_ok r
      then ctl_fail rt a ''model_invalid_response'' (Checkpoint_Failure Invalid_Result)
      else try_op (lift_check (new_action_result_checkpoint (apr_decision_no proposal) (aa_index action) (aa_action_id action) r))
             (ctl_fail rt a ''model_invalid_response'') (\<lambda>c.
           try_op (lift_check (encoded_action_result_bytes p)) (ctl_fail rt a ''checkpoint_invalid'') (\<lambda>used.
             if over_result_budget ex used c then ctl_fail rt a ''agent_budget_exhausted'' budget_exhausted
             else append_or_report rt a c)))"

definition execute_action ::
  "('w, 'q) runtime \<Rightarrow> attempt \<Rightarrow> execution \<Rightarrow> checkpoint_prefix \<Rightarrow> accepted_proposal \<Rightarrow> accepted_action \<Rightarrow> 'w \<Rightarrow> 'w returning" where
  "execute_action rt a ex p proposal action =
     (if resolve_tool (rt_tools rt) (aa_name action) = None
      then ctl_fail rt a ''model_invalid_response'' (Plain_Failure ''accepted unknown Action'')
      else try_op (rt_invoke rt ex action) (action_execution_error rt a)
             (\<lambda>raw. accept_result rt a ex p proposal action (enrich_action_domain_error raw)))"

text \<open>
  The batch executor runs all tasks at once and returns their outcomes in task order. The interleaving
  is the order in which their effects happen, any permutation of the tasks.
\<close>

definition schedule_of :: "('w, 'q) runtime \<Rightarrow> 'w \<Rightarrow> nat \<Rightarrow> nat list" where
  "schedule_of rt w n = (let order = rt_schedule rt w n in if sort order = [0..<n] then order else [0..<n])"

fun run_tasks ::
  "('w, 'q) runtime \<Rightarrow> execution \<Rightarrow> accepted_action list \<Rightarrow> nat list \<Rightarrow> (ctl_error, action_result) result list \<Rightarrow> 'w
     \<Rightarrow> 'w \<times> (ctl_error, action_result) result list" where
  "run_tasks rt ex actions [] outs w = (w, outs)"
| "run_tasks rt ex actions (i # is) outs w =
     (case rt_invoke rt ex (actions ! i) w of (w', r) \<Rightarrow> run_tasks rt ex actions is (outs[i := r]) w')"

definition run_parallel ::
  "('w, 'q) runtime \<Rightarrow> execution \<Rightarrow> accepted_action list \<Rightarrow> 'w \<Rightarrow> 'w \<times> (ctl_error, action_result) result list" where
  "run_parallel rt ex actions w =
     run_tasks rt ex actions (schedule_of rt w (length actions))
       (replicate (length actions) (Inl (Plain_Failure []))) w"

record batch_state =
  bs_failure :: "(bool \<times> ctl_error) option"
  bs_exceeded :: bool
  bs_used :: int
  bs_commit :: "pending_checkpoint list"

definition note_failure :: "bool \<Rightarrow> ctl_error \<Rightarrow> batch_state \<Rightarrow> batch_state" where
  "note_failure invalid e b = (if bs_failure b = None then b\<lparr>bs_failure := Some (invalid, e)\<rparr> else b)"

definition batch_outcome ::
  "execution \<Rightarrow> int \<Rightarrow> batch_state \<Rightarrow> accepted_action \<times> (ctl_error, action_result) result \<Rightarrow> batch_state" where
  "batch_outcome ex n b x =
     (case snd x of
        Inl e \<Rightarrow> note_failure False e b
      | Inr raw \<Rightarrow>
          let r = enrich_action_domain_error raw in
          if \<not> action_result_ok r then note_failure True (Checkpoint_Failure Invalid_Result) b
          else if bs_exceeded b then b
          else (case new_action_result_checkpoint n (aa_index (fst x)) (aa_action_id (fst x)) r of
              Inl e \<Rightarrow> note_failure True (Checkpoint_Failure e) b
            | Inr c \<Rightarrow>
                if over_result_budget ex (bs_used b) c then b\<lparr>bs_exceeded := True\<rparr>
                else b\<lparr>bs_used := bs_used b + payload_bytes c, bs_commit := bs_commit b @ [c]\<rparr>))"

definition batch_outcomes ::
  "execution \<Rightarrow> int \<Rightarrow> int \<Rightarrow> (accepted_action \<times> (ctl_error, action_result) result) list \<Rightarrow> batch_state" where
  "batch_outcomes ex n used xs =
     foldl (batch_outcome ex n) \<lparr>bs_failure = None, bs_exceeded = False, bs_used = used, bs_commit = []\<rparr> xs"

fun append_all :: "('w, 'q) runtime \<Rightarrow> attempt \<Rightarrow> pending_checkpoint list \<Rightarrow> 'w \<Rightarrow> 'w returning" where
  "append_all rt a [] w = (w, None)"
| "append_all rt a (c # cs) w =
     try_op (rt_append rt a c) (handle_runtime_error rt a) (\<lambda>_. append_all rt a cs) w"

definition execute_parallel_batch ::
  "('w, 'q) runtime \<Rightarrow> attempt \<Rightarrow> execution \<Rightarrow> checkpoint_prefix \<Rightarrow> accepted_proposal \<Rightarrow> accepted_action list \<Rightarrow> 'w \<Rightarrow> 'w returning" where
  "execute_parallel_batch rt a ex p proposal pending w =
     (if list_ex (\<lambda>x. resolve_tool (rt_tools rt) (aa_name x) = None) pending
      then ctl_fail rt a ''model_invalid_response'' (Plain_Failure ''accepted unknown MCP Tool'') w
      else (case run_parallel rt ex pending w of (w', outs) \<Rightarrow>
        try_op (lift_check (encoded_action_result_bytes p)) (ctl_fail rt a ''checkpoint_invalid'') (\<lambda>used w1.
          let b = batch_outcomes ex (apr_decision_no proposal) used (zip pending outs) in
          (case append_all rt a (bs_commit b) w1 of
             (w2, Some e) \<Rightarrow> (w2, Some e)
           | (w2, None) \<Rightarrow>
               (case bs_failure b of
                  Some (True, e) \<Rightarrow> ctl_fail rt a ''model_invalid_response'' e w2
                | Some (False, e) \<Rightarrow> action_execution_error rt a e w2
                | None \<Rightarrow>
                    if bs_exceeded b then ctl_fail rt a ''agent_budget_exhausted'' budget_exhausted w2
                    else (w2, None)))) w'))"

text \<open>
  A recovered attempt closes the Actions whose outcome is unknown, unless replaying them is safe. The
  value is whether one was closed.
\<close>

definition interrupted_result :: action_result where
  "interrupted_result = enrich_action_domain_error
     \<lparr>ar_status = action_domain_error, ar_output = Raw_Empty, ar_error_code = ''action_interrupted'', ar_error = None\<rparr>"

fun close_unknown ::
  "('w, 'q) runtime \<Rightarrow> attempt \<Rightarrow> accepted_proposal \<Rightarrow> accepted_action list \<Rightarrow> bool \<Rightarrow> 'w \<Rightarrow> 'w \<times> bool \<times> ctl_error option" where
  "close_unknown rt a proposal [] closed w = (w, closed, None)"
| "close_unknown rt a proposal (x # xs) closed w =
     (if action_crash_replay_safe rt (aa_name x) then close_unknown rt a proposal xs closed w
      else (case new_action_result_checkpoint (apr_decision_no proposal) (aa_index x) (aa_action_id x) interrupted_result of
          Inl e \<Rightarrow> (case ctl_fail rt a ''model_invalid_response'' (Checkpoint_Failure e) w of (w', err) \<Rightarrow> (w', False, err))
        | Inr c \<Rightarrow>
            try_op (rt_append rt a c) (\<lambda>e w'. case handle_runtime_error rt a e w' of (w'', err) \<Rightarrow> (w'', False, err))
              (\<lambda>_. close_unknown rt a proposal xs True) w))"

definition execute_delegation_action ::
  "('w, 'q) runtime \<Rightarrow> attempt \<Rightarrow> execution \<Rightarrow> accepted_action \<Rightarrow> 'w \<Rightarrow> 'w returning" where
  "execute_delegation_action rt a ex action =
     try_op (rt_check_authority rt a) (handle_runtime_error rt a) (\<lambda>_.
       if \<not> rt_session rt
       then ctl_fail rt a ''model_invalid_response'' (Plain_Failure ''delegation requires the MCP Tool Plane'')
       else if resolve_tool (rt_tools rt) (aa_name action) = None
       then ctl_fail rt a ''model_invalid_response'' (Plain_Failure ''accepted unknown MCP Tool'')
       else try_op (rt_invoke rt ex action) (action_execution_error rt a) (\<lambda>raw.
         if \<not> action_result_ok (enrich_action_domain_error raw)
         then ctl_fail rt a ''model_invalid_response'' (Checkpoint_Failure Invalid_Result)
         else (\<lambda>w. (w, None))))"

fun deliver_steering ::
  "('w, 'q) runtime \<Rightarrow> attempt \<Rightarrow> checkpoint_prefix \<Rightarrow> (gostring \<times> gostring) list \<Rightarrow> 'w \<Rightarrow> 'w returning" where
  "deliver_steering rt a p [] w = (w, None)"
| "deliver_steering rt a p ((m, content) # ms) w =
     try_op (lift_check (new_steering_checkpoint (cx_decisions p + 1) m content)) (ctl_fail rt a ''context_failed'') (\<lambda>c.
       try_op (rt_append rt a c) (handle_runtime_error rt a) (\<lambda>_. deliver_steering rt a p ms)) w"

section \<open>Asking for one decision\<close>

datatype decision_step =
    Decided model_decision
  | Decision_Stopped "ctl_error option"

definition truncated_final_notice :: gostring where
  "truncated_final_notice = [char_of (10 :: nat), char_of (10 :: nat)] @ ''[This response was cut off at the model's output limit.]''"

text \<open>
  What becomes of the answer of one call: cut off answers, preparation and the check against the
  request. None as an error means that the decision stands.
\<close>

definition judge_outcome ::
  "('w, 'q) runtime \<Rightarrow> execution \<Rightarrow> checkpoint_prefix \<Rightarrow> gostring list \<Rightarrow> bool \<Rightarrow> int \<Rightarrow> bool \<Rightarrow> nat
     \<Rightarrow> model_outcome \<Rightarrow> ctl_error option \<Rightarrow> 'w \<Rightarrow> 'w \<times> model_decision \<times> ctl_error option" where
  "judge_outcome rt ex p names capable rem avail invalid outcome err w =
     (let d0 = mo_decision outcome;
          cut = err = None \<and> md_final d0 \<noteq> None \<and> mo_finish_reason outcome = ''length'';
          retry = invalid < invalid_response_retry_limit rt;
          err1 = (if cut \<and> retry then Some (Model_Failure Model_Invalid_Response (Some Cut_Off)) else err);
          d1 = (if cut \<and> \<not> retry then d0\<lparr>md_final := map_option (\<lambda>t. t @ truncated_final_notice) (md_final d0)\<rparr> else d0);
          (w1, d2, err2) =
            (case (err1, rt_prepare_response rt) of
               (None, Some f) \<Rightarrow>
                 (case f ex p d1 w of
                    (w', Inl _) \<Rightarrow> (w', d1, Some (Model_Failure Model_Invalid_Response (Some (Reported ''response preparation''))))
                  | (w', Inr d) \<Rightarrow> (w', d, None))
             | _ \<Rightarrow> (w, d1, err1));
          err3 =
            (if err2 \<noteq> None then err2
             else map_option (\<lambda>f. Model_Failure Model_Invalid_Response (Some (Rejected_Decision f)))
                    (validate_decision_for_request (validate_proposal rt) p d2 names capable ex rem avail))
      in (w1, d2, err3))"

text \<open>
  The request may be repaired up to the invalid-response limit and compacted up to the overflow
  limit; each repetition uses up one of the two, so the loop ends.
\<close>

definition build_request ::
  "('w, 'q) runtime \<Rightarrow> execution \<Rightarrow> checkpoint_prefix \<Rightarrow> gostring list \<Rightarrow> nat \<Rightarrow> ('w, 'q) op" where
  "build_request rt ex p names overflow w =
     (case rt_prepare_request rt of
        Some f \<Rightarrow> f ex p names (if overflow > 0 then ''provider_overflow'' else []) w
      | None \<Rightarrow> rt_build_request rt ex p names w)"

definition ask_model ::
  "('w, 'q) runtime \<Rightarrow> attempt \<Rightarrow> execution \<Rightarrow> checkpoint_prefix \<Rightarrow> gostring list \<Rightarrow> nat \<Rightarrow> nat \<Rightarrow> repair_reason option \<Rightarrow> 'w
     \<Rightarrow> 'w \<times> (ctl_error option, model_outcome \<times> ctl_error option) result" where
  "ask_model rt a ex p names overflow invalid detail =
     try_op (build_request rt ex p names overflow)
       (\<lambda>e w. case (if is_retryable_model_error e then handle_model_error rt a e w else ctl_fail rt a ''context_failed'' e w)
              of (w', r) \<Rightarrow> (w', Inl r))
       (\<lambda>q.
         let request = \<lparr>mq_body = q, mq_overflow_attempt = overflow, mq_invocation = rt_invocation rt ex,
                        mq_repair = (if invalid > 0 then Some detail else None)\<rparr> in
         try_op (case rt_finalize_request rt of None \<Rightarrow> (\<lambda>w. (w, Inr request)) | Some f \<Rightarrow> f ex p request)
           (\<lambda>e w. case ctl_fail rt a ''context_failed'' e w of (w', r) \<Rightarrow> (w', Inl r))
           (\<lambda>final_request.
             try_op (rt_check_authority rt a)
               (\<lambda>e w. case handle_runtime_error rt a e w of (w', r) \<Rightarrow> (w', Inl r))
               (\<lambda>_ w.
                 case rt_decide rt final_request w of
                   (w1, outcome, err) \<Rightarrow>
                     ((case rt_record_usage rt of None \<Rightarrow> w1 | Some f \<Rightarrow> fst (f a outcome w1)), Inr (outcome, err)))))"

function decide_loop ::
  "('w, 'q) runtime \<Rightarrow> attempt \<Rightarrow> execution \<Rightarrow> checkpoint_prefix \<Rightarrow> gostring list \<Rightarrow> bool \<Rightarrow> int \<Rightarrow> bool
     \<Rightarrow> nat \<Rightarrow> nat \<Rightarrow> repair_reason option \<Rightarrow> 'w \<Rightarrow> 'w \<times> decision_step" where
  "decide_loop rt a ex p names capable rem avail overflow invalid detail w =
     (case ask_model rt a ex p names overflow invalid detail w of
        (w1, Inl r) \<Rightarrow> (w1, Decision_Stopped r)
      | (w1, Inr (outcome, err)) \<Rightarrow>
          (case judge_outcome rt ex p names capable rem avail invalid outcome err w1 of
             (w2, d, err') \<Rightarrow>
               let detail' = (case err' of
                     Some x \<Rightarrow> (case as_model_error x of Some (Model_Invalid_Response, Some r) \<Rightarrow> Some r | _ \<Rightarrow> detail)
                   | None \<Rightarrow> detail) in
               if error_kind err' = Some Model_Invalid_Response \<and> invalid < invalid_response_retry_limit rt
               then decide_loop rt a ex p names capable rem avail overflow (Suc invalid) detail' w2
               else if error_kind err' \<noteq> Some Model_Context_Overflow
               then (case err' of
                   Some e \<Rightarrow> (case handle_model_error rt a e w2 of (w3, r) \<Rightarrow> (w3, Decision_Stopped r))
                 | None \<Rightarrow> (w2, Decided d))
               else if rt_prepare_request rt = None \<or> int overflow \<ge> ex_overflow_retry_limit ex
               then (case ctl_fail rt a ''context_budget_exhausted'' (Plain_Failure ''context_budget_exhausted'') w2 of
                       (w3, r) \<Rightarrow> (w3, Decision_Stopped r))
               else decide_loop rt a ex p names capable rem avail (Suc overflow) invalid detail' w2))"
  by pat_completeness auto
termination
  by (relation "measure (\<lambda>(rt, a, ex, p, names, capable, rem, avail, overflow, invalid, detail, w).
        (invalid_response_retry_limit rt - invalid) + (nat (ex_overflow_retry_limit ex) - overflow))")
    (auto simp: not_le)

declare decide_loop.simps [simp del]

section \<open>One iteration\<close>

datatype loop_step = Again bool | Returned "ctl_error option"

definition finish :: "'w returning \<Rightarrow> 'w \<times> loop_step" where
  "finish r = (fst r, Returned (snd r))"

text \<open>Continue after a step that reports nil, return its error otherwise.\<close>

definition then_again :: "'w returning \<Rightarrow> 'w \<times> loop_step" where
  "then_again r = (fst r, case snd r of None \<Rightarrow> Again False | Some e \<Rightarrow> Returned (Some e))"

definition run_pending ::
  "('w, 'q) runtime \<Rightarrow> attempt \<Rightarrow> execution \<Rightarrow> checkpoint_prefix \<Rightarrow> accepted_proposal \<Rightarrow> accepted_action list \<Rightarrow> 'w \<Rightarrow> 'w \<times> loop_step" where
  "run_pending rt a ex p proposal pending =
     (let action = hd pending in
      if is_exclusive_delegation rt (aa_name action) \<and> ex_existing_child_count ex = 0
      then (\<lambda>w. finish (execute_delegation_action rt a ex action w))
      else if length pending > 1 \<and> all_parallel_eligible rt pending
      then (\<lambda>w. then_again (execute_parallel_batch rt a ex p proposal pending w))
      else (\<lambda>w. then_again (execute_action rt a ex p proposal action w)))"

definition run_incomplete ::
  "('w, 'q) runtime \<Rightarrow> attempt \<Rightarrow> execution \<Rightarrow> bool \<Rightarrow> checkpoint_prefix \<Rightarrow> accepted_proposal \<Rightarrow> accepted_action list \<Rightarrow> 'w \<Rightarrow> 'w \<times> loop_step" where
  "run_incomplete rt a ex boundary p proposal pending w =
     (if boundary \<and> at_attempt_no a > 1
      then (case close_unknown rt a proposal pending False w of
          (w', _, Some e) \<Rightarrow> (w', Returned (Some e))
        | (w', True, None) \<Rightarrow> (w', Again False)
        | (w', False, None) \<Rightarrow> run_pending rt a ex p proposal pending w')
      else run_pending rt a ex p proposal pending w)"

definition accept_decision ::
  "('w, 'q) runtime \<Rightarrow> attempt \<Rightarrow> execution \<Rightarrow> checkpoint_prefix \<Rightarrow> bool \<Rightarrow> model_decision \<Rightarrow> 'w \<Rightarrow> 'w \<times> loop_step" where
  "accept_decision rt a ex p capable d =
     try_op (rt_check_authority rt a) (\<lambda>e w. finish (handle_runtime_error rt a e w)) (\<lambda>_.
       case md_final d of
         Some t \<Rightarrow>
           try_op (case rt_prepare_final rt of None \<Rightarrow> (\<lambda>w. (w, Inr t)) | Some f \<Rightarrow> f a ex p t)
             (\<lambda>e w. finish (ctl_fail rt a ''grounding_failed'' e w)) (\<lambda>prepared.
             try_op (lift_check (new_final_draft_checkpoint (cx_decisions p + 1) prepared))
               (\<lambda>e w. finish (ctl_fail rt a (if capable then ''model_invalid_response'' else ''agent_budget_exhausted'') e w))
               (\<lambda>c w. then_again (append_or_report rt a c w)))
       | None \<Rightarrow>
           if \<not> capable
           then (\<lambda>w. finish (ctl_fail rt a ''agent_budget_exhausted'' (Plain_Failure ''reserved Final decision proposed Actions'') w))
           else try_op (lift_check (new_proposal_checkpoint (cx_decisions p + 1) (case md_proposal d of None \<Rightarrow> [] | Some as \<Rightarrow> as)))
               (\<lambda>e w. finish (ctl_fail rt a ''model_invalid_response'' e w))
               (\<lambda>c w. then_again (append_or_report rt a c w)))"

definition kept_definitions :: "gostring list option \<Rightarrow> gostring list \<Rightarrow> gostring list" where
  "kept_definitions wrap_up names = (case wrap_up of None \<Rightarrow> names | Some keep \<Rightarrow> filter (\<lambda>n. n \<in> set keep) names)"

definition ask_decision ::
  "('w, 'q) runtime \<Rightarrow> attempt \<Rightarrow> execution \<Rightarrow> checkpoint_prefix \<Rightarrow> bool \<Rightarrow> gostring list option \<Rightarrow> 'w \<Rightarrow> 'w \<times> loop_step" where
  "ask_decision rt a ex p avail wrap_up =
     try_op (action_definitions rt \<lparr>pol_remaining_actions = (if avail then remaining_actions ex p else 0),
               pol_execution = Some ex, pol_allowed_names = None\<rparr>)
       (\<lambda>e w. finish (handle_runtime_error rt a e w)) (\<lambda>all w.
         let names = kept_definitions wrap_up all; capable = names \<noteq> [] in
         if \<not> capable \<and> ex_final_decision_limit ex < 1
         then finish (ctl_fail rt a ''agent_budget_exhausted'' (Plain_Failure ''no reserved Final decision is available'') w)
         else (case decide_loop rt a ex p names capable (remaining_actions ex p) avail 0 0 None w of
             (w', Decision_Stopped r) \<Rightarrow> (w', Returned r)
           | (w', Decided d) \<Rightarrow> accept_decision rt a ex p capable d w'))"

definition next_decision ::
  "('w, 'q) runtime \<Rightarrow> attempt \<Rightarrow> execution \<Rightarrow> checkpoint_prefix \<Rightarrow> 'w \<Rightarrow> 'w \<times> loop_step" where
  "next_decision rt a ex p =
     (let avail = business_decision_available ex p in
      case rt_budget_exhausted rt of
        Some f \<Rightarrow>
          if avail then
            try_op (f a) (\<lambda>e w. finish (handle_runtime_error rt a e w)) (\<lambda>spent.
              if spent then
                (case rt_wrap_up_tools rt of
                   None \<Rightarrow> ask_decision rt a ex p False None
                 | Some g \<Rightarrow> ask_decision rt a ex p True (g ex))
              else ask_decision rt a ex p True None)
          else ask_decision rt a ex p False None
      | None \<Rightarrow> ask_decision rt a ex p avail None)"

definition iteration ::
  "('w, 'q) runtime \<Rightarrow> attempt \<Rightarrow> execution \<Rightarrow> bool \<Rightarrow> 'w \<Rightarrow> 'w \<times> loop_step" where
  "iteration rt a ex boundary =
     try_op (rt_load_prefix rt a) (\<lambda>e w. finish (handle_runtime_error rt a e w)) (\<lambda>p.
       case cx_final p of
         Some t \<Rightarrow>
           (\<lambda>w. case rt_publish_final rt a t w of
                 (w', Inl e) \<Rightarrow> (w', Returned (Some e)) | (w', Inr _) \<Rightarrow> (w', Returned None))
       | None \<Rightarrow>
           (case incomplete_actions p of
              Some (proposal, pending) \<Rightarrow> run_incomplete rt a ex boundary p proposal pending
            | None \<Rightarrow>
                (case rt_pending_steering rt of
                   None \<Rightarrow> next_decision rt a ex p
                 | Some f \<Rightarrow>
                     try_op (f a) (\<lambda>e w. finish (handle_runtime_error rt a e w)) (\<lambda>ms.
                       if ms \<noteq> [] then (\<lambda>w. then_again (deliver_steering rt a p ms w))
                       else next_decision rt a ex p))))"

section \<open>Execute\<close>

datatype run_outcome = Run_Returned "ctl_error option" | Out_Of_Fuel

fun execute_loop :: "nat \<Rightarrow> ('w, 'q) runtime \<Rightarrow> attempt \<Rightarrow> execution \<Rightarrow> bool \<Rightarrow> 'w \<Rightarrow> 'w \<times> run_outcome" where
  "execute_loop 0 rt a ex boundary w = (w, Out_Of_Fuel)"
| "execute_loop (Suc n) rt a ex boundary w =
     (case iteration rt a ex boundary w of
        (w', Returned r) \<Rightarrow> (w', Run_Returned r)
      | (w', Again b) \<Rightarrow> execute_loop n rt a ex b w')"

definition execute_run :: "nat \<Rightarrow> ('w, 'q) runtime \<Rightarrow> attempt \<Rightarrow> 'w \<Rightarrow> 'w \<times> run_outcome" where
  "execute_run n rt a =
     try_op (rt_load rt a) (\<lambda>e w. (w, Run_Returned (Some e))) (\<lambda>ex.
       try_op (case rt_start_run rt of None \<Rightarrow> (\<lambda>w. (w, Inr ())) | Some f \<Rightarrow> f a ex)
         (\<lambda>e w. (w, Run_Returned (Some e))) (\<lambda>_.
       try_op (if rt_session rt then rt_open_session rt a ex else (\<lambda>w. (w, Inr ())))
         (\<lambda>e w. (w, Run_Returned (Some e))) (\<lambda>_. execute_loop n rt a ex True)))"

end
