(* ===== verification/Controller_Steps.thy ===== *)
theory Controller_Steps
  imports Controller
begin

text \<open>
  What the operations of a runtime keep, its Controller keeps: the interface of a reflexive and
  transitive relation between the worlds before and after every operation. Two layers, since most
  clients treat appending a checkpoint apart.
\<close>

section \<open>Operations other than appending\<close>

locale quiet_runtime =
  fixes rt :: "('w, 'q) runtime"
    and R :: "'w \<Rightarrow> 'w \<Rightarrow> bool"
  assumes kept_refl: "R w w"
    and kept_trans: "R w1 w2 \<Longrightarrow> R w2 w3 \<Longrightarrow> R w1 w3"
    and keeps_load: "R w (fst (rt_load rt a w))"
    and keeps_start: "rt_start_run rt = Some f1 \<Longrightarrow> R w (fst (f1 a ex w))"
    and keeps_session: "R w (fst (rt_open_session rt a ex w))"
    and keeps_prefix: "R w (fst (rt_load_prefix rt a w))"
    and keeps_authority: "R w (fst (rt_check_authority rt a w))"
    and keeps_publish: "R w (fst (rt_publish_final rt a t w))"
    and keeps_fail: "R w (fst (rt_fail rt a t w))"
    and keeps_steering: "rt_pending_steering rt = Some f2 \<Longrightarrow> R w (fst (f2 a w))"
    and keeps_exhausted: "rt_budget_exhausted rt = Some f3 \<Longrightarrow> R w (fst (f3 a w))"
    and keeps_usage: "rt_record_usage rt = Some f4 \<Longrightarrow> R w (fst (f4 a out w))"
    and keeps_prepare: "rt_prepare_request rt = Some f5 \<Longrightarrow> R w (fst (f5 ex p names t w))"
    and keeps_build: "R w (fst (rt_build_request rt ex p names w))"
    and keeps_finalize: "rt_finalize_request rt = Some f6 \<Longrightarrow> R w (fst (f6 ex p q w))"
    and keeps_decide: "R w (fst (rt_decide rt q w))"
    and keeps_response: "rt_prepare_response rt = Some f7 \<Longrightarrow> R w (fst (f7 ex p d w))"
    and keeps_final: "rt_prepare_final rt = Some f8 \<Longrightarrow> R w (fst (f8 a ex p t w))"
    and keeps_list: "R w (fst (rt_list_tools rt w))"
    and keeps_invoke: "R w (fst (rt_invoke rt ex x w))"
begin

text \<open>An operation that stays within the relation.\<close>

definition quiet :: "('w \<Rightarrow> 'w \<times> 's) \<Rightarrow> bool" where
  "quiet m \<longleftrightarrow> (\<forall>w. R w (fst (m w)))"

lemma quietI: "(\<And>w. R w (fst (m w))) \<Longrightarrow> quiet m"
  by (simp add: quiet_def)

lemma quiet_at: "quiet m \<Longrightarrow> R w (fst (m w))"
  by (simp add: quiet_def)

lemma quietD: "quiet m \<Longrightarrow> m w = (w', r) \<Longrightarrow> R w w'"
  unfolding quiet_def by (metis fst_conv)

lemma quiet_try:
  assumes "quiet m" and "\<And>e. quiet (h e)" and "\<And>x. quiet (f x)"
  shows "quiet (try_op m h f)"
proof (rule quietI)
  fix w
  obtain w' r where m: "m w = (w', r)" by fastforce
  with assms(1) have "R w w'" by (rule quietD)
  moreover have "R w' (fst (try_op m h f w))"
    using m assms(2,3) by (cases r) (simp_all add: try_op_def quiet_at)
  ultimately show "R w (fst (try_op m h f w))" by (rule kept_trans)
qed

lemma quiet_const: "quiet (\<lambda>w. (w, s))"
  by (rule quietI) (simp add: kept_refl)

lemma quiet_lift: "quiet (lift_check r)"
  by (rule quietI) (simp add: lift_check_def kept_refl)

lemma quiet_snd: "quiet m \<Longrightarrow> quiet (\<lambda>w. case m w of (w', r) \<Rightarrow> (w', g r))"
  by (auto simp: quiet_def split: prod.splits) (metis fst_conv)

lemma quiet_finish: "quiet m \<Longrightarrow> quiet (\<lambda>w. finish (m w))"
  by (simp add: quiet_def finish_def)

lemma quiet_again: "quiet m \<Longrightarrow> quiet (\<lambda>w. then_again (m w))"
  by (simp add: quiet_def then_again_def)

lemma quiet_fail: "quiet (ctl_fail rt a code e)"
proof (rule quietI)
  fix w
  show "R w (fst (ctl_fail rt a code e w))"
    using keeps_fail [of w a code] by (auto simp: ctl_fail_def split: prod.splits sum.splits)
qed

lemma quiet_runtime_error: "quiet (handle_runtime_error rt a e)"
  by (rule quietI) (simp add: handle_runtime_error_def kept_refl quiet_at [OF quiet_fail])

lemma quiet_model_error: "quiet (handle_model_error rt a e)"
  by (rule quietI) (auto simp: handle_model_error_def kept_refl quiet_at [OF quiet_fail] split: option.splits)

lemma quiet_execution_error: "quiet (action_execution_error rt a e)"
  by (rule quietI) (simp add: action_execution_error_def kept_refl quiet_at [OF quiet_fail] quiet_at [OF quiet_runtime_error])

lemma quiet_definitions: "quiet (action_definitions rt pol)"
proof (rule quietI)
  fix w
  show "R w (fst (action_definitions rt pol w))"
    using keeps_list [of w] kept_refl by (auto simp: action_definitions_def split: prod.splits sum.splits)
qed

lemma quiet_invoke: "quiet (rt_invoke rt ex x)"
  by (rule quietI) (rule keeps_invoke)

lemma quiet_authority: "quiet (rt_check_authority rt a)"
  by (rule quietI) (rule keeps_authority)

lemma quiet_build: "quiet (build_request rt ex p names overflow)"
  using keeps_prepare keeps_build by (auto simp: quiet_def build_request_def split: option.splits)

lemma quiet_finalize: "quiet (case rt_finalize_request rt of None \<Rightarrow> (\<lambda>w. (w, Inr request)) | Some f \<Rightarrow> f ex p request)"
  using keeps_finalize kept_refl by (auto simp: quiet_def split: option.splits)

lemma quiet_prepare_final: "quiet (case rt_prepare_final rt of None \<Rightarrow> (\<lambda>w. (w, Inr t)) | Some f \<Rightarrow> f a ex p t)"
  using keeps_final kept_refl by (auto simp: quiet_def split: option.splits)

lemma quiet_call:
  "quiet (\<lambda>w. case rt_decide rt q w of
     (w1, outcome, err) \<Rightarrow> ((case rt_record_usage rt of None \<Rightarrow> w1 | Some f \<Rightarrow> fst (f a outcome w1)), Inr (outcome, err)))"
proof (rule quietI)
  fix w
  obtain w1 outcome err where d: "rt_decide rt q w = (w1, outcome, err)" by (cases "rt_decide rt q w")
  with keeps_decide [of w q] have "R w w1" by simp
  moreover have "R w1 (case rt_record_usage rt of None \<Rightarrow> w1 | Some f \<Rightarrow> fst (f a outcome w1))"
    using keeps_usage kept_refl by (cases "rt_record_usage rt") auto
  ultimately have "R w (case rt_record_usage rt of None \<Rightarrow> w1 | Some f \<Rightarrow> fst (f a outcome w1))" by (rule kept_trans)
  with d show "R w (fst (case rt_decide rt q w of
     (w1, outcome, err) \<Rightarrow> ((case rt_record_usage rt of None \<Rightarrow> w1 | Some f \<Rightarrow> fst (f a outcome w1)), Inr (outcome, err))))"
    by simp
qed

lemma quiet_ask: "quiet (ask_model rt a ex p names overflow invalid detail)"
  unfolding ask_model_def Let_def
proof (intro quiet_try quiet_build quiet_finalize quiet_authority quiet_call)
  fix e
  show "quiet (\<lambda>w. case (if is_retryable_model_error e then handle_model_error rt a e w else ctl_fail rt a ''context_failed'' e w)
              of (w', r) \<Rightarrow> (w', Inl r))"
    using quiet_snd [OF quiet_model_error, of Inl] quiet_snd [OF quiet_fail, of Inl] by (cases "is_retryable_model_error e") simp_all
  show "quiet (\<lambda>w. case ctl_fail rt a ''context_failed'' e w of (w', r) \<Rightarrow> (w', Inl r))"
    by (rule quiet_snd) (rule quiet_fail)
  show "quiet (\<lambda>w. case handle_runtime_error rt a e w of (w', r) \<Rightarrow> (w', Inl r))"
    by (rule quiet_snd) (rule quiet_runtime_error)
qed

lemma quiet_judge: "R w (fst (judge_outcome rt ex p names capable rem avail invalid outcome err w))"
proof (cases "rt_prepare_response rt")
  case None
  then show ?thesis by (auto simp: judge_outcome_def Let_def kept_refl split: option.splits)
next
  case (Some f)
  have "R w w'" if "f ex p d w = (w', r)" for d w' r
    using keeps_response [OF Some, of w ex p d] that by simp
  then show ?thesis
    by (auto simp: judge_outcome_def Let_def Some kept_refl split: option.splits prod.splits sum.splits)
qed

lemma quiet_decide_loop_aux:
  "r0 = rt \<Longrightarrow> R w (fst (decide_loop r0 a ex p names capable rem avail overflow invalid detail w))"
proof (induction r0 a ex p names capable rem avail overflow invalid detail w rule: decide_loop.induct)
  case (1 r0 a ex p names capable rem avail overflow invalid detail w)
  obtain w1 r where ask: "ask_model r0 a ex p names overflow invalid detail w = (w1, r)" by fastforce
  then have q1: "R w w1" using quiet_ask 1(3) by (metis quietD)
  show ?case
  proof (cases r)
    case (Inl e)
    with ask q1 show ?thesis by (simp add: decide_loop.simps [of r0 a ex p names capable rem avail overflow])
  next
    case (Inr y)
    obtain outcome err where y: "y = (outcome, err)" by (cases y)
    obtain w2 d' err' where judge: "judge_outcome r0 ex p names capable rem avail invalid outcome err w1 = (w2, d', err')"
      by (cases "judge_outcome r0 ex p names capable rem avail invalid outcome err w1") auto
    then have q2: "R w w2" using quiet_judge 1(3) kept_trans [OF q1] by (metis fst_conv)
    have IH1: "R w2 (fst (decide_loop r0 a ex p names capable rem avail overflow (Suc invalid) x w2))"
      if "x = (case err' of Some x \<Rightarrow> (case as_model_error x of Some (Model_Invalid_Response, Some r) \<Rightarrow> Some r | _ \<Rightarrow> detail)
                 | None \<Rightarrow> detail)" "error_kind err' = Some Model_Invalid_Response \<and> invalid < invalid_response_retry_limit r0" for x
      using 1(1) [OF ask [symmetric] Inr y [symmetric] judge [symmetric] refl that 1(3)] .
    have IH2: "R w2 (fst (decide_loop r0 a ex p names capable rem avail (Suc overflow) invalid x w2))"
      if "x = (case err' of Some x \<Rightarrow> (case as_model_error x of Some (Model_Invalid_Response, Some r) \<Rightarrow> Some r | _ \<Rightarrow> detail)
                 | None \<Rightarrow> detail)" "\<not> (error_kind err' = Some Model_Invalid_Response \<and> invalid < invalid_response_retry_limit r0)"
        "\<not> error_kind err' \<noteq> Some Model_Context_Overflow"
        "\<not> (rt_prepare_request r0 = None \<or> int overflow \<ge> ex_overflow_retry_limit ex)" for x
      using 1(2) [OF ask [symmetric] Inr y [symmetric] judge [symmetric] refl that 1(3)] .
    have f: "R w2 (fst (ctl_fail r0 a code e w2))" and h: "R w2 (fst (handle_model_error r0 a e w2))" for code e
      using quiet_at [OF quiet_fail] quiet_at [OF quiet_model_error] 1(3) by blast+
    let ?x = "case err' of Some x \<Rightarrow> (case as_model_error x of Some (Model_Invalid_Response, Some r) \<Rightarrow> Some r | _ \<Rightarrow> detail)
                 | None \<Rightarrow> detail"
    note step = decide_loop.simps [of r0 a ex p names capable rem avail overflow invalid detail w, unfolded ask Inr y judge
      prod.case sum.case Let_def]
    have "R w2 (fst (decide_loop r0 a ex p names capable rem avail overflow invalid detail w))"
    proof (cases "error_kind err' = Some Model_Invalid_Response \<and> invalid < invalid_response_retry_limit r0")
      case True
      then show ?thesis unfolding step by (simp only: simp_thms if_True) (rule IH1 [OF refl True])
    next
      case F1: False
      show ?thesis
      proof (cases "error_kind err' = Some Model_Context_Overflow")
        case False
        with h show ?thesis unfolding step if_not_P [OF F1]
          by (cases err') (auto simp: kept_refl split: prod.split, metis fst_conv)
      next
        case T: True
        then have nT: "\<not> error_kind err' \<noteq> Some Model_Context_Overflow" by simp
        show ?thesis
        proof (cases "rt_prepare_request r0 = None \<or> int overflow \<ge> ex_overflow_retry_limit ex")
          case True
          show ?thesis unfolding step if_not_P [OF F1] if_not_P [OF nT] if_P [OF True]
            using f by (auto split: prod.split) (metis fst_conv)
        next
          case False
          show ?thesis unfolding step if_not_P [OF F1] if_not_P [OF nT] if_not_P [OF False]
            by (rule IH2 [OF refl F1 nT False])
        qed
      qed
    qed
    with q2 show ?thesis by (rule kept_trans)
  qed
qed

lemma quiet_decide_loop: "quiet (decide_loop rt a ex p names capable rem avail overflow invalid detail)"
  using quiet_decide_loop_aux [OF refl] by (simp add: quiet_def)

lemma quiet_run_tasks: "R w (fst (run_tasks rt ex actions order outs w))"
proof (induction order arbitrary: outs w)
  case Nil
  then show ?case by (simp add: kept_refl)
next
  case (Cons i order)
  obtain w' r where m: "rt_invoke rt ex (actions ! i) w = (w', r)" by fastforce
  with keeps_invoke [of w ex "actions ! i"] have "R w w'" by simp
  with m Cons.IH show ?case by (auto intro: kept_trans)
qed

lemma quiet_run_parallel: "quiet (run_parallel rt ex actions)"
  by (rule quietI) (simp add: run_parallel_def quiet_run_tasks)

lemma quiet_delegation: "quiet (execute_delegation_action rt a ex action)"
  unfolding execute_delegation_action_def
  by (intro quiet_try quiet_authority quiet_runtime_error)
    (simp, intro conjI impI quiet_try quiet_fail quiet_invoke quiet_execution_error, simp add: quiet_fail quiet_const)

end

section \<open>Appending too\<close>

locale step_runtime = quiet_runtime +
  assumes keeps_append: "R w (fst (rt_append rt a c w))"
begin

lemma quiet_append: "quiet (rt_append rt a c)"
  by (rule quietI) (rule keeps_append)

lemma quiet_report: "quiet (append_or_report rt a c)"
  unfolding append_or_report_def by (intro quiet_try quiet_append quiet_runtime_error quiet_const)

lemma quiet_accept_result: "quiet (accept_result rt a ex p proposal action r)"
  unfolding accept_result_def
  by (simp add: quiet_fail, intro impI quiet_try quiet_lift quiet_fail) (simp add: quiet_fail quiet_report)

lemma quiet_execute_action: "quiet (execute_action rt a ex p proposal action)"
  unfolding execute_action_def
  by (simp add: quiet_fail, intro impI quiet_try quiet_invoke quiet_execution_error quiet_accept_result)

lemma quiet_append_all: "quiet (append_all rt a cs)"
proof (induction cs)
  case Nil
  then show ?case by (simp add: quiet_def kept_refl)
next
  case (Cons c cs)
  have "quiet (try_op (rt_append rt a c) (handle_runtime_error rt a) (\<lambda>_. append_all rt a cs))"
    by (intro quiet_try quiet_append quiet_runtime_error Cons)
  then show ?case by (simp add: quiet_def)
qed

text \<open>A second operation after a first.\<close>

lemma kept_then: "m w = (w', r) \<Longrightarrow> quiet m \<Longrightarrow> R w' v \<Longrightarrow> R w v"
  by (metis quietD kept_trans)

lemma quiet_parallel: "quiet (execute_parallel_batch rt a ex p proposal pending)"
proof (rule quietI)
  fix w
  obtain w1 outs where run: "run_parallel rt ex pending w = (w1, outs)" by fastforce
  have "quiet (try_op (lift_check (encoded_action_result_bytes p)) (ctl_fail rt a ''checkpoint_invalid'') (\<lambda>used w1.
          let b = batch_outcomes ex (apr_decision_no proposal) used (zip pending outs) in
          (case append_all rt a (bs_commit b) w1 of
             (w2, Some e) \<Rightarrow> (w2, Some e)
           | (w2, None) \<Rightarrow>
               (case bs_failure b of
                  Some (True, e) \<Rightarrow> ctl_fail rt a ''model_invalid_response'' e w2
                | Some (False, e) \<Rightarrow> action_execution_error rt a e w2
                | None \<Rightarrow>
                    if bs_exceeded b then ctl_fail rt a ''agent_budget_exhausted'' budget_exhausted w2
                    else (w2, None)))))" (is "quiet ?m")
  proof (intro quiet_try quiet_lift quiet_fail quietI)
    fix used v
    let ?b = "batch_outcomes ex (apr_decision_no proposal) used (zip pending outs)"
    obtain w2 r where ap: "append_all rt a (bs_commit ?b) v = (w2, r)" by fastforce
    have "R w2 (fst (case bs_failure ?b of
                  Some (True, e) \<Rightarrow> ctl_fail rt a ''model_invalid_response'' e w2
                | Some (False, e) \<Rightarrow> action_execution_error rt a e w2
                | None \<Rightarrow>
                    if bs_exceeded ?b then ctl_fail rt a ''agent_budget_exhausted'' budget_exhausted w2
                    else (w2, None)))"
      by (auto simp: kept_refl quiet_at [OF quiet_fail] quiet_at [OF quiet_execution_error] split: option.split bool.split)
    then have "R v (fst (case bs_failure ?b of
                  Some (True, e) \<Rightarrow> ctl_fail rt a ''model_invalid_response'' e w2
                | Some (False, e) \<Rightarrow> action_execution_error rt a e w2
                | None \<Rightarrow>
                    if bs_exceeded ?b then ctl_fail rt a ''agent_budget_exhausted'' budget_exhausted w2
                    else (w2, None)))"
      by (rule kept_then [OF ap quiet_append_all])
    moreover have "R v w2" using ap quiet_append_all by (blast dest: quietD)
    ultimately show "R v (fst (let b = ?b in
          (case append_all rt a (bs_commit b) v of
             (w2, Some e) \<Rightarrow> (w2, Some e)
           | (w2, None) \<Rightarrow>
               (case bs_failure b of
                  Some (True, e) \<Rightarrow> ctl_fail rt a ''model_invalid_response'' e w2
                | Some (False, e) \<Rightarrow> action_execution_error rt a e w2
                | None \<Rightarrow>
                    if bs_exceeded b then ctl_fail rt a ''agent_budget_exhausted'' budget_exhausted w2
                    else (w2, None)))))"
      unfolding Let_def ap by (cases r) simp_all
  qed
  then have "R w1 (fst (?m w1))" by (rule quiet_at)
  with run quiet_run_parallel show "R w (fst (execute_parallel_batch rt a ex p proposal pending w))"
    by (auto simp: execute_parallel_batch_def quiet_at [OF quiet_fail] intro: kept_then)
qed

lemma quiet_close: "quiet (close_unknown rt a proposal xs closed)"
proof (induction xs arbitrary: closed)
  case Nil
  then show ?case by (simp add: quiet_def kept_refl)
next
  case (Cons x xs)
  have err: "quiet (\<lambda>w'. case handle_runtime_error rt a e w' of (w'', err) \<Rightarrow> (w'', False, err))"
    "quiet (\<lambda>w'. case ctl_fail rt a code e w' of (w'', err) \<Rightarrow> (w'', False, err))" for e code
    using quiet_snd [OF quiet_runtime_error, of "\<lambda>err. (False, err)"] quiet_snd [OF quiet_fail, of "\<lambda>err. (False, err)"]
    by simp_all
  have "quiet (try_op (rt_append rt a c) (\<lambda>e w'. case handle_runtime_error rt a e w' of (w'', err) \<Rightarrow> (w'', False, err))
              (\<lambda>_. close_unknown rt a proposal xs True))" for c
    by (intro quiet_try quiet_append err Cons)
  with err Cons show ?case
    by (auto simp: quiet_def split: sum.split)
qed

lemma quiet_deliver: "quiet (deliver_steering rt a p ms)"
proof (induction ms)
  case Nil
  then show ?case by (simp add: quiet_def kept_refl)
next
  case (Cons x ms)
  obtain m content where x: "x = (m, content)" by (cases x)
  have "quiet (try_op (lift_check (new_steering_checkpoint (cx_decisions p + 1) m content)) (ctl_fail rt a ''context_failed'') (\<lambda>c.
       try_op (rt_append rt a c) (handle_runtime_error rt a) (\<lambda>_. deliver_steering rt a p ms)))"
    by (intro quiet_try quiet_lift quiet_fail quiet_append quiet_runtime_error Cons)
  with x show ?case by (simp add: quiet_def)
qed

lemma quiet_run_pending: "quiet (run_pending rt a ex p proposal pending)"
  by (simp add: run_pending_def Let_def quiet_finish quiet_delegation quiet_again quiet_parallel quiet_execute_action)

lemma quiet_run_incomplete: "quiet (run_incomplete rt a ex boundary p proposal pending)"
proof (rule quietI)
  fix w
  obtain w' closed err where c: "close_unknown rt a proposal pending False w = (w', closed, err)"
    by (cases "close_unknown rt a proposal pending False w") auto
  with quiet_close have "R w w'" by (rule quietD)
  with c quiet_at [OF quiet_run_pending] show "R w (fst (run_incomplete rt a ex boundary p proposal pending w))"
    by (auto simp: run_incomplete_def intro: kept_trans split: option.split bool.split)
qed

lemma quiet_accept_decision: "quiet (accept_decision rt a ex p capable d)"
  unfolding accept_decision_def
proof (intro quiet_try quiet_authority quiet_finish quiet_runtime_error)
  fix u :: unit
  show "quiet (case md_final d of
         Some t \<Rightarrow>
           try_op (case rt_prepare_final rt of None \<Rightarrow> (\<lambda>w. (w, Inr t)) | Some f \<Rightarrow> f a ex p t)
             (\<lambda>e w. finish (ctl_fail rt a ''grounding_failed'' e w)) (\<lambda>prepared.
             try_op (lift_check (new_final_draft_checkpoint (cx_decisions p + 1) prepared))
               (\<lambda>e w. finish (ctl_fail rt a (if capable then ''model_invalid_response'' else ''agent_budget_exhausted'') e w))
               (\<lambda>c w. then_again (append_or_report rt a c w)))
       | None \<Rightarrow>
           if \<not> capable
           then (\<lambda>w. finish (ctl_fail rt a ''agent_budget_exhausted'' (Plain_Failure ''reserved Final decision proposed Actions'') w))
           else try_op (lift_check (new_proposal_checkpoint (cx_decisions p + 1) (case md_proposal d of None \<Rightarrow> [] | Some as \<Rightarrow> as)))
               (\<lambda>e w. finish (ctl_fail rt a ''model_invalid_response'' e w))
               (\<lambda>c w. then_again (append_or_report rt a c w)))"
    by (cases "md_final d"; cases capable)
      (simp_all only: option.case simp_thms if_True if_False, (intro quiet_try quiet_lift quiet_prepare_final quiet_finish quiet_fail
         quiet_again quiet_report)+)
qed

lemma quiet_ask_decision: "quiet (ask_decision rt a ex p avail wrap_up)"
  unfolding ask_decision_def
proof (intro quiet_try quiet_definitions quiet_finish quiet_runtime_error quietI)
  fix all w
  let ?names = "kept_definitions wrap_up all"
  obtain w' s where l: "decide_loop rt a ex p ?names (?names \<noteq> []) (remaining_actions ex p) avail 0 0 None w = (w', s)" by fastforce
  with quiet_decide_loop have w': "R w w'" by (rule quietD)
  have "R w (fst (if ?names = [] \<and> ex_final_decision_limit ex < 1
         then finish (ctl_fail rt a ''agent_budget_exhausted'' (Plain_Failure ''no reserved Final decision is available'') w)
         else (case s of Decision_Stopped r \<Rightarrow> (w', Returned r)
           | Decided d \<Rightarrow> accept_decision rt a ex p (?names \<noteq> []) d w')))"
    using w' quiet_at [OF quiet_finish [OF quiet_fail]] quiet_at [OF quiet_accept_decision]
    by (auto intro: kept_trans split: decision_step.split)
  then show "R w (fst (let names = ?names; capable = names \<noteq> [] in
         if \<not> capable \<and> ex_final_decision_limit ex < 1
         then finish (ctl_fail rt a ''agent_budget_exhausted'' (Plain_Failure ''no reserved Final decision is available'') w)
         else (case decide_loop rt a ex p names capable (remaining_actions ex p) avail 0 0 None w of
             (w', Decision_Stopped r) \<Rightarrow> (w', Returned r)
           | (w', Decided d) \<Rightarrow> accept_decision rt a ex p capable d w')))"
    by (simp only: Let_def l prod.case not_not)
qed

lemma quiet_next_decision: "quiet (next_decision rt a ex p)"
proof (cases "rt_budget_exhausted rt")
  case None
  then show ?thesis by (simp add: next_decision_def quiet_ask_decision)
next
  case (Some f)
  have q: "quiet (f a)" using keeps_exhausted [OF Some] by (simp add: quiet_def)
  have "quiet (try_op (f a) (\<lambda>e w. finish (handle_runtime_error rt a e w)) (\<lambda>spent.
              if spent then
                (case rt_wrap_up_tools rt of
                   None \<Rightarrow> ask_decision rt a ex p False None
                 | Some g \<Rightarrow> ask_decision rt a ex p True (g ex))
              else ask_decision rt a ex p True None))"
    by (intro quiet_try q quiet_finish quiet_runtime_error) (simp add: quiet_ask_decision split: option.split)
  with Some show ?thesis by (simp add: next_decision_def quiet_ask_decision)
qed

lemma quiet_after_load: 
  "quiet (case cx_final p of
         Some t \<Rightarrow>
           (\<lambda>w. case rt_publish_final rt a t w of
                 (w', Inl e) \<Rightarrow> (w', Returned (Some e)) | (w', Inr _) \<Rightarrow> (w', Returned None))
       | None \<Rightarrow>
           (case incomplete_actions p of
              Some (proposal, pending) \<Rightarrow> run_incomplete rt a ex boundary p proposal pending
            | None \<Rightarrow>
                (case rt_pending_steering rt of
                   None \<Rightarrow> next_decision rt a ex p
                 | Some f \<Rightarrow>
                     try_op (f a) (\<lambda>e w. finish (handle_runtime_error rt a e w)) (\<lambda>ms.
                       if ms \<noteq> [] then (\<lambda>w. then_again (deliver_steering rt a p ms w))
                       else next_decision rt a ex p))))"
proof -
  have pub: "quiet (\<lambda>w. case rt_publish_final rt a t w of
                 (w', Inl e) \<Rightarrow> (w', Returned (Some e)) | (w', Inr _) \<Rightarrow> (w', Returned None))" for t
  proof (rule quietI)
    fix w
    show "R w (fst (case rt_publish_final rt a t w of
                 (w', Inl e) \<Rightarrow> (w', Returned (Some e)) | (w', Inr _) \<Rightarrow> (w', Returned None)))"
      using keeps_publish [of w a t] by (auto split: prod.split sum.split)
  qed
  have "quiet (try_op (f a) (\<lambda>e w. finish (handle_runtime_error rt a e w)) (\<lambda>ms.
                       if ms \<noteq> [] then (\<lambda>w. then_again (deliver_steering rt a p ms w))
                       else next_decision rt a ex p))" if "rt_pending_steering rt = Some f" for f
  proof (intro quiet_try quiet_finish quiet_runtime_error)
    show "quiet (f a)" using keeps_steering [OF that] by (simp add: quiet_def)
  qed (simp add: quiet_again quiet_deliver quiet_next_decision)
  with pub show ?thesis
    by (auto simp: quiet_run_incomplete quiet_next_decision split: option.split)
qed

lemma quiet_iteration: "quiet (iteration rt a ex boundary)"
  unfolding iteration_def
  by (intro quiet_try quiet_finish quiet_runtime_error quiet_after_load) (rule quietI, rule keeps_prefix)

lemma quiet_loop: "quiet (execute_loop n rt a ex boundary)"
proof (induction n arbitrary: boundary)
  case 0
  then show ?case by (simp add: quiet_def kept_refl)
next
  case (Suc n)
  show ?case
  proof (rule quietI)
    fix w
    obtain w' s where it: "iteration rt a ex boundary w = (w', s)" by fastforce
    with quiet_iteration have "R w w'" by (rule quietD)
    with it Suc show "R w (fst (execute_loop (Suc n) rt a ex boundary w))"
      by (cases s) (auto intro: kept_trans simp: quiet_def)
  qed
qed

theorem quiet_run: "quiet (execute_run n rt a)"
  unfolding execute_run_def
proof (intro quiet_try quiet_const quiet_loop)
  show "quiet (rt_load rt a)" by (rule quietI) (rule keeps_load)
  fix ex
  show "quiet (case rt_start_run rt of None \<Rightarrow> (\<lambda>w. (w, Inr ())) | Some f \<Rightarrow> f a ex)"
    using keeps_start kept_refl by (auto simp: quiet_def split: option.split)
  show "quiet (if rt_session rt then rt_open_session rt a ex else (\<lambda>w. (w, Inr ())))"
    using keeps_session kept_refl by (auto simp: quiet_def)
qed

end

end
