(* ===== verification/Controller_History.thy ===== *)
theory Controller_History
  imports Controller_Steps
begin

text \<open>
  What the Controller asks its runtime to append: the interface of a runtime with a history of
  appends, and the proof that every iteration of the loop appends nothing, or only what is admitted
  for the prefix it has just loaded.
\<close>

section \<open>What the loop appends\<close>

definition result_of_pending :: "accepted_proposal \<Rightarrow> accepted_action list \<Rightarrow> action_result \<Rightarrow> pending_checkpoint \<Rightarrow> bool" where
  "result_of_pending proposal pending r c \<longleftrightarrow>
     (\<exists>x \<in> set pending. new_action_result_checkpoint (apr_decision_no proposal) (aa_index x) (aa_action_id x) r = Inr c)"

definition results_admitted :: "execution \<Rightarrow> checkpoint_prefix \<Rightarrow> accepted_proposal \<Rightarrow> accepted_action list \<Rightarrow> pending_checkpoint list \<Rightarrow> bool" where
  "results_admitted ex p proposal pending new \<longleftrightarrow>
     (\<forall>c \<in> set new. payload_bytes c \<le> ex_action_result_byte_limit ex \<and> (\<exists>r. action_result_ok r \<and> result_of_pending proposal pending r c))
     \<and> (new \<noteq> [] \<longrightarrow> (\<exists>used. encoded_action_result_bytes p = Inr used
            \<and> used + sum_list (map payload_bytes new) \<le> ex_action_results_byte_limit ex))"

definition proposal_admitted :: "('w, 'q) runtime \<Rightarrow> execution \<Rightarrow> checkpoint_prefix \<Rightarrow> pending_checkpoint \<Rightarrow> bool" where
  "proposal_admitted rt ex p c \<longleftrightarrow>
     (\<exists>actions. new_proposal_checkpoint (cx_decisions p + 1) actions = Inr c
        \<and> validate_proposal rt actions = None
        \<and> int (length actions) \<le> ex_action_batch_limit ex
        \<and> (within_budget ex p \<longrightarrow> within_budget ex (apply_outcome p (Accept_Proposal actions))))"

text \<open>What one iteration may append after loading the prefix \<open>p\<close>.\<close>

definition admitted :: "('w, 'q) runtime \<Rightarrow> execution \<Rightarrow> checkpoint_prefix \<Rightarrow> pending_checkpoint list \<Rightarrow> bool" where
  "admitted rt ex p new \<longleftrightarrow>
     cx_final p = None
     \<and> (case incomplete_actions p of
          Some (proposal, pending) \<Rightarrow>
            (\<forall>c \<in> set new. result_of_pending proposal pending interrupted_result c)
            \<or> results_admitted ex p proposal pending new
        | None \<Rightarrow>
            (\<exists>c. new = [c] \<and> proposal_admitted rt ex p c)
            \<or> (\<exists>c t. new = [c] \<and> new_final_draft_checkpoint (cx_decisions p + 1) t = Inr c)
            \<or> (\<forall>c \<in> set new. \<exists>m t. new_steering_checkpoint (cx_decisions p + 1) m t = Inr c))"

lemma judge_decides:
  "judge_outcome rt ex p names capable rem avail invalid outcome err w = (w', d, None) \<Longrightarrow>
   validate_decision_for_request (validate_proposal rt) p d names capable ex rem avail = None"
  by (auto simp: judge_outcome_def Let_def split: option.splits prod.splits sum.splits if_splits)

lemma decide_loop_decides:
  "decide_loop rt a ex p names capable rem avail overflow invalid detail w = (w', Decided d) \<Longrightarrow>
   validate_decision_for_request (validate_proposal rt) p d names capable ex rem avail = None"
proof (induction rt a ex p names capable rem avail overflow invalid detail w rule: decide_loop.induct)
  case (1 rt a ex p names capable rem avail overflow invalid detail w)
  obtain w1 r where ask: "ask_model rt a ex p names overflow invalid detail w = (w1, r)" by fastforce
  show ?case
  proof (cases r)
    case (Inl e)
    with 1(3) ask show ?thesis by (simp add: decide_loop.simps [of rt a ex p names capable rem avail overflow])
  next
    case (Inr y)
    obtain outcome err where y: "y = (outcome, err)" by (cases y)
    obtain w2 d' err' where judge: "judge_outcome rt ex p names capable rem avail invalid outcome err w1 = (w2, d', err')"
      by (cases "judge_outcome rt ex p names capable rem avail invalid outcome err w1") auto
    note IH = 1(1) [OF ask [symmetric] Inr y [symmetric] judge [symmetric] refl refl]
      1(2) [OF ask [symmetric] Inr y [symmetric] judge [symmetric] refl refl]
    show ?thesis
      using 1(3) ask Inr y judge IH judge_decides
      by (simp add: decide_loop.simps [of rt a ex p names capable rem avail overflow invalid] Let_def
          split: if_splits option.splits prod.splits)
  qed
qed


section \<open>Results of a batch\<close>

lemma payload_bytes_nonneg: "0 \<le> payload_bytes c"
  by (simp add: payload_bytes_def split: raw.splits)

lemma results_admitted_Nil [simp]: "results_admitted ex p proposal pending []"
  by (simp add: results_admitted_def)

lemma results_admitted_prefix:
  assumes "results_admitted ex p proposal pending cs"
  shows "results_admitted ex p proposal pending (take k cs)"
proof -
  have "sum_list (map payload_bytes (take k cs)) \<le> sum_list (map payload_bytes cs)"
  proof -
    have "sum_list (map payload_bytes cs)
        = sum_list (map payload_bytes (take k cs)) + sum_list (map payload_bytes (drop k cs))"
      by (metis append_take_drop_id map_append sum_list_append)
    moreover have "0 \<le> sum_list (map payload_bytes (drop k cs))"
      by (rule sum_list_nonneg) (auto simp: payload_bytes_nonneg)
    ultimately show ?thesis by simp
  qed
  with assms show ?thesis by (fastforce simp: results_admitted_def dest: in_set_takeD)
qed

definition batch_inv :: "execution \<Rightarrow> accepted_proposal \<Rightarrow> accepted_action list \<Rightarrow> int \<Rightarrow> batch_state \<Rightarrow> bool" where
  "batch_inv ex proposal pending used b \<longleftrightarrow>
     bs_used b = used + sum_list (map payload_bytes (bs_commit b))
     \<and> (bs_commit b \<noteq> [] \<longrightarrow> bs_used b \<le> ex_action_results_byte_limit ex)
     \<and> (\<forall>c \<in> set (bs_commit b). payload_bytes c \<le> ex_action_result_byte_limit ex
          \<and> (\<exists>r. action_result_ok r \<and> result_of_pending proposal pending r c))"

lemma batch_inv_failure: "batch_inv ex proposal pending used (note_failure v e b) = batch_inv ex proposal pending used b"
  by (simp add: note_failure_def batch_inv_def)

lemma batch_outcome_inv:
  assumes "batch_inv ex proposal pending used b" and "fst x \<in> set pending"
  shows "batch_inv ex proposal pending used (batch_outcome ex (apr_decision_no proposal) b x)"
proof (cases "snd x")
  case (Inl e)
  with assms show ?thesis by (simp add: batch_outcome_def batch_inv_failure)
next
  case (Inr raw)
  let ?r = "enrich_action_domain_error raw"
  show ?thesis
  proof (cases "action_result_ok ?r \<and> \<not> bs_exceeded b")
    case False
    with assms Inr show ?thesis by (auto simp: batch_outcome_def batch_inv_failure Let_def)
  next
    case True
    show ?thesis
    proof (cases "new_action_result_checkpoint (apr_decision_no proposal) (aa_index (fst x)) (aa_action_id (fst x)) ?r")
      case (Inl e)
      with True \<open>snd x = Inr raw\<close> assms show ?thesis by (simp add: batch_outcome_def batch_inv_failure Let_def)
    next
      case (Inr c)
      then have "result_of_pending proposal pending ?r c"
        using assms(2) by (auto simp: result_of_pending_def)
      moreover have "batch_outcome ex (apr_decision_no proposal) b x
          = (if over_result_budget ex (bs_used b) c then b\<lparr>bs_exceeded := True\<rparr>
             else b\<lparr>bs_used := bs_used b + payload_bytes c, bs_commit := bs_commit b @ [c]\<rparr>)"
        using True Inr \<open>snd x = Inr raw\<close> by (simp add: batch_outcome_def Let_def)
      ultimately show ?thesis
        using True assms(1) by (auto simp: over_result_budget_def batch_inv_def)
    qed
  qed
qed

lemma batch_outcomes_inv:
  assumes "\<forall>x \<in> set xs. fst x \<in> set pending"
  shows "batch_inv ex proposal pending used (batch_outcomes ex (apr_decision_no proposal) used xs)"
proof -
  have "batch_inv ex proposal pending used b \<Longrightarrow>
      batch_inv ex proposal pending used (foldl (batch_outcome ex (apr_decision_no proposal)) b xs)" for b
    using assms by (induction xs arbitrary: b) (simp_all add: batch_outcome_inv)
  moreover have "batch_inv ex proposal pending used \<lparr>bs_failure = None, bs_exceeded = False, bs_used = used, bs_commit = []\<rparr>"
    by (simp add: batch_inv_def)
  ultimately show ?thesis unfolding batch_outcomes_def by blast
qed

section \<open>Interface: a runtime with a history of appends\<close>

text \<open>
  The runtime's world holds a history of the checkpoints it was asked to append; no other operation
  touches it. The client gets what every iteration adds to the history.
\<close>

locale controller_history = quiet_runtime rt "\<lambda>w w'. calls w' = calls w"
  for rt :: "('w, 'q) runtime" and calls :: "'w \<Rightarrow> pending_checkpoint list" +
  assumes calls_append: "calls (fst (rt_append rt a c w)) = calls w @ [c]"
begin

text \<open>What an operation adds to the history.\<close>

definition appends :: "('w \<Rightarrow> 'w \<times> 's) \<Rightarrow> (pending_checkpoint list \<Rightarrow> bool) \<Rightarrow> bool" where
  "appends m Q \<longleftrightarrow> (\<forall>w. \<exists>new. calls (fst (m w)) = calls w @ new \<and> Q new)"

lemma appends_quiet: "quiet m \<Longrightarrow> Q [] \<Longrightarrow> appends m Q"
  by (simp add: appends_def quiet_def)

lemma appends_weaken: "appends m Q \<Longrightarrow> (\<And>new. Q new \<Longrightarrow> R new) \<Longrightarrow> appends m R"
  unfolding appends_def by blast

lemma appends_try:
  assumes "quiet m" and "\<And>e. appends (h e) Q" and "\<And>x w w'. m w = (w', Inr x) \<Longrightarrow> appends (f x) Q"
  shows "appends (try_op m h f) Q"
  unfolding appends_def
proof
  fix w
  obtain w' r where m: "m w = (w', r)" by fastforce
  with assms(1) have "calls w' = calls w" by (rule quietD)
  moreover have "\<exists>new. calls (fst (try_op m h f w)) = calls w' @ new \<and> Q new"
  proof (cases r)
    case (Inl e)
    with m assms(2) [of e] show ?thesis by (simp add: try_op_def appends_def)
  next
    case (Inr x)
    with m assms(3) [of w w' x] show ?thesis by (simp add: try_op_def appends_def)
  qed
  ultimately show "\<exists>new. calls (fst (try_op m h f w)) = calls w @ new \<and> Q new" by simp
qed

lemma appends_fail: "Q [] \<Longrightarrow> appends (ctl_fail rt a code e) Q"
  by (rule appends_quiet [OF quiet_fail])

lemma appends_runtime_error: "Q [] \<Longrightarrow> appends (handle_runtime_error rt a e) Q"
  by (rule appends_quiet [OF quiet_runtime_error])

lemma appends_finish: "appends m Q \<Longrightarrow> appends (\<lambda>w. finish (m w)) Q"
  by (simp add: appends_def finish_def)

lemma appends_again: "appends m Q \<Longrightarrow> appends (\<lambda>w. then_again (m w)) Q"
  by (simp add: appends_def then_again_def)

lemma appends_report: "Q [c] \<Longrightarrow> appends (append_or_report rt a c) Q"
  unfolding appends_def
proof
  fix w assume q: "Q [c]"
  obtain w' r where m: "rt_append rt a c w = (w', r)" by fastforce
  with calls_append [of a c w] have "calls w' = calls w @ [c]" by simp
  with m q quiet_runtime_error show "\<exists>new. calls (fst (append_or_report rt a c w)) = calls w @ new \<and> Q new"
    by (cases r) (auto simp: append_or_report_def try_op_def quiet_def)
qed

lemma lift_check_Inr: "lift_check r w = (w', Inr x) \<Longrightarrow> r = Inr x"
  by (auto simp: lift_check_def split: sum.splits)

lemma appends_accept_result:
  assumes "action \<in> set pending"
  shows "appends (accept_result rt a ex p proposal action r) (results_admitted ex p proposal pending)"
proof (cases "action_result_ok r")
  case False
  then show ?thesis by (simp add: accept_result_def appends_fail)
next
  case ok: True
  have last: "appends (if over_result_budget ex used c then ctl_fail rt a ''agent_budget_exhausted'' budget_exhausted
               else append_or_report rt a c) (results_admitted ex p proposal pending)"
    if new: "new_action_result_checkpoint (apr_decision_no proposal) (aa_index action) (aa_action_id action) r = Inr c"
      and used: "encoded_action_result_bytes p = Inr used" for c used
  proof (cases "over_result_budget ex used c")
    case True
    then show ?thesis by (simp add: appends_fail)
  next
    case False
    with ok new used assms have "results_admitted ex p proposal pending [c]"
      by (auto simp: results_admitted_def over_result_budget_def result_of_pending_def)
    with False show ?thesis by (simp add: appends_report)
  qed
  have "appends (try_op (lift_check (new_action_result_checkpoint (apr_decision_no proposal) (aa_index action) (aa_action_id action) r))
             (ctl_fail rt a ''model_invalid_response'') (\<lambda>c.
           try_op (lift_check (encoded_action_result_bytes p)) (ctl_fail rt a ''checkpoint_invalid'') (\<lambda>used.
             if over_result_budget ex used c then ctl_fail rt a ''agent_budget_exhausted'' budget_exhausted
             else append_or_report rt a c))) (results_admitted ex p proposal pending)"
    by (rule appends_try [OF quiet_lift], rule appends_fail, simp, rule appends_try [OF quiet_lift], rule appends_fail, simp)
      (blast dest: lift_check_Inr intro: last)
  with ok show ?thesis by (simp add: accept_result_def)
qed

lemma appends_execute_action:
  assumes "action \<in> set pending"
  shows "appends (execute_action rt a ex p proposal action) (results_admitted ex p proposal pending)"
proof (cases "resolve_tool (rt_tools rt) (aa_name action) = None")
  case True
  then show ?thesis by (simp add: execute_action_def appends_fail)
next
  case False
  have "appends (try_op (rt_invoke rt ex action) (action_execution_error rt a)
             (\<lambda>raw. accept_result rt a ex p proposal action (enrich_action_domain_error raw)))
          (results_admitted ex p proposal pending)"
    by (rule appends_try [OF quiet_invoke], rule appends_quiet [OF quiet_execution_error], simp)
      (rule appends_accept_result [OF assms])
  with False show ?thesis by (simp add: execute_action_def appends_fail)
qed

lemma appends_all: "\<exists>k. calls (fst (append_all rt a cs w)) = calls w @ take k cs"
proof (induction cs arbitrary: w)
  case Nil
  then show ?case by simp
next
  case (Cons c cs)
  obtain w' r where m: "rt_append rt a c w = (w', r)" by fastforce
  with calls_append [of a c w] have w': "calls w' = calls w @ [c]" by simp
  show ?case
  proof (cases r)
    case (Inl e)
    have "calls (fst (handle_runtime_error rt a e w')) = calls w'" using quiet_runtime_error by (simp add: quiet_def)
    with m Inl w' show ?thesis by (intro exI [of _ 1]) (simp add: try_op_def)
  next
    case (Inr u)
    from Cons.IH [of w'] obtain k where "calls (fst (append_all rt a cs w')) = calls w' @ take k cs" by blast
    with m Inr w' show ?thesis by (intro exI [of _ "Suc k"]) (simp add: try_op_def)
  qed
qed

lemma appends_parallel:
  "appends (execute_parallel_batch rt a ex p proposal pending) (results_admitted ex p proposal pending)"
  unfolding appends_def
proof
  fix w
  show "\<exists>new. calls (fst (execute_parallel_batch rt a ex p proposal pending w)) = calls w @ new
      \<and> results_admitted ex p proposal pending new"
  proof (cases "list_ex (\<lambda>x. resolve_tool (rt_tools rt) (aa_name x) = None) pending")
    case True
    then show ?thesis using quiet_fail by (intro exI [of _ "[]"]) (simp add: execute_parallel_batch_def quiet_def)
  next
    case False
    obtain w1 outs where run: "run_parallel rt ex pending w = (w1, outs)" by fastforce
    then have w1: "calls w1 = calls w" using quiet_run_tasks by (metis fst_conv run_parallel_def)
    show ?thesis
    proof (cases "encoded_action_result_bytes p")
      case (Inl e)
      have "calls (fst (ctl_fail rt a ''checkpoint_invalid'' (Checkpoint_Failure e) w1)) = calls w1"
        using quiet_fail by (simp add: quiet_def)
      with False run Inl w1 show ?thesis
        by (intro exI [of _ "[]"]) (simp add: execute_parallel_batch_def try_op_def lift_check_def)
    next
      case (Inr used)
      let ?b = "batch_outcomes ex (apr_decision_no proposal) used (zip pending outs)"
      have "batch_inv ex proposal pending used ?b"
        by (rule batch_outcomes_inv) (auto dest: set_zip_leftD)
      with Inr have all: "results_admitted ex p proposal pending (bs_commit ?b)"
        by (auto simp: batch_inv_def results_admitted_def)
      obtain w2 r where ap: "append_all rt a (bs_commit ?b) w1 = (w2, r)" by fastforce
      with appends_all [of a "bs_commit ?b" w1] obtain k where w2: "calls w2 = calls w1 @ take k (bs_commit ?b)" by auto
      have "calls (fst (execute_parallel_batch rt a ex p proposal pending w)) = calls w2"
        using False run Inr ap quiet_fail quiet_execution_error
        by (auto simp: execute_parallel_batch_def try_op_def lift_check_def Let_def quiet_def split: option.splits bool.splits)
      with w1 w2 results_admitted_prefix [OF all, of k] show ?thesis by simp
    qed
  qed
qed

lemma appends_close:
  assumes "set xs \<subseteq> set pending"
  shows "\<exists>new. calls (fst (close_unknown rt a proposal xs closed w)) = calls w @ new
    \<and> (\<forall>c \<in> set new. result_of_pending proposal pending interrupted_result c)
    \<and> (snd (close_unknown rt a proposal xs closed w) = (False, None) \<longrightarrow> new = [] \<and> \<not> closed)"
  using assms
proof (induction xs arbitrary: closed w)
  case Nil
  then show ?case by simp
next
  case (Cons x xs)
  show ?case
  proof (cases "action_crash_replay_safe rt (aa_name x)")
    case True
    with Cons show ?thesis by simp
  next
    case False
    show ?thesis
    proof (cases "new_action_result_checkpoint (apr_decision_no proposal) (aa_index x) (aa_action_id x) interrupted_result")
      case (Inl e)
      have "calls (fst (ctl_fail rt a ''model_invalid_response'' (Checkpoint_Failure e) w)) = calls w"
        using quiet_fail by (simp add: quiet_def)
      moreover have "snd (ctl_fail rt a ''model_invalid_response'' (Checkpoint_Failure e) w) \<noteq> None"
        by (auto simp: ctl_fail_def split: prod.splits sum.splits)
      ultimately show ?thesis using False Inl by (intro exI [of _ "[]"]) (auto split: prod.splits)
    next
      case new: (Inr c)
      with Cons.prems have c: "result_of_pending proposal pending interrupted_result c" by (auto simp: result_of_pending_def)
      obtain w' r where m: "rt_append rt a c w = (w', r)" by fastforce
      with calls_append [of a c w] have w': "calls w' = calls w @ [c]" by simp
      show ?thesis
      proof (cases r)
        case (Inl e)
        obtain v err where h: "handle_runtime_error rt a e w' = (v, err)" by fastforce
        then have v: "calls v = calls w'" using quietD [OF quiet_runtime_error] by blast
        have err: "err \<noteq> None"
          using h by (auto simp: handle_runtime_error_def ctl_fail_def split: prod.splits sum.splits if_splits)
        have "close_unknown rt a proposal (x # xs) closed w = (v, False, err)"
          using False new m Inl h by (simp add: try_op_def)
        with v err w' c show ?thesis by (intro exI [of _ "[c]"]) simp
      next
        case (Inr u)
        have step: "close_unknown rt a proposal (x # xs) closed w = close_unknown rt a proposal xs True w'"
          using False new m Inr by (simp add: try_op_def)
        have sub: "set xs \<subseteq> set pending" using Cons.prems by simp
        from Cons.IH [OF sub, of True w'] obtain more where
          "calls (fst (close_unknown rt a proposal xs True w')) = calls w' @ more"
          "\<forall>c \<in> set more. result_of_pending proposal pending interrupted_result c"
          "snd (close_unknown rt a proposal xs True w') \<noteq> (False, None)" by blast
        with w' c show ?thesis unfolding step by (intro exI [of _ "c # more"]) simp
      qed
    qed
  qed
qed

lemma appends_steering:
  "\<exists>new. calls (fst (deliver_steering rt a p ms w)) = calls w @ new
     \<and> (\<forall>c \<in> set new. \<exists>m t. new_steering_checkpoint (cx_decisions p + 1) m t = Inr c)"
proof (induction ms arbitrary: w)
  case Nil
  then show ?case by simp
next
  case (Cons x ms)
  obtain m content where x: "x = (m, content)" by (cases x)
  show ?case
  proof (cases "new_steering_checkpoint (cx_decisions p + 1) m content")
    case (Inl e)
    have "calls (fst (ctl_fail rt a ''context_failed'' (Checkpoint_Failure e) w)) = calls w"
      using quiet_fail by (simp add: quiet_def)
    with Inl x show ?thesis by (intro exI [of _ "[]"]) (simp add: try_op_def lift_check_def)
  next
    case new: (Inr c)
    obtain w' r where m: "rt_append rt a c w = (w', r)" by fastforce
    with calls_append [of a c w] have w': "calls w' = calls w @ [c]" by simp
    show ?thesis
    proof (cases r)
      case (Inl e)
      have "calls (fst (handle_runtime_error rt a e w')) = calls w'" using quiet_runtime_error by (simp add: quiet_def)
      moreover have "fst (deliver_steering rt a p (x # ms) w) = fst (handle_runtime_error rt a e w')"
        using new m Inl x by (simp add: try_op_def lift_check_def)
      ultimately show ?thesis using w' new by (intro exI [of _ "[c]"]) auto
    next
      case (Inr u)
      from Cons.IH [of w'] obtain more where "calls (fst (deliver_steering rt a p ms w')) = calls w' @ more"
        "\<forall>c \<in> set more. \<exists>m t. new_steering_checkpoint (cx_decisions p + 1) m t = Inr c" by blast
      moreover have "deliver_steering rt a p (x # ms) w = deliver_steering rt a p ms w'"
        using new m Inr x by (simp add: try_op_def lift_check_def)
      ultimately show ?thesis using w' new by (intro exI [of _ "c # more"]) auto
    qed
  qed
qed


lemma appends_run_pending:
  assumes "pending \<noteq> []"
  shows "appends (run_pending rt a ex p proposal pending) (results_admitted ex p proposal pending)"
proof -
  have h: "hd pending \<in> set pending" using assms by simp
  have "appends (\<lambda>w. finish (execute_delegation_action rt a ex (hd pending) w)) (results_admitted ex p proposal pending)"
    by (intro appends_finish appends_quiet quiet_delegation) simp
  then show ?thesis
    using appends_again [OF appends_parallel] appends_again [OF appends_execute_action [OF h]]
    by (simp add: run_pending_def Let_def)
qed

text \<open>After loading \<open>p\<close>: what the history gains with an incomplete proposal.\<close>

lemma appends_run_incomplete:
  assumes "incomplete_actions p = Some (proposal, pending)" and "cx_final p = None"
  shows "appends (run_incomplete rt a ex boundary p proposal pending) (admitted rt ex p)"
proof -
  have ne: "pending \<noteq> []"
    using assms(1) by (auto simp: incomplete_actions_def Let_def split: if_splits)
  have run: "appends (run_pending rt a ex p proposal pending) (admitted rt ex p)"
    using appends_run_pending [OF ne] by (rule appends_weaken) (simp add: admitted_def assms)
  show ?thesis
  proof (cases "boundary \<and> at_attempt_no a > 1")
    case False
    then have "run_incomplete rt a ex boundary p proposal pending = run_pending rt a ex p proposal pending"
      by (auto simp: fun_eq_iff run_incomplete_def)
    with run show ?thesis by simp
  next
    case True
    show ?thesis unfolding appends_def
    proof
      fix w
      obtain w' closed err where c: "close_unknown rt a proposal pending False w = (w', closed, err)"
        by (cases "close_unknown rt a proposal pending False w") auto
      from c
      have "\<exists>new. calls w' = calls w @ new \<and> (\<forall>c \<in> set new. result_of_pending proposal pending interrupted_result c)
          \<and> ((closed, err) = (False, None) \<longrightarrow> new = [])"
        using appends_close [OF subset_refl, of a proposal pending False w] by auto
      then obtain new where new: "calls w' = calls w @ new"
        "\<forall>c \<in> set new. result_of_pending proposal pending interrupted_result c"
        "(closed, err) = (False, None) \<longrightarrow> new = []" by blast
      have adm: "admitted rt ex p new" using new(2) assms by (simp add: admitted_def)
      show "\<exists>new. calls (fst (run_incomplete rt a ex boundary p proposal pending w)) = calls w @ new \<and> admitted rt ex p new"
      proof (cases "(closed, err) = (False, None)")
        case True
        with c \<open>boundary \<and> at_attempt_no a > 1\<close>
        have "run_incomplete rt a ex boundary p proposal pending w = run_pending rt a ex p proposal pending w'"
          by (simp add: run_incomplete_def)
        moreover from run have "\<exists>more. calls (fst (run_pending rt a ex p proposal pending w')) = calls w' @ more
            \<and> admitted rt ex p more" by (simp add: appends_def)
        ultimately show ?thesis using new True by simp
      next
        case False
        with c \<open>boundary \<and> at_attempt_no a > 1\<close>
        have "fst (run_incomplete rt a ex boundary p proposal pending w) = w'"
          by (auto simp: run_incomplete_def split: option.splits bool.splits)
        with new(1) adm show ?thesis by auto
      qed
    qed
  qed
qed

lemma appends_accept_decision:
  assumes d: "validate_decision_for_request (validate_proposal rt) p d names capable ex (remaining_actions ex p) avail = None"
    and avail: "avail \<longrightarrow> business_decision_available ex p"
    and p: "cx_final p = None" "incomplete_actions p = None"
  shows "appends (accept_decision rt a ex p capable d) (admitted rt ex p)"
  unfolding accept_decision_def
proof (rule appends_try [OF quiet_authority], rule appends_finish, rule appends_runtime_error)
  show nil: "admitted rt ex p []" using p by (simp add: admitted_def)
  fix u :: unit
  show "appends (case md_final d of
         Some t \<Rightarrow>
           try_op (case rt_prepare_final rt of None \<Rightarrow> (\<lambda>w. (w, Inr t)) | Some f \<Rightarrow> f a ex p t)
             (\<lambda>e w. finish (ctl_fail rt a ''grounding_failed'' e w)) (\<lambda>prepared.
             try_op (lift_check (new_final_draft_checkpoint (cx_decisions p + 1) prepared))
               (\<lambda>e w. finish (ctl_fail rt a (if capable then ''model_invalid_response'' else ''agent_budget_exhausted'') e w))
               (\<lambda>c w. then_again (append_or_report rt a c w)))
       | None \<Rightarrow>
           if \<not> capable
           then (\<lambda>w. finish (ctl_fail rt a ''agent_budget_exhausted'' (Plain_Failure ''reserved Final decision proposed Actions'') w))
           else try_op (lift_check (new_proposal_checkpoint (cx_decisions p + 1) (case md_proposal d of None \<Rightarrow> [] | Some as \<Rightarrow> as)))
               (\<lambda>e w. finish (ctl_fail rt a ''model_invalid_response'' e w))
               (\<lambda>c w. then_again (append_or_report rt a c w))) (admitted rt ex p)"
  proof (cases "md_final d")
    case (Some t)
    have "quiet (case rt_prepare_final rt of None \<Rightarrow> (\<lambda>w. (w, Inr t)) | Some f \<Rightarrow> f a ex p t)"
      using keeps_final by (auto simp: quiet_def split: option.splits)
    moreover have "appends (\<lambda>w. then_again (append_or_report rt a c w)) (admitted rt ex p)"
      if "new_final_draft_checkpoint (cx_decisions p + 1) t' = Inr c" for t' c
      using that p by (intro appends_again appends_report) (auto simp: admitted_def)
    ultimately show ?thesis unfolding Some option.case
      by (intro appends_try appends_finish appends_fail quiet_lift nil) (auto dest: lift_check_Inr)
  next
    case None
    show ?thesis
    proof (cases capable)
      case False
      with None nil show ?thesis by (simp add: appends_finish appends_fail)
    next
      case True
      from d None obtain actions where actions: "md_proposal d = Some actions"
        by (auto simp: validate_decision_for_request_def model_decision_ok_def split: if_splits)
      have "validate_decision_for_request (validate_proposal rt) p d names True ex (remaining_actions ex p)
          (business_decision_available ex p) = None"
        using d avail True by (auto simp: validate_decision_for_request_def split: option.splits if_splits prod.splits)
      note v = validate_decision_ok [OF this actions] decision_keeps_budget [OF _ this actions]
      have "proposal_admitted rt ex p c" if "new_proposal_checkpoint (cx_decisions p + 1) actions = Inr c" for c
        using that v by (auto simp: proposal_admitted_def)
      then have "appends (\<lambda>w. then_again (append_or_report rt a c w)) (admitted rt ex p)"
        if "new_proposal_checkpoint (cx_decisions p + 1) actions = Inr c" for c
        using that p by (intro appends_again appends_report) (auto simp: admitted_def)
      with None True actions show ?thesis
        by (simp only: option.case simp_thms if_False)
          (intro appends_try appends_finish appends_fail quiet_lift nil, auto dest: lift_check_Inr)
    qed
  qed
qed


lemma appends_ask_decision:
  assumes avail: "avail \<longrightarrow> business_decision_available ex p"
    and p: "cx_final p = None" "incomplete_actions p = None"
  shows "appends (ask_decision rt a ex p avail wrap_up) (admitted rt ex p)"
  unfolding ask_decision_def
proof (rule appends_try [OF quiet_definitions], rule appends_finish, rule appends_runtime_error)
  show nil: "admitted rt ex p []" using p by (simp add: admitted_def)
  fix all
  let ?names = "kept_definitions wrap_up all"
  show "appends (\<lambda>w.
         let names = ?names; capable = names \<noteq> [] in
         if \<not> capable \<and> ex_final_decision_limit ex < 1
         then finish (ctl_fail rt a ''agent_budget_exhausted'' (Plain_Failure ''no reserved Final decision is available'') w)
         else (case decide_loop rt a ex p names capable (remaining_actions ex p) avail 0 0 None w of
             (w', Decision_Stopped r) \<Rightarrow> (w', Returned r)
           | (w', Decided d) \<Rightarrow> accept_decision rt a ex p capable d w')) (admitted rt ex p)"
  proof (cases "?names = [] \<and> ex_final_decision_limit ex < 1")
    case True
    have "appends (\<lambda>w. finish (ctl_fail rt a ''agent_budget_exhausted'' (Plain_Failure ''no reserved Final decision is available'') w))
        (admitted rt ex p)"
      by (intro appends_finish appends_fail nil)
    with True show ?thesis by (simp add: Let_def)
  next
    case False
    show ?thesis unfolding appends_def
    proof
      fix w
      let ?loop = "decide_loop rt a ex p ?names (?names \<noteq> []) (remaining_actions ex p) avail 0 0 None w"
      obtain w' s where l: "?loop = (w', s)" by fastforce
      then have w': "calls w' = calls w" using quietD [OF quiet_decide_loop] by blast
      let ?m = "let names = ?names; capable = names \<noteq> [] in
         if \<not> capable \<and> ex_final_decision_limit ex < 1
         then finish (ctl_fail rt a ''agent_budget_exhausted'' (Plain_Failure ''no reserved Final decision is available'') w)
         else (case decide_loop rt a ex p names capable (remaining_actions ex p) avail 0 0 None w of
             (w', Decision_Stopped r) \<Rightarrow> (w', Returned r)
           | (w', Decided d) \<Rightarrow> accept_decision rt a ex p capable d w')"
      show "\<exists>new. calls (fst ?m) = calls w @ new \<and> admitted rt ex p new"
      proof (cases s)
        case (Decision_Stopped r)
        with False l w' nil show ?thesis by (auto simp: Let_def)
      next
        case (Decided d)
        with l have "validate_decision_for_request (validate_proposal rt) p d ?names (?names \<noteq> []) ex
            (remaining_actions ex p) avail = None" by (intro decide_loop_decides) auto
        from appends_accept_decision [OF this avail p, of a]
        have "\<exists>new. calls (fst (accept_decision rt a ex p (?names \<noteq> []) d w')) = calls w' @ new \<and> admitted rt ex p new"
          by (simp add: appends_def)
        moreover have "?m = accept_decision rt a ex p (?names \<noteq> []) d w'"
          using False l Decided by (auto simp: Let_def)
        ultimately show ?thesis using w' by simp
      qed
    qed
  qed
qed

lemma appends_next_decision:
  assumes p: "cx_final p = None" "incomplete_actions p = None"
  shows "appends (next_decision rt a ex p) (admitted rt ex p)"
proof (cases "rt_budget_exhausted rt")
  case None
  then show ?thesis using p by (simp add: next_decision_def appends_ask_decision)
next
  case (Some f)
  have q: "quiet (f a)" using keeps_exhausted [OF Some] by (simp add: quiet_def)
  have nil: "admitted rt ex p []" using p by (simp add: admitted_def)
  show ?thesis
  proof (cases "business_decision_available ex p")
    case True
    have "appends (try_op (f a) (\<lambda>e w. finish (handle_runtime_error rt a e w)) (\<lambda>spent.
              if spent then
                (case rt_wrap_up_tools rt of
                   None \<Rightarrow> ask_decision rt a ex p False None
                 | Some g \<Rightarrow> ask_decision rt a ex p True (g ex))
              else ask_decision rt a ex p True None)) (admitted rt ex p)"
      by (rule appends_try [OF q], rule appends_finish, rule appends_runtime_error, rule nil)
        (auto split: option.splits intro!: appends_ask_decision True p)
    with Some True show ?thesis by (simp add: next_decision_def)
  next
    case False
    with Some p show ?thesis by (simp add: next_decision_def appends_ask_decision)
  qed
qed

text \<open>One iteration: nothing is appended, or the prefix was loaded and what is appended is admitted for it.\<close>

definition iteration_adds :: "attempt \<Rightarrow> execution \<Rightarrow> 'w \<Rightarrow> pending_checkpoint list \<Rightarrow> bool" where
  "iteration_adds a ex w new \<longleftrightarrow>
     new = [] \<or> (\<exists>w' p. rt_load_prefix rt a w = (w', Inr p) \<and> admitted rt ex p new)"

lemma iteration_history:
  "\<exists>new. calls (fst (iteration rt a ex boundary w)) = calls w @ new \<and> iteration_adds a ex w new"
proof -
  obtain w' r where l: "rt_load_prefix rt a w = (w', r)" by fastforce
  with keeps_prefix [of a w] have w': "calls w' = calls w" by simp
  show ?thesis
  proof (cases r)
    case (Inl e)
    have "calls (fst (handle_runtime_error rt a e w')) = calls w'" using quiet_runtime_error by (simp add: quiet_def)
    with l Inl w' show ?thesis by (intro exI [of _ "[]"]) (simp add: iteration_def try_op_def finish_def iteration_adds_def)
  next
    case (Inr p)
    show ?thesis
    proof (cases "cx_final p")
      case (Some t)
      have "calls (fst (rt_publish_final rt a t w')) = calls w'" by (rule keeps_publish)
      with l Inr Some w' show ?thesis
        by (intro exI [of _ "[]"]) (auto simp: iteration_def try_op_def iteration_adds_def split: prod.splits sum.splits)
    next
      case fin: None
      have "appends (case incomplete_actions p of
              Some (proposal, pending) \<Rightarrow> run_incomplete rt a ex boundary p proposal pending
            | None \<Rightarrow>
                (case rt_pending_steering rt of
                   None \<Rightarrow> next_decision rt a ex p
                 | Some f \<Rightarrow>
                     try_op (f a) (\<lambda>e w. finish (handle_runtime_error rt a e w)) (\<lambda>ms.
                       if ms \<noteq> [] then (\<lambda>w. then_again (deliver_steering rt a p ms w))
                       else next_decision rt a ex p))) (admitted rt ex p)"
      proof (cases "incomplete_actions p")
        case (Some x)
        then show ?thesis using fin by (cases x) (simp add: appends_run_incomplete)
      next
        case inc: None
        have nil: "admitted rt ex p []" using fin inc by (simp add: admitted_def)
        have next': "appends (next_decision rt a ex p) (admitted rt ex p)" using fin inc by (rule appends_next_decision)
        show ?thesis
        proof (cases "rt_pending_steering rt")
          case None
          with inc next' show ?thesis by simp
        next
          case (Some f)
          have q: "quiet (f a)" using keeps_steering [OF Some] by (simp add: quiet_def)
          have st: "appends (\<lambda>w. then_again (deliver_steering rt a p ms w)) (admitted rt ex p)" for ms
          proof (rule appends_again, unfold appends_def, rule allI)
            fix w
            from appends_steering [of a p ms w] fin inc
            show "\<exists>new. calls (fst (deliver_steering rt a p ms w)) = calls w @ new \<and> admitted rt ex p new"
              by (auto simp: admitted_def)
          qed
          have "appends (try_op (f a) (\<lambda>e w. finish (handle_runtime_error rt a e w)) (\<lambda>ms.
                       if ms \<noteq> [] then (\<lambda>w. then_again (deliver_steering rt a p ms w))
                       else next_decision rt a ex p)) (admitted rt ex p)"
            by (rule appends_try [OF q], rule appends_finish, rule appends_runtime_error, rule nil)
              (simp add: st next')
          with inc Some show ?thesis by simp
        qed
      qed
      then obtain new where "calls (fst (iteration rt a ex boundary w)) = calls w' @ new" "admitted rt ex p new"
        using l Inr fin unfolding appends_def iteration_def try_op_def by (auto split: option.splits)
      with l Inr w' show ?thesis by (auto simp: iteration_adds_def)
    qed
  qed
qed

lemma loop_history:
  "\<exists>chunks. calls (fst (execute_loop n rt a ex boundary w)) = calls w @ concat chunks
     \<and> (\<forall>new \<in> set chunks. \<exists>v. iteration_adds a ex v new)"
proof (induction n arbitrary: boundary w)
  case 0
  then show ?case by (intro exI [of _ "[]"]) simp
next
  case (Suc n)
  from iteration_history [of a ex boundary w] obtain new where
    new: "calls (fst (iteration rt a ex boundary w)) = calls w @ new" "iteration_adds a ex w new" by blast
  obtain w' s where it: "iteration rt a ex boundary w = (w', s)" by fastforce
  show ?case
  proof (cases s)
    case (Again b)
    from Suc [of b w'] obtain chunks where "calls (fst (execute_loop n rt a ex b w')) = calls w' @ concat chunks"
      "\<forall>new \<in> set chunks. \<exists>v. iteration_adds a ex v new" by blast
    with new it Again show ?thesis by (intro exI [of _ "new # chunks"]) auto
  next
    case (Returned r)
    with new it show ?thesis by (intro exI [of _ "[new]"]) auto
  qed
qed

definition chunked :: "attempt \<Rightarrow> pending_checkpoint list \<Rightarrow> bool" where
  "chunked a new \<longleftrightarrow> (\<exists>chunks. new = concat chunks \<and> (\<forall>c \<in> set chunks. \<exists>ex v. iteration_adds a ex v c))"

lemma chunked_Nil: "chunked a []"
  unfolding chunked_def by (intro exI [of _ "[]"]) simp

lemma appends_loop: "appends (execute_loop n rt a ex True) (chunked a)"
  unfolding appends_def
proof
  fix w
  from loop_history [of n a ex True w] obtain chunks where
    "calls (fst (execute_loop n rt a ex True w)) = calls w @ concat chunks"
    "\<forall>new \<in> set chunks. \<exists>v. iteration_adds a ex v new" by blast
  then show "\<exists>new. calls (fst (execute_loop n rt a ex True w)) = calls w @ new \<and> chunked a new"
    unfolding chunked_def by (intro exI [of _ "concat chunks"]) blast
qed

lemma appends_const: "Q [] \<Longrightarrow> appends (\<lambda>w. (w, s)) Q"
  by (rule appends_quiet [OF quiet_const])

lemma run_history: "appends (execute_run n rt a) (chunked a)"
  unfolding execute_run_def
proof (rule appends_try)
  show "quiet (rt_load rt a)" by (rule quietI) (rule keeps_load)
  show "appends (\<lambda>w. (w, Run_Returned (Some e))) (chunked a)" for e by (rule appends_const) (rule chunked_Nil)
  fix ex
  show "appends (try_op (case rt_start_run rt of None \<Rightarrow> (\<lambda>w. (w, Inr ())) | Some f \<Rightarrow> f a ex)
         (\<lambda>e w. (w, Run_Returned (Some e))) (\<lambda>_.
       try_op (if rt_session rt then rt_open_session rt a ex else (\<lambda>w. (w, Inr ())))
         (\<lambda>e w. (w, Run_Returned (Some e))) (\<lambda>_. execute_loop n rt a ex True))) (chunked a)"
  proof (rule appends_try, goal_cases)
    case 1
    show ?case using keeps_start by (auto simp: quiet_def split: option.splits)
  next
    case (2 e)
    show ?case by (rule appends_const) (rule chunked_Nil)
  next
    case 3
    show ?case
    proof (rule appends_try, goal_cases)
      case 1
      show ?case by (simp add: quiet_def keeps_session)
    next
      case (2 e)
      show ?case by (rule appends_const) (rule chunked_Nil)
    next
      case 3
      show ?case by (rule appends_loop)
    qed
  qed
qed

end

end
