(* ===== verification/Run_Publication.thy ===== *)
theory Run_Publication
  imports Controller_Budget
begin

text \<open>
  How a Run ends (\<open>internal/agent/postgres_runtime.go\<close>): \<open>PublishFinal\<close> writes the accepted Final
  Draft as the Assistant message and completes Run and Job in one transaction, with one retry after
  reconciliation; \<open>Fail\<close> marks both failed. The state adds the chat's messages and the error code to
  the store of theory \<open>Checkpoint_Store\<close>. The grounding check of the publication is a parameter.
\<close>

record product =
  pd_store :: run_store
  pd_messages :: "(gostring \<times> gostring) list"
  pd_error_code :: gostring

definition completed :: gostring where "completed = ''completed''"
definition succeeded :: gostring where "succeeded = ''succeeded''"
definition failed :: gostring where "failed = ''failed''"

section \<open>Closing the Run and its Job\<close>

definition end_jobs :: "gostring \<Rightarrow> attempt \<Rightarrow> job_lease list \<Rightarrow> job_lease list" where
  "end_jobs status a js =
     map (\<lambda>j. if jl_id j = at_job_id a \<and> jl_status j = running \<and> jl_lease_token j = at_lease_token a
               then j\<lparr>jl_status := status, jl_lease_token := [], jl_expires_at := None\<rparr> else j) js"

definition ends_one_job :: "attempt \<Rightarrow> job_lease list \<Rightarrow> bool" where
  "ends_one_job a js \<longleftrightarrow>
     length (filter (\<lambda>j. jl_id j = at_job_id a \<and> jl_status j = running \<and> jl_lease_token j = at_lease_token a) js) = 1"

definition close_run :: "gostring \<Rightarrow> gostring \<Rightarrow> bool \<Rightarrow> attempt \<Rightarrow> run_store \<Rightarrow> (store_error, run_store) result" where
  "close_run run_status job_status published a s =
     (if rs_status s \<noteq> running \<or> \<not> rs_output_empty s \<or> \<not> ends_one_job a (rs_jobs s) then Inl Database_Error
      else Inr (s\<lparr>rs_status := run_status, rs_output_empty := \<not> published, rs_jobs := end_jobs job_status a (rs_jobs s)\<rparr>))"

section \<open>Publishing\<close>

definition final_draft_sha256 :: "gostring \<Rightarrow> gostring" where
  "final_draft_sha256 t = sha256_hex (json_text (JObj [(''text'', marshal_string t)]))"

text \<open>The result of a configured Run counts against the result bytes of its tree.\<close>

definition result_payload_bytes :: "gostring \<Rightarrow> int" where
  "result_payload_bytes t = int (length (json_text (JObj [(''content'', marshal_string t)])))"

definition store_configured_final_result :: "gostring \<Rightarrow> run_store \<Rightarrow> (store_error, run_store) result" where
  "store_configured_final_result t s =
     (if \<not> rs_configured s then Inr s
      else (case rs_tree s of
          None \<Rightarrow> Inl Budget_Exhausted
        | Some tree \<Rightarrow>
            if tr_result_bytes tree + result_payload_bytes t \<le> tr_result_byte_limit tree
            then Inr (s\<lparr>rs_tree := Some (tree\<lparr>tr_result_bytes := tr_result_bytes tree + result_payload_bytes t\<rparr>)\<rparr>)
            else Inl Budget_Exhausted))"

definition publish_tx ::
  "(product \<Rightarrow> store_error option) \<Rightarrow> attempt \<Rightarrow> gostring \<Rightarrow> gostring \<Rightarrow> product \<Rightarrow> (store_error, product) result" where
  "publish_tx grounding a message_id t p =
     (let s = pd_store p in
      case lock_checkpoint_authority s a of
        Some e \<Rightarrow> Inl e
      | None \<Rightarrow>
          bind_result (load_run_checkpoints s) (\<lambda>cs.
          bind_result (load_valid cs) (\<lambda>prefix.
            if (case cx_final prefix of None \<Rightarrow> True | Some f \<Rightarrow> final_draft_sha256 f \<noteq> final_draft_sha256 t)
            then Inl Checkpoint_Invalid
            else (case grounding p of
                Some e \<Rightarrow> Inl e
              | None \<Rightarrow>
                  bind_result (store_configured_final_result t s) (\<lambda>s1.
                    if message_id \<in> fst ` set (pd_messages p) then Inl Database_Error
                    else bind_result (close_run completed succeeded True a s1) (\<lambda>s2.
                      Inr (p\<lparr>pd_store := s2, pd_messages := pd_messages p @ [(message_id, t)], pd_error_code := []\<rparr>)))))))"

definition publish_once ::
  "(product \<Rightarrow> store_error option) \<Rightarrow> fault \<Rightarrow> attempt \<Rightarrow> gostring \<Rightarrow> gostring \<Rightarrow> product \<Rightarrow> product \<times> store_error option" where
  "publish_once grounding f a message_id t p =
     (if f = Fault_Before_Commit then (p, Some Database_Error)
      else (case publish_tx grounding a message_id t p of
          Inl e \<Rightarrow> (p, Some e)
        | Inr p' \<Rightarrow> (p', if f = Acknowledgement_Lost then Some Database_Error else None)))"

datatype publication_state = Publication_Lease_Lost | Publication_Current | Publication_Completed | Publication_Deadline

definition reconcile_publication :: "bool \<Rightarrow> attempt \<Rightarrow> product \<Rightarrow> (store_error, publication_state) result" where
  "reconcile_publication broken a p =
     (let s = pd_store p in
      if broken then Inl Database_Error
      else if rs_run_id s \<noteq> at_run_id a then Inr Publication_Lease_Lost
      else (case rs_jobs s of
          [] \<Rightarrow> Inr Publication_Lease_Lost
        | j # _ \<Rightarrow>
            (case rs_deadline s of
               None \<Rightarrow> Inl Database_Error
             | Some d \<Rightarrow>
                 let current = jl_id j = at_job_id a \<and> jl_lease_token j = at_lease_token a \<and> lease_valid s j;
                     open' = rs_status s = running \<and> jl_status j = running \<and> rs_output_empty s in
                 if rs_status s = completed \<and> \<not> rs_output_empty s \<and> jl_status j = succeeded then Inr Publication_Completed
                 else if open' \<and> \<not> d > rs_now s then Inr Publication_Deadline
                 else if open' \<and> current \<and> d > rs_now s then Inr Publication_Current
                 else Inr Publication_Lease_Lost)))"

record publish_env =
  pe_before :: "product \<Rightarrow> product"
  pe_fault :: fault
  pe_between :: "product \<Rightarrow> product"
  pe_broken :: bool

fun publish_tries ::
  "(product \<Rightarrow> store_error option) \<Rightarrow> attempt \<Rightarrow> gostring \<Rightarrow> gostring \<Rightarrow> store_error option \<Rightarrow> publish_env list \<Rightarrow> product
     \<Rightarrow> product \<times> store_error option" where
  "publish_tries grounding a mid t err [] p = (p, err)"
| "publish_tries grounding a mid t err (e # es) p =
     (case publish_once grounding (pe_fault e) a mid t (pe_before e p) of
        (p', None) \<Rightarrow> (p', None)
      | (p', Some x) \<Rightarrow>
          if error_is x Lease_Lost \<or> error_is x Run_Deadline_Exceeded \<or> error_is x Checkpoint_Invalid then (p', Some x)
          else
            let p'' = pe_between e p' in
            (case reconcile_publication (pe_broken e) a p'' of
               Inl y \<Rightarrow> (p'', Some (Joined x y))
             | Inr Publication_Completed \<Rightarrow> (p'', None)
             | Inr Publication_Lease_Lost \<Rightarrow> (p'', Some Lease_Lost)
             | Inr Publication_Deadline \<Rightarrow> (p'', Some Run_Deadline_Exceeded)
             | Inr Publication_Current \<Rightarrow> publish_tries grounding a mid t (Some x) es p''))"

definition publish_final ::
  "(product \<Rightarrow> store_error option) \<Rightarrow> attempt \<Rightarrow> gostring \<Rightarrow> gostring \<Rightarrow> publish_env \<Rightarrow> publish_env \<Rightarrow> product
     \<Rightarrow> product \<times> store_error option" where
  "publish_final grounding a message_id t e1 e2 p =
     (case new_final_draft_checkpoint 1 t of
        Inl _ \<Rightarrow> (p, Some Database_Error)
      | Inr _ \<Rightarrow>
          if message_id = [] then (p, Some Database_Error)
          else publish_tries grounding a message_id t None [e1, e2] p)"

section \<open>Failing\<close>

definition fail_run :: "fault \<Rightarrow> attempt \<Rightarrow> gostring \<Rightarrow> product \<Rightarrow> product \<times> store_error option" where
  "fail_run f a code p =
     (let s = pd_store p; code' = (if code = [] then ''model_unavailable'' else code) in
      if f = Fault_Before_Commit then (p, Some Database_Error)
      else if rs_run_id s \<noteq> at_run_id a \<or> rs_status s \<noteq> running
           \<or> \<not> list_ex (\<lambda>j. jl_id j = at_job_id a \<and> jl_lease_token j = at_lease_token a \<and> lease_valid s j \<and> jl_status j = running) (rs_jobs s)
      then (p, Some Lease_Lost)
      else (case close_run failed failed False a s of
          Inl e \<Rightarrow> (p, Some e)
        | Inr s' \<Rightarrow>
            (p\<lparr>pd_store := s', pd_error_code := code'\<rparr>, if f = Acknowledgement_Lost then Some Database_Error else None)))"

section \<open>Facts\<close>

definition open_run :: "product \<Rightarrow> bool" where
  "open_run p \<longleftrightarrow> rs_status (pd_store p) = running \<and> rs_output_empty (pd_store p)"

text \<open>A publication that takes effect: the accepted Final Draft is written, and the Run is closed.\<close>

definition published_as :: "attempt \<Rightarrow> gostring \<Rightarrow> gostring \<Rightarrow> product \<Rightarrow> product \<Rightarrow> bool" where
  "published_as a mid t p p' \<longleftrightarrow>
     open_run p \<and> pd_messages p' = pd_messages p @ [(mid, t)]
     \<and> rs_status (pd_store p') = completed \<and> \<not> rs_output_empty (pd_store p')
     \<and> lock_checkpoint_authority (pd_store p) a = None
     \<and> (\<exists>cs prefix f. load_run_checkpoints (pd_store p) = Inr cs \<and> load_checkpoint_prefix cs = Inr prefix
          \<and> cx_final prefix = Some f \<and> final_draft_sha256 f = final_draft_sha256 t)"

lemma publish_tx_effect:
  assumes "publish_tx grounding a mid t p = Inr p'"
  shows "published_as a mid t p p'"
  using assms
  by (auto simp: publish_tx_def published_as_def open_run_def Let_def result_simps load_valid_iff close_run_def
      store_configured_final_result_def split: option.splits if_splits)

lemma publish_once_effect:
  assumes "publish_once grounding f a mid t p = (p', r)"
  shows "(p' = p \<and> r \<noteq> None) \<or> published_as a mid t p p'"
  using assms publish_tx_effect
  by (auto simp: publish_once_def split: if_splits sum.splits)

definition adds_nothing :: "(product \<Rightarrow> product) \<Rightarrow> bool" where
  "adds_nothing f \<longleftrightarrow> (\<forall>p. pd_messages (f p) = pd_messages p \<and> (\<not> open_run p \<longrightarrow> \<not> open_run (f p)))"

lemma publish_closed:
  "\<not> open_run p \<Longrightarrow> publish_once grounding f a mid t p = (p', r) \<Longrightarrow> p' = p"
  using publish_once_effect [of grounding f a mid t p p' r] by (auto simp: published_as_def)

lemma publish_tries_closed:
  assumes "\<forall>e \<in> set es. adds_nothing (pe_before e) \<and> adds_nothing (pe_between e)"
    and "\<not> open_run p" and "publish_tries grounding a mid t err es p = (p', r)"
  shows "pd_messages p' = pd_messages p"
  using assms
proof (induction es arbitrary: p err)
  case Nil
  then show ?case by simp
next
  case (Cons e es)
  let ?p = "pe_before e p"
  have cl: "\<not> open_run ?p" and m: "pd_messages ?p = pd_messages p"
    using Cons.prems by (auto simp: adds_nothing_def)
  obtain q x where q: "publish_once grounding (pe_fault e) a mid t ?p = (q, x)" by fastforce
  with cl have eq: "q = ?p" by (rule publish_closed)
  have cl': "\<not> open_run (pe_between e ?p)" and m': "pd_messages (pe_between e ?p) = pd_messages p"
    using Cons.prems(1) cl m by (auto simp: adds_nothing_def)
  show ?case
    using Cons.prems(1,3) q eq m m' Cons.IH [OF _ cl']
    by (auto simp: Let_def split: option.splits if_splits sum.splits publication_state.splits)
qed

lemma publish_tries_effect:
  assumes "\<forall>e \<in> set es. adds_nothing (pe_before e) \<and> adds_nothing (pe_between e)"
    and "publish_tries grounding a mid t err es p = (p', r)"
  shows "pd_messages p' = pd_messages p
    \<or> (pd_messages p' = pd_messages p @ [(mid, t)]
       \<and> (\<exists>q q'. published_as a mid t q q' \<and> pd_messages q = pd_messages p))"
  using assms
proof (induction es arbitrary: p err)
  case Nil
  then show ?case by simp
next
  case (Cons e es)
  let ?p = "pe_before e p"
  have m: "pd_messages ?p = pd_messages p" using Cons.prems by (auto simp: adds_nothing_def)
  obtain q x where q: "publish_once grounding (pe_fault e) a mid t ?p = (q, x)" by fastforce
  from publish_once_effect [OF q] show ?case
  proof
    assume same: "q = ?p \<and> x \<noteq> None"
    have m': "pd_messages (pe_between e ?p) = pd_messages p" using Cons.prems(1) m by (auto simp: adds_nothing_def)
    show ?thesis
      using Cons.prems q same m m' Cons.IH [where p = "pe_between e ?p"]
      by (auto simp: Let_def split: option.splits if_splits sum.splits publication_state.splits)
  next
    assume pub: "published_as a mid t ?p q"
    then have msgs: "pd_messages q = pd_messages p @ [(mid, t)]" and cl: "\<not> open_run q"
      using m by (auto simp: published_as_def open_run_def)
    have cl': "\<not> open_run (pe_between e q)" and m': "pd_messages (pe_between e q) = pd_messages q"
      using Cons.prems(1) cl by (auto simp: adds_nothing_def)
    have es: "\<forall>e \<in> set es. adds_nothing (pe_before e) \<and> adds_nothing (pe_between e)" using Cons.prems(1) by simp
    have "pd_messages p' = pd_messages q"
      using Cons.prems(2) q m' publish_tries_closed [OF es cl', of grounding a mid t]
      by (auto simp: Let_def split: option.splits if_splits sum.splits publication_state.splits)
    with msgs pub m show ?thesis by auto
  qed
qed

section \<open>Properties\<close>


definition calm_publish :: "fault \<Rightarrow> publish_env" where
  "calm_publish f = \<lparr>pe_before = id, pe_fault = f, pe_between = id, pe_broken = False\<rparr>"

lemma id_adds_nothing: "adds_nothing id"
  by (simp add: adds_nothing_def)


end
