(* ===== verification/Agent_Runtime.thy ===== *)
theory Agent_Runtime
  imports Controller_History Run_Publication
begin

text \<open>
  The runtime that Chat and Studio Runs use (\<open>PostgresRuntime\<close>) put together from the transactions
  of the theories \<open>Checkpoint_Store\<close> and \<open>Run_Publication\<close>, and the Controller run on it. The world is
  the database, the list of the appends asked for so far, and the rest of the world, of any type. What
  is not a transaction of this runtime (the model, the tools, the building of requests, the grounding
  check, the clock, other transactions) is a record of functions on the rest of the world.
\<close>

section \<open>Loading the execution\<close>

text \<open>The pinned model policy of a configured Run, as its joined row has it.\<close>

record model_pins =
  mp_has_null :: bool
  mp_enable_thinking :: bool
  mp_invocation_mode :: gostring
  mp_max_output :: int
  mp_context_window :: int
  mp_provider_max_input :: int
  mp_provider_max_output :: int
  mp_pinned_output :: int
  mp_soft_input :: int
  mp_safety :: int
  mp_keep_recent :: int
  mp_summary_output :: int
  mp_overflow_limit :: int

record context_budgets =
  cb_hard_input :: int
  cb_safe_input :: int
  cb_trigger :: int

definition resolve_model_context :: "model_pins \<Rightarrow> (gostring, context_budgets) result" where
  "resolve_model_context m =
     (if mp_has_null m then Inl ''configured Model Policy pin is invalid''
      else
        let window = mp_context_window m - mp_pinned_output m;
            hard = (if window < mp_provider_max_input m then window else mp_provider_max_input m);
            safe = hard - mp_safety m in
        if mp_enable_thinking m \<noteq> (mp_invocation_mode m = ''thinking'') \<or> mp_pinned_output m \<noteq> mp_max_output m
           \<or> mp_pinned_output m > mp_provider_max_output m \<or> hard < 1 \<or> safe < 1
           \<or> mp_soft_input m > safe \<or> mp_keep_recent m \<ge> mp_soft_input m
           \<or> mp_summary_output m > mp_provider_max_output m \<or> mp_overflow_limit m < 1
        then Inl ''configured Model Context Policy pin is invalid''
        else Inr \<lparr>cb_hard_input = hard, cb_safe_input = safe,
                  cb_trigger = (if mp_soft_input m < safe then mp_soft_input m else safe)\<rparr>)"

definition execution_of_row :: "execution \<times> model_pins option \<Rightarrow> (ctl_error, execution) result" where
  "execution_of_row row =
     (case snd row of
        None \<Rightarrow> Inr ((fst row)\<lparr>ex_overflow_retry_limit := 0\<rparr>)
      | Some m \<Rightarrow>
          (case resolve_model_context m of
             Inl e \<Rightarrow> Inl (Plain_Failure e)
           | Inr _ \<Rightarrow> Inr ((fst row)\<lparr>ex_overflow_retry_limit := mp_overflow_limit m\<rparr>)))"

definition leased_row :: "attempt \<Rightarrow> run_store \<Rightarrow> bool" where
  "leased_row a s \<longleftrightarrow>
     rs_run_id s = at_run_id a \<and> rs_status s = running \<and> rs_output_empty s
     \<and> list_ex (\<lambda>j. jl_id j = at_job_id a \<and> jl_lease_token j = at_lease_token a \<and> jl_status j = running \<and> lease_valid s j) (rs_jobs s)"

definition load_execution ::
  "attempt \<Rightarrow> (execution \<times> model_pins option) option \<Rightarrow> run_store \<Rightarrow> (ctl_error, execution) result" where
  "load_execution a row s =
     (case row of
        None \<Rightarrow> Inl (Store_Failure Lease_Lost)
      | Some r \<Rightarrow>
          if \<not> leased_row a s then Inl (Store_Failure Lease_Lost)
          else (case rs_deadline s of
              None \<Rightarrow> Inl (Store_Failure Database_Error)
            | Some d \<Rightarrow>
                bind_result (execution_of_row r) (\<lambda>ex.
                  if \<not> d > rs_now s then Inl (Store_Failure Run_Deadline_Exceeded)
                  else Inr (ex\<lparr>ex_attempt := a\<rparr>))))"

section \<open>Steering\<close>

text \<open>Delivery is derived from the checkpoint rows of the Run.\<close>

definition delivers :: "gostring \<Rightarrow> checkpoint \<Rightarrow> bool" where
  "delivers m row \<longleftrightarrow>
     pc_kind (cp_pending row) = Steering_Message
     \<and> (case pc_payload (cp_pending row) of
          Raw (JObj ms) \<Rightarrow> map_of ms ''message_id'' = Some (JStr m) | _ \<Rightarrow> False)"

definition pending_steering :: "(gostring \<times> gostring) list \<Rightarrow> run_store \<Rightarrow> (gostring \<times> gostring) list" where
  "pending_steering sent s = filter (\<lambda>x. \<not> list_ex (delivers (fst x)) (rs_rows s)) sent"

section \<open>The world and what surrounds the runtime\<close>

record weather =
  we_first :: try_env
  we_second :: try_env

record 'e world =
  wd_product :: product
  wd_calls :: "pending_checkpoint list"
  wd_rest :: 'e

record ('e, 'q) surroundings =
  su_jsonb :: "json \<Rightarrow> json"
  su_weather :: "'e \<Rightarrow> 'e \<times> weather"
  su_row :: "'e \<Rightarrow> (execution \<times> model_pins option) option"
  su_start_run :: "attempt \<Rightarrow> execution \<Rightarrow> 'e \<Rightarrow> 'e \<times> (ctl_error, unit) result"
  su_message_id :: "'e \<Rightarrow> gostring"
  su_steering :: "'e \<Rightarrow> (gostring \<times> gostring) list"
  su_grounding :: "'e \<Rightarrow> product \<Rightarrow> store_error option"
  su_prepare_request :: "execution \<Rightarrow> checkpoint_prefix \<Rightarrow> gostring list \<Rightarrow> gostring \<Rightarrow> 'e \<Rightarrow> 'e \<times> (ctl_error, 'q) result"
  su_build_request :: "execution \<Rightarrow> checkpoint_prefix \<Rightarrow> gostring list \<Rightarrow> 'e \<Rightarrow> 'e \<times> (ctl_error, 'q) result"
  su_finalize_request :: "execution \<Rightarrow> checkpoint_prefix \<Rightarrow> 'q model_request \<Rightarrow> 'e \<Rightarrow> 'e \<times> (ctl_error, 'q model_request) result"
  su_decide :: "'q model_request \<Rightarrow> 'e \<Rightarrow> 'e \<times> model_outcome \<times> ctl_error option"
  su_prepare_final :: "attempt \<Rightarrow> execution \<Rightarrow> checkpoint_prefix \<Rightarrow> gostring \<Rightarrow> 'e \<Rightarrow> 'e \<times> (ctl_error, gostring) result"
  su_invocation :: "execution \<Rightarrow> gostring"
  su_session :: bool
  su_open_session :: "attempt \<Rightarrow> execution \<Rightarrow> 'e \<Rightarrow> 'e \<times> (ctl_error, unit) result"
  su_tools :: "tool list"
  su_list_tools :: "'e \<Rightarrow> 'e \<times> (ctl_error, unit) result"
  su_invoke :: "execution \<Rightarrow> accepted_action \<Rightarrow> 'e \<Rightarrow> 'e \<times> (ctl_error, action_result) result"
  su_schedule :: "'e \<Rightarrow> nat \<Rightarrow> nat list"
  su_context_done :: "'e \<Rightarrow> bool"
  su_cause_lease_lost :: "'e \<Rightarrow> bool"

definition on_store :: "(run_store \<Rightarrow> run_store) \<Rightarrow> product \<Rightarrow> product" where
  "on_store f p = p\<lparr>pd_store := f (pd_store p)\<rparr>"

text \<open>An operation on the rest of the world.\<close>

definition outside :: "('e \<Rightarrow> 'e \<times> 's) \<Rightarrow> 'e world \<Rightarrow> 'e world \<times> 's" where
  "outside f w = (case f (wd_rest w) of (e, r) \<Rightarrow> (w\<lparr>wd_rest := e\<rparr>, r))"

fun store_value :: "(store_error, 'a) result \<Rightarrow> (ctl_error, 'a) result" where
  "store_value (Inl e) = Inl (Store_Failure e)"
| "store_value (Inr x) = Inr x"

definition store_outcome :: "store_error option \<Rightarrow> (ctl_error, unit) result" where
  "store_outcome r = (case r of None \<Rightarrow> Inr () | Some e \<Rightarrow> Inl (Store_Failure e))"

text \<open>A transaction that only reads, tried once: other transactions run before it, and it may fail.\<close>

definition reading ::
  "('e, 'q) surroundings \<Rightarrow> ('e \<Rightarrow> run_store \<Rightarrow> (ctl_error, 'a) result) \<Rightarrow> 'e world \<Rightarrow> 'e world \<times> (ctl_error, 'a) result" where
  "reading su f w =
     (case su_weather su (wd_rest w) of (e, we) \<Rightarrow>
        let p = on_store (te_before (we_first we)) (wd_product w) in
        (w\<lparr>wd_product := p, wd_rest := e\<rparr>,
         if te_fault (we_first we) \<noteq> No_Fault then Inl (Store_Failure Database_Error) else f e (pd_store p)))"

definition append_op :: "('e, 'q) surroundings \<Rightarrow> attempt \<Rightarrow> pending_checkpoint \<Rightarrow> ('e world, unit) op" where
  "append_op su a c w =
     (case su_weather su (wd_rest w) of (e, we) \<Rightarrow>
        (case append_checkpoint (su_jsonb su) a c (we_first we) (we_second we) (pd_store (wd_product w)) of
           (s, r) \<Rightarrow>
             (w\<lparr>wd_product := on_store (\<lambda>_. s) (wd_product w), wd_calls := wd_calls w @ [c], wd_rest := e\<rparr>,
              (case r of Inl x \<Rightarrow> Inl (Store_Failure x) | Inr _ \<Rightarrow> Inr ()))))"

definition publish_try :: "try_env \<Rightarrow> publish_env" where
  "publish_try t = \<lparr>pe_before = on_store (te_before t), pe_fault = te_fault t,
                    pe_between = on_store (te_between t), pe_broken = te_broken t\<rparr>"

definition publish_op :: "('e, 'q) surroundings \<Rightarrow> attempt \<Rightarrow> gostring \<Rightarrow> ('e world, unit) op" where
  "publish_op su a t w =
     (case su_weather su (wd_rest w) of (e, we) \<Rightarrow>
        (case publish_final (su_grounding su e) a (su_message_id su e) t
                (publish_try (we_first we)) (publish_try (we_second we)) (wd_product w) of
           (p, r) \<Rightarrow> (w\<lparr>wd_product := p, wd_rest := e\<rparr>, store_outcome r)))"

definition fail_op :: "('e, 'q) surroundings \<Rightarrow> attempt \<Rightarrow> gostring \<Rightarrow> ('e world, unit) op" where
  "fail_op su a code w =
     (case su_weather su (wd_rest w) of (e, we) \<Rightarrow>
        (case fail_run (te_fault (we_first we)) a code (on_store (te_before (we_first we)) (wd_product w)) of
           (p, r) \<Rightarrow> (w\<lparr>wd_product := p, wd_rest := e\<rparr>, store_outcome r)))"

definition usage_op :: "('e, 'q) surroundings \<Rightarrow> attempt \<Rightarrow> model_outcome \<Rightarrow> ('e world, unit) op" where
  "usage_op su a out w =
     (case su_weather su (wd_rest w) of (e, we) \<Rightarrow>
        let p = on_store (te_before (we_first we)) (wd_product w);
            p' = on_store (record_model_usage (mo_input_tokens out) (mo_cached_tokens out) (mo_output_tokens out)) p in
        if te_fault (we_first we) = Fault_Before_Commit
        then (w\<lparr>wd_product := p, wd_rest := e\<rparr>, Inl (Store_Failure Database_Error))
        else (w\<lparr>wd_product := p', wd_rest := e\<rparr>,
              if te_fault (we_first we) = No_Fault then Inr () else Inl (Store_Failure Database_Error)))"

section \<open>The runtime\<close>

definition postgres_runtime :: "('e, 'q) surroundings \<Rightarrow> ('e world, 'q) runtime" where
  "postgres_runtime su =
     \<lparr>rt_load = (\<lambda>a. reading su (\<lambda>e. load_execution a (su_row su e))),
      rt_start_run = Some (\<lambda>a ex. outside (su_start_run su a ex)),
      rt_load_prefix = (\<lambda>a. reading su (\<lambda>_ s. store_value (load_prefix_tx a s))),
      rt_check_authority = (\<lambda>a. reading su (\<lambda>_ s. store_outcome (check_authority a s))),
      rt_append = append_op su,
      rt_publish_final = publish_op su,
      rt_fail = fail_op su,
      rt_pending_steering = Some (\<lambda>a. reading su (\<lambda>e s. Inr (pending_steering (su_steering su e) s))),
      rt_budget_exhausted = Some (\<lambda>a. reading su (\<lambda>_ s. Inr (model_budget_exhausted s))),
      rt_record_usage = Some (usage_op su),
      rt_wrap_up_tools = None,
      rt_prepare_request = Some (\<lambda>ex p names t. outside (su_prepare_request su ex p names t)),
      rt_build_request = (\<lambda>ex p names. outside (su_build_request su ex p names)),
      rt_finalize_request = Some (\<lambda>ex p q. outside (su_finalize_request su ex p q)),
      rt_decide = (\<lambda>q. outside (su_decide su q)),
      rt_prepare_response = None,
      rt_prepare_final = Some (\<lambda>a ex p t. outside (su_prepare_final su a ex p t)),
      rt_invalid_retry_limit = Some 2,
      rt_invocation = su_invocation su,
      rt_session = su_session su,
      rt_open_session = (\<lambda>a ex. outside (su_open_session su a ex)),
      rt_tools = su_tools su,
      rt_list_tools = outside (su_list_tools su),
      rt_invoke = (\<lambda>ex x. outside (su_invoke su ex x)),
      rt_schedule = (\<lambda>w. su_schedule su (wd_rest w)),
      rt_context_done = (\<lambda>w. su_context_done su (wd_rest w)),
      rt_cause_lease_lost = (\<lambda>w. su_cause_lease_lost su (wd_rest w))\<rparr>"

lemmas op_defs = reading_def outside_def append_op_def publish_op_def fail_op_def usage_op_def

section \<open>Properties\<close>

text \<open>
  the token budgets of a configured Run make sense. When the pinned policy is accepted, the
  compaction trigger is above what compaction keeps and not above the safe input limit, the safe limit
  is positive and keeps its safety margin to the hard limit, and a full input together with the pinned
  output fits the context window.
\<close>

lemma pinned_context_budgets:
  assumes "resolve_model_context m = Inr b"
  shows "mp_keep_recent m < cb_trigger b \<and> cb_trigger b \<le> cb_safe_input b \<and> 0 < cb_safe_input b
    \<and> cb_safe_input b + mp_safety m = cb_hard_input b
    \<and> cb_hard_input b + mp_pinned_output m \<le> mp_context_window m
    \<and> cb_hard_input b \<le> mp_provider_max_input m \<and> 1 \<le> mp_overflow_limit m"
  using assms by (auto simp: resolve_model_context_def Let_def split: if_splits)

definition sample_pins :: model_pins where
  "sample_pins = \<lparr>mp_has_null = False, mp_enable_thinking = True, mp_invocation_mode = ''thinking'', mp_max_output = 8,
     mp_context_window = 128, mp_provider_max_input = 100, mp_provider_max_output = 16, mp_pinned_output = 8,
     mp_soft_input = 80, mp_safety = 5, mp_keep_recent = 20, mp_summary_output = 4, mp_overflow_limit = 1\<rparr>"

end
