(* ===== verification/Run_Budget.thy ===== *)
theory Run_Budget
  imports Agent_Runtime
begin

text \<open>
  The Controller on the runtime of theory \<open>Agent_Runtime\<close>: both interfaces of a runtime
  interpreted on it, and what follows for a whole run of \<open>Execute\<close>. Every checkpoint it asks for is
  admitted for the prefix it has just loaded, and the Run's budgets hold from the first to the last
  row of its log, whatever faults hit the transactions and whatever the model answers.
\<close>

section \<open>The history of appends\<close>

lemma reading_calls: "wd_calls (fst (reading su f w)) = wd_calls w"
  by (simp add: reading_def Let_def split: prod.split)

lemma outside_calls: "wd_calls (fst (outside f w)) = wd_calls w"
  by (simp add: outside_def split: prod.split)

lemma publish_calls: "wd_calls (fst (publish_op su a t w)) = wd_calls w"
  by (simp add: publish_op_def split: prod.split)

lemma fail_calls: "wd_calls (fst (fail_op su a code w)) = wd_calls w"
  by (simp add: fail_op_def split: prod.split)

lemma usage_calls: "wd_calls (fst (usage_op su a out w)) = wd_calls w"
  by (simp add: usage_op_def Let_def split: prod.split)

lemma append_calls: "wd_calls (fst (append_op su a c w)) = wd_calls w @ [c]"
  by (simp add: append_op_def split: prod.split)

lemmas op_calls = reading_calls outside_calls publish_calls fail_calls usage_calls append_calls

interpretation pg_history: controller_history "postgres_runtime su" wd_calls
  for su :: "('e, 'q) surroundings"
  by unfold_locales (auto simp: postgres_runtime_def op_calls)

section \<open>The log along a run\<close>

text \<open>The log after appends were asked for, one after the other.\<close>

fun grows :: "pending_checkpoint list \<Rightarrow> checkpoint list \<Rightarrow> checkpoint list \<Rightarrow> bool" where
  "grows [] cs cs' \<longleftrightarrow> cs' = cs"
| "grows (c # new) cs cs' \<longleftrightarrow> (\<exists>mid. grows_by c cs mid \<and> grows new mid cs')"

lemma grows_append: "grows (xs @ ys) cs cs' \<longleftrightarrow> (\<exists>mid. grows xs cs mid \<and> grows ys mid cs')"
  by (induction xs arbitrary: cs) auto

text \<open>The only other assumption on the surroundings: nobody else writes checkpoints of this Run.\<close>

definition calm_try :: "try_env \<Rightarrow> bool" where
  "calm_try t \<longleftrightarrow> keeps_rows (te_before t) \<and> keeps_rows (te_between t)"

definition calm_surroundings :: "('e, 'q) surroundings \<Rightarrow> bool" where
  "calm_surroundings su \<longleftrightarrow>
     jsonb_faithful (su_jsonb su)
     \<and> (\<forall>e. calm_try (we_first (snd (su_weather su e))) \<and> calm_try (we_second (snd (su_weather su e))))"

abbreviation world_rows :: "'e world \<Rightarrow> checkpoint list" where
  "world_rows w \<equiv> rs_rows (pd_store (wd_product w))"

abbreviation world_log :: "checkpoint list \<Rightarrow> 'e world \<Rightarrow> bool" where
  "world_log cs w \<equiv> log_rep cs (pd_store (wd_product w))"

lemma log_rep_rows: "rs_rows s' = rs_rows s \<Longrightarrow> log_rep cs s' = log_rep cs s"
  by (simp add: log_rep_def)

definition log_step :: "('e, 'q) surroundings \<Rightarrow> 'e world \<Rightarrow> 'e world \<Rightarrow> bool" where
  "log_step su w w' \<longleftrightarrow>
     (\<exists>new. wd_calls w' = wd_calls w @ new
        \<and> (calm_surroundings su \<longrightarrow> (\<forall>cs. world_log cs w \<longrightarrow> (\<exists>cs'. world_log cs' w' \<and> grows new cs cs'))))"

lemma log_step_refl: "log_step su w w"
  unfolding log_step_def by (intro exI [of _ "[]"]) simp

lemma log_step_trans: "log_step su w1 w2 \<Longrightarrow> log_step su w2 w3 \<Longrightarrow> log_step su w1 w3"
  unfolding log_step_def
proof (elim exE conjE)
  fix xs ys
  assume c: "wd_calls w2 = wd_calls w1 @ xs" "wd_calls w3 = wd_calls w2 @ ys"
    and g: "calm_surroundings su \<longrightarrow> (\<forall>cs. world_log cs w1 \<longrightarrow> (\<exists>cs'. world_log cs' w2 \<and> grows xs cs cs'))"
      "calm_surroundings su \<longrightarrow> (\<forall>cs. world_log cs w2 \<longrightarrow> (\<exists>cs'. world_log cs' w3 \<and> grows ys cs cs'))"
  from g have "calm_surroundings su \<longrightarrow> (\<forall>cs. world_log cs w1 \<longrightarrow> (\<exists>cs'. world_log cs' w3 \<and> grows (xs @ ys) cs cs'))"
    unfolding grows_append by blast
  with c show "\<exists>new. wd_calls w3 = wd_calls w1 @ new
      \<and> (calm_surroundings su \<longrightarrow> (\<forall>cs. world_log cs w1 \<longrightarrow> (\<exists>cs'. world_log cs' w3 \<and> grows new cs cs')))"
    by (intro exI [of _ "xs @ ys"]) simp
qed

lemma log_step_rows:
  assumes "wd_calls w' = wd_calls w" and "calm_surroundings su \<Longrightarrow> world_rows w' = world_rows w"
  shows "log_step su w w'"
proof -
  have "calm_surroundings su \<longrightarrow> (\<forall>cs. world_log cs w \<longrightarrow> world_log cs w')"
    using assms(2) log_rep_rows by metis
  with assms(1) show ?thesis unfolding log_step_def by (intro exI [of _ "[]"]) simp
qed

lemma calm_weather:
  "calm_surroundings su \<Longrightarrow> su_weather su e = (e', we) \<Longrightarrow> calm_try (we_first we) \<and> calm_try (we_second we)"
  unfolding calm_surroundings_def by (metis snd_conv)

lemma rows_before: "calm_try t \<Longrightarrow> rs_rows (te_before t s) = rs_rows s"
  and rows_between: "calm_try t \<Longrightarrow> rs_rows (te_between t s) = rs_rows s"
  by (simp_all add: calm_try_def keeps_rows_def)

lemma pd_on_store [simp]: "pd_store (on_store f p) = f (pd_store p)"
  by (simp add: on_store_def)

lemma close_run_rows: "close_run x y b a s = Inr s' \<Longrightarrow> rs_rows s' = rs_rows s"
  by (auto simp: close_run_def split: if_splits)

lemma store_result_rows: "store_configured_final_result t s = Inr s' \<Longrightarrow> rs_rows s' = rs_rows s"
  by (auto simp: store_configured_final_result_def split: if_splits option.splits)

lemma publish_tx_rows: "publish_tx g a m t p = Inr p' \<Longrightarrow> rs_rows (pd_store p') = rs_rows (pd_store p)"
  by (auto simp: publish_tx_def Let_def result_simps dest!: close_run_rows store_result_rows split: option.splits if_splits)

lemma publish_once_rows: "publish_once g f a m t p = (p', r) \<Longrightarrow> rs_rows (pd_store p') = rs_rows (pd_store p)"
  by (auto simp: publish_once_def dest: publish_tx_rows split: if_splits sum.splits)

lemma publish_try_simps [simp]:
  "pe_before (publish_try t) = on_store (te_before t)" "pe_fault (publish_try t) = te_fault t"
  "pe_between (publish_try t) = on_store (te_between t)" "pe_broken (publish_try t) = te_broken t"
  by (simp_all add: publish_try_def)

lemma publish_tries_rows:
  assumes "\<forall>t \<in> set ts. calm_try t" and "publish_tries g a m x err (map publish_try ts) p = (p', r)"
  shows "rs_rows (pd_store p') = rs_rows (pd_store p)"
  using assms
proof (induction ts arbitrary: err p)
  case Nil
  then show ?case by simp
next
  case (Cons t ts)
  obtain q y where q: "publish_once g (te_fault t) a m x (on_store (te_before t) p) = (q, y)" by fastforce
  have q': "rs_rows (pd_store q) = rs_rows (pd_store p)"
    using publish_once_rows [OF q] Cons.prems(1) by (simp add: rows_before)
  have IH: "publish_tries g a m x err' (map publish_try ts) (on_store (te_between t) q) = (p', r) \<Longrightarrow> ?case" for err'
    using Cons.IH [of err' "on_store (te_between t) q"] Cons.prems(1) q' by (simp add: rows_between)
  show ?case
    using Cons.prems q q' IH
    by (auto simp: Let_def rows_between split: option.splits if_splits sum.splits publication_state.splits)
qed

lemma publish_final_rows:
  assumes "calm_try t1" "calm_try t2" and "publish_final g a m x (publish_try t1) (publish_try t2) p = (p', r)"
  shows "rs_rows (pd_store p') = rs_rows (pd_store p)"
  using assms publish_tries_rows [of "[t1, t2]" g a m x None p p' r]
  by (auto simp: publish_final_def split: sum.splits if_splits)

lemma fail_run_rows: "fail_run f a code p = (p', r) \<Longrightarrow> rs_rows (pd_store p') = rs_rows (pd_store p)"
  by (auto simp: fail_run_def Let_def dest!: close_run_rows split: if_splits sum.splits)

lemma usage_rows: "rs_rows (record_model_usage i c out s) = rs_rows s"
  by (simp add: record_model_usage_def Let_def)

lemma reading_step: "log_step su w (fst (reading su f w))"
  by (rule log_step_rows [OF reading_calls])
    (auto simp: reading_def Let_def rows_before dest: calm_weather split: prod.split)

lemma outside_step: "log_step su w (fst (outside f w))"
  by (rule log_step_rows [OF outside_calls]) (auto simp: outside_def split: prod.split)

lemma publish_step: "log_step su w (fst (publish_op su a t w))"
  by (rule log_step_rows [OF publish_calls])
    (auto simp: publish_op_def dest!: calm_weather publish_final_rows [rotated 2] split: prod.split)

lemma fail_step: "log_step su w (fst (fail_op su a code w))"
  by (rule log_step_rows [OF fail_calls])
    (auto simp: fail_op_def rows_before dest!: fail_run_rows calm_weather split: prod.split)

lemma usage_step: "log_step su w (fst (usage_op su a out w))"
  by (rule log_step_rows [OF usage_calls])
    (auto simp: usage_op_def Let_def rows_before usage_rows dest: calm_weather split: prod.split)

lemma append_step: "log_step su w (fst (append_op su a c w))"
proof -
  obtain e we where we: "su_weather su (wd_rest w) = (e, we)" by fastforce
  obtain s r where ap: "append_checkpoint (su_jsonb su) a c (we_first we) (we_second we) (pd_store (wd_product w)) = (s, r)"
    by fastforce
  have "\<exists>cs'. log_rep cs' s \<and> grows_by c cs cs'" if calm: "calm_surroundings su" and rep: "world_log cs w" for cs
  proof -
    have "jsonb_faithful (su_jsonb su)" using calm by (simp add: calm_surroundings_def)
    moreover have "\<forall>t \<in> set [we_first we, we_second we]. keeps_rows (te_before t) \<and> keeps_rows (te_between t)"
      using calm_weather [OF calm we] by (simp add: calm_try_def)
    ultimately show ?thesis using append_tries_cases [OF _ _ rep] ap unfolding append_checkpoint_def by blast
  qed
  then show ?thesis
    unfolding log_step_def by (intro exI [of _ "[c]"]) (simp add: append_op_def we ap)
qed

interpretation pg_log: step_runtime "postgres_runtime su" "log_step su"
  for su :: "('e, 'q) surroundings"
  by unfold_locales
    (auto simp: postgres_runtime_def reading_step outside_step publish_step fail_step usage_step append_step
      intro: log_step_refl elim: log_step_trans)

section \<open>Budgets and names\<close>

definition proposal_names :: "checkpoint_prefix \<Rightarrow> gostring list list" where
  "proposal_names p = map (\<lambda>q. map aa_name (apr_actions q)) (cx_proposals p)"

lemma actions_by_name:
  "accepted_business_actions p
    = sum_list (map (\<lambda>ns. int (length (filter (\<lambda>n. \<not> is_plan_mutation_name n) ns))) (proposal_names p))"
  by (simp add: accepted_business_actions_def business_actions_in_def [abs_def] proposal_names_def comp_def filter_map)

lemma decisions_by_name:
  "accepted_business_decisions p
    = int (length (filter (list_ex (\<lambda>n. \<not> is_plan_mutation_name n)) (proposal_names p)))"
  by (simp add: accepted_business_decisions_def proposal_names_def comp_def filter_map list_ex_iff)

lemma within_budget_names: "proposal_names p = proposal_names q \<Longrightarrow> within_budget ex p = within_budget ex q"
  by (simp add: within_budget_def actions_by_name decisions_by_name)

lemma set_result_names:
  "k < length (apr_actions q) \<Longrightarrow> map aa_name (apr_actions (set_result q k r)) = map aa_name (apr_actions q)"
  by (simp add: set_result_def map_update list_update_same_conv)

lemma load_kind_names:
  assumes "load_kind s c = Inr s'" and "pc_kind c \<noteq> Action_Proposal"
  shows "proposal_names (ls_prefix s') = proposal_names (ls_prefix s)"
proof (cases "pc_kind c")
  case Action_Result
  let ?ps = "cx_proposals (ls_prefix s)"
  from assms(1) Action_Result have "?ps \<noteq> [] \<and> (\<exists>k r. k < length (apr_actions (last ?ps))
    \<and> s' = s\<lparr>ls_prefix := (ls_prefix s)\<lparr>cx_proposals := butlast ?ps @ [set_result (last ?ps) k r]\<rparr>\<rparr>)"
    by (auto simp: load_kind_def load_result_def Let_def not_less not_le split: if_splits option.splits prod.splits)
      (metis nat_less_iff)+
  then obtain k r where ne: "?ps \<noteq> []" and k: "k < length (apr_actions (last ?ps))"
    and s': "s' = s\<lparr>ls_prefix := (ls_prefix s)\<lparr>cx_proposals := butlast ?ps @ [set_result (last ?ps) k r]\<rparr>\<rparr>" by blast
  have "map (\<lambda>q. map aa_name (apr_actions q)) (butlast ?ps @ [last ?ps])
      = map (\<lambda>q. map aa_name (apr_actions q)) (butlast ?ps @ [set_result (last ?ps) k r])"
    using set_result_names [OF k] by simp
  with ne show ?thesis by (simp add: s' proposal_names_def)
qed (use assms in \<open>auto simp: load_kind_def load_final_def load_steering_def Let_def proposal_names_def
      split: if_splits option.splits prod.splits\<close>)

lemma load_names:
  assumes "load_checkpoint_prefix cs = Inr p" and "load_checkpoint_prefix (cs @ [c]) = Inr p'"
    and "pc_kind (cp_pending c) \<noteq> Action_Proposal"
  shows "proposal_names p' = proposal_names p"
  using assms load_kind_names
  by (fastforce simp: load_prefix_state load_run_snoc load_step_def result_simps split: if_splits)

text \<open>Two proposals with the same identity and the same value have the same names.\<close>

lemma entry_names_same:
  assumes "action_name_ok name" "canonical_json_object (Raw input) = Inr input"
    and "action_name_ok name'" "canonical_json_object (Raw input') = Inr input'"
    and "same_value (proposal_action_json n i name input) (proposal_action_json n i name' input')"
  shows "name = name'"
proof -
  from decode_entry_same [OF assms(1,2,5)] obtain e where
    "decode_proposal_entry (proposal_action_json n i name' input') = Some e" "pe_name e = name" by blast
  moreover have "same_value (proposal_action_json n i name' input') (proposal_action_json n i name' input')"
    by (simp add: same_value_def)
  from decode_entry_same [OF assms(3,4) this] obtain e' where
    "decode_proposal_entry (proposal_action_json n i name' input') = Some e'" "pe_name e' = name'" by blast
  ultimately show ?thesis by simp
qed

lemma actions_json_names:
  "proposal_actions_json n i as = Inr js \<Longrightarrow> proposal_actions_json n i bs = Inr ks \<Longrightarrow>
   list_all2 same_value js ks \<Longrightarrow> map ap_name as = map ap_name bs"
proof (induction as arbitrary: i bs js ks)
  case Nil
  then show ?case by (cases bs) (auto simp: result_simps split: if_splits)
next
  case (Cons a as)
  from Cons.prems(1) obtain input js' where a: "action_name_ok (ap_name a)" "canonical_json_object (ap_input a) = Inr input"
    and as: "proposal_actions_json n (Suc i) as = Inr js'" and js: "js = proposal_action_json n i (ap_name a) input # js'"
    by (auto simp: result_simps split: if_splits)
  with Cons.prems(3) have "ks \<noteq> []" by auto
  with Cons.prems(2) obtain b bs' input' ks' where bs: "bs = b # bs'"
    and b: "action_name_ok (ap_name b)" "canonical_json_object (ap_input b) = Inr input'"
    and bs': "proposal_actions_json n (Suc i) bs' = Inr ks'" and ks: "ks = proposal_action_json n i (ap_name b) input' # ks'"
    by (cases bs) (auto simp: result_simps split: if_splits)
  have "ap_name a = ap_name b"
    using entry_names_same [OF a(1) canonical_json_object_canon [OF a(2)] b(1) canonical_json_object_canon [OF b(2)]]
      Cons.prems(3) js ks by auto
  with Cons.IH [OF as bs'] Cons.prems(3) js ks bs show ?case by simp
qed

lemma proposal_payload:
  "new_proposal_checkpoint n as = Inr c \<Longrightarrow>
   \<exists>js. proposal_actions_json n 0 as = Inr js \<and> pc_payload c = Raw (JObj [(''actions'', JArr js)])
     \<and> pc_kind c = Action_Proposal \<and> pc_decision_no c = n"
  by (auto simp: new_proposal_checkpoint_def result_simps Let_def split: if_splits)

lemma same_actions_array:
  assumes "same_value (JObj [(''actions'', JArr js)]) (JObj [(''actions'', JArr ks)])"
  shows "list_all2 same_value js ks"
proof -
  have ex: "exact_members [''actions''] [(''actions'', JArr js)]" by (simp add: exact_members_def)
  have c: "canon_members [(''actions'', JArr js)] = canon_members [(''actions'', JArr ks)]"
    using assms by (auto simp: same_value_obj)
  have "rel_option same_value (member_for ''actions'' [(''actions'', JArr js)]) (member_for ''actions'' [(''actions'', JArr ks)])"
    by (rule member_for_same [OF c ex]) simp
  then show ?thesis by (auto simp: member_for_def same_value_arr)
qed

lemma built_proposal:
  assumes new: "new_proposal_checkpoint n as = Inr c" and e: "built e" and m: "checkpoint_matches c e"
  shows "\<exists>bs. new_proposal_checkpoint n bs = Inr e \<and> map ap_name bs = map ap_name as"
proof -
  from proposal_payload [OF new] obtain js where js: "proposal_actions_json n 0 as = Inr js"
    "pc_payload c = Raw (JObj [(''actions'', JArr js)])" "pc_kind c = Action_Proposal" "pc_decision_no c = n" by blast
  from built_raw [OF e] obtain j where "pc_payload e = Raw j" ..
  with m js matches_fields obtain i where e': "pc_kind e = Action_Proposal" "pc_decision_no e = n"
    and same: "same_value (JObj [(''actions'', JArr js)]) j" and j: "pc_payload e = Raw j" by fastforce
  from e e' have "\<exists>n' bs. new_proposal_checkpoint n' bs = Inr e"
    by (auto simp: built_def new_action_result_checkpoint_def new_final_draft_checkpoint_def
        new_steering_checkpoint_def result_simps Let_def split: if_split_asm)
  then obtain n' bs where "new_proposal_checkpoint n' bs = Inr e" by blast
  with proposal_payload e' have bs: "new_proposal_checkpoint n bs = Inr e" by metis
  from proposal_payload [OF bs] obtain ks where ks: "proposal_actions_json n 0 bs = Inr ks"
    "pc_payload e = Raw (JObj [(''actions'', JArr ks)])" by blast
  with same j have "list_all2 same_value js ks" by (intro same_actions_array) simp
  with actions_json_names [OF js(1) ks(1)] bs show ?thesis by metis
qed

lemma apply_proposal_names:
  "proposal_names (apply_outcome p (Accept_Proposal as)) = proposal_names p @ [map ap_name as]"
  by (simp add: proposal_names_def proposal_of_names)

lemma proposal_loads:
  assumes "load_checkpoint_prefix cs = Inr p" and "new_proposal_checkpoint (cx_decisions p + 1) bs = Inr e"
    and "load_checkpoint_prefix (cs @ [\<lparr>cp_sequence_no = k, cp_pending = e\<rparr>]) = Inr p'"
  shows "proposal_names p' = proposal_names (apply_outcome p (Accept_Proposal bs))"
proof -
  from assms(1) obtain s where s: "load_run cs = Inr s" and p: "p = ls_prefix s" by (auto simp: load_prefix_state)
  from load_run_inv [OF s] p have nx: "ls_next s = cx_decisions p + 1" by (simp add: load_inv_def)
  from assms(3) s obtain t where t: "load_kind s e = Inr t" and p': "p' = ls_prefix t"
    by (auto simp: load_prefix_state load_run_snoc load_step_def result_simps split: if_splits)
  from proposal_payload [OF assms(2)] t have "\<not> has_incomplete_proposal (ls_prefix s)"
    by (auto simp: load_kind_def load_proposal_def Let_def split: if_splits)
  with load_new_proposal [of s bs e] assms(2) nx p t p'
  have "p' = p\<lparr>cx_proposals := cx_proposals p @ [proposal_of (ls_next s) bs],
             cx_decisions := cx_decisions p + 1, cx_actions := cx_actions p + int (length bs)\<rparr>" by simp
  with nx show ?thesis by simp
qed

section \<open>The budgets along a run\<close>

lemma grows_by_extends: "grows_by c cs cs' \<Longrightarrow> \<exists>ds. cs' = cs @ ds"
  by (auto simp: grows_by_def)

lemma grows_extends: "grows new cs cs' \<Longrightarrow> \<exists>ds. cs' = cs @ ds"
proof (induction new arbitrary: cs)
  case Nil
  then show ?case by simp
next
  case (Cons c new)
  then obtain mid where "grows_by c cs mid" "grows new mid cs'" by auto
  with Cons.IH grows_by_extends show ?case by fastforce
qed

lemma load_initial: "load_checkpoint_prefix (cs @ ds) = Inr p \<Longrightarrow> \<exists>q. load_checkpoint_prefix cs = Inr q"
  by (auto simp: load_checkpoint_prefix_def load_run_def fold_result_append result_simps)

lemma grows_by_names:
  assumes "grows_by c cs cs'" and "load_checkpoint_prefix cs = Inr p" and "load_checkpoint_prefix cs' = Inr p'"
    and "pc_kind c \<noteq> Action_Proposal"
  shows "proposal_names p' = proposal_names p"
proof (cases "cs' = cs")
  case True
  with assms show ?thesis by simp
next
  case False
  with assms(1) obtain e where cs': "cs' = cs @ [\<lparr>cp_sequence_no = int (length cs) + 1, cp_pending = e\<rparr>]"
    and "checkpoint_matches c e" by (auto simp: grows_by_def)
  then have "pc_kind e \<noteq> Action_Proposal" using assms(4) by (auto simp: checkpoint_matches_def split: if_splits)
  with assms(2,3) cs' show ?thesis by (intro load_names) auto
qed

lemma grows_names:
  assumes "grows new cs cs'" and "load_checkpoint_prefix cs = Inr p" and "load_checkpoint_prefix cs' = Inr p'"
    and "\<forall>c \<in> set new. pc_kind c \<noteq> Action_Proposal"
  shows "proposal_names p' = proposal_names p"
  using assms
proof (induction new arbitrary: cs p)
  case Nil
  then show ?case by simp
next
  case (Cons c new)
  from Cons.prems(1) obtain mid where mid: "grows_by c cs mid" "grows new mid cs'" by auto
  from grows_extends [OF mid(2)] Cons.prems(3) obtain q where q: "load_checkpoint_prefix mid = Inr q"
    using load_initial by blast
  have "proposal_names q = proposal_names p" using grows_by_names [OF mid(1) Cons.prems(2) q] Cons.prems(4) by simp
  with Cons.IH [OF mid(2) q Cons.prems(3)] Cons.prems(4) show ?case by simp
qed

lemma result_kind: "new_action_result_checkpoint n i x r = Inr c \<Longrightarrow> pc_kind c = Action_Result"
  by (auto simp: new_action_result_checkpoint_def result_simps Let_def split: if_splits)

lemma final_kind: "new_final_draft_checkpoint n t = Inr c \<Longrightarrow> pc_kind c = Final_Draft"
  by (auto simp: new_final_draft_checkpoint_def Let_def split: if_splits)

lemma steering_kind: "new_steering_checkpoint n m t = Inr c \<Longrightarrow> pc_kind c = Steering_Message"
  by (auto simp: new_steering_checkpoint_def Let_def split: if_splits)

text \<open>What is admitted is either one proposal within budget, or no proposal at all.\<close>

lemma admitted_cases:
  assumes "admitted rt ex p new"
  shows "(\<forall>c \<in> set new. pc_kind c \<noteq> Action_Proposal) \<or> (\<exists>c. new = [c] \<and> proposal_admitted rt ex p c)"
  using assms
  by (fastforce simp: admitted_def results_admitted_def result_of_pending_def
      dest: result_kind final_kind steering_kind split: option.splits prod.splits)

lemma admitted_within_budget:
  assumes adm: "admitted rt ex p new" and g: "grows new cs cs'"
    and p: "load_checkpoint_prefix cs = Inr p" and p': "load_checkpoint_prefix cs' = Inr p'"
    and b: "within_budget ex p"
  shows "within_budget ex p'"
proof (cases "\<forall>c \<in> set new. pc_kind c \<noteq> Action_Proposal")
  case True
  with grows_names [OF g p p'] within_budget_names b show ?thesis by blast
next
  case False
  with admitted_cases [OF adm] obtain c as where c: "new = [c]" "new_proposal_checkpoint (cx_decisions p + 1) as = Inr c"
    and as: "within_budget ex p \<longrightarrow> within_budget ex (apply_outcome p (Accept_Proposal as))"
    by (auto simp: proposal_admitted_def)
  show ?thesis
  proof (cases "cs' = cs")
    case True
    with p p' b show ?thesis by simp
  next
    case changed: False
    with g c obtain e where cs': "cs' = cs @ [\<lparr>cp_sequence_no = int (length cs) + 1, cp_pending = e\<rparr>]"
      and e: "built e" "checkpoint_matches c e" by (auto simp: grows_by_def)
    from built_proposal [OF c(2) e] obtain bs where bs: "new_proposal_checkpoint (cx_decisions p + 1) bs = Inr e"
      "map ap_name bs = map ap_name as" by blast
    have "proposal_names p' = proposal_names (apply_outcome p (Accept_Proposal as))"
      using proposal_loads [OF p bs(1)] p' unfolding cs' apply_proposal_names bs(2) by blast
    with as b within_budget_names show ?thesis by blast
  qed
qed

definition in_budget :: "execution \<Rightarrow> checkpoint list \<Rightarrow> bool" where
  "in_budget ex cs \<longleftrightarrow> (\<exists>p. load_checkpoint_prefix cs = Inr p \<and> within_budget ex p)"

lemma log_loads: "world_log cs w \<Longrightarrow> \<exists>p. load_checkpoint_prefix cs = Inr p"
  by (simp add: log_rep_def)

lemma loaded_prefix:
  assumes calm: "calm_surroundings su" and rep: "world_log cs w"
    and run: "rt_load_prefix (postgres_runtime su) a w = (w', Inr q)"
  shows "load_checkpoint_prefix cs = Inr q"
proof -
  obtain e we where we: "su_weather su (wd_rest w) = (e, we)" by fastforce
  let ?s = "te_before (we_first we) (pd_store (wd_product w))"
  have "log_rep cs ?s" using rep log_rep_rows rows_before calm_weather [OF calm we] by metis
  then have "load_run_checkpoints ?s = Inr cs" by (rule load_rows_rep)
  moreover have "store_value (load_prefix_tx a ?s) = Inr q"
    using run we by (auto simp: postgres_runtime_def reading_def Let_def split: if_splits)
  ultimately show ?thesis
    by (cases "load_prefix_tx a ?s") (auto simp: load_prefix_tx_def result_simps load_valid_iff split: option.splits)
qed

lemma iteration_asks:
  "\<exists>new. wd_calls (fst (iteration (postgres_runtime su) a ex bd w)) = wd_calls w @ new
     \<and> (new = [] \<or> (\<exists>v q. rt_load_prefix (postgres_runtime su) a w = (v, Inr q) \<and> admitted (postgres_runtime su) ex q new))"
  using pg_history.iteration_history [of su a ex bd w] unfolding pg_history.iteration_adds_def .

lemma iteration_in_budget:
  assumes calm: "calm_surroundings su" and rep: "world_log cs w" and b: "in_budget ex cs"
    and run: "iteration (postgres_runtime su) a ex bd w = (w', s)"
  shows "\<exists>cs'. world_log cs' w' \<and> prefix cs cs' \<and> in_budget ex cs'"
proof -
  from iteration_asks [of su a ex bd w] run obtain new where new: "wd_calls w' = wd_calls w @ new"
    "new = [] \<or> (\<exists>v q. rt_load_prefix (postgres_runtime su) a w = (v, Inr q) \<and> admitted (postgres_runtime su) ex q new)"
    by auto
  have "log_step su w w'" using pg_log.quiet_iteration run by (metis pg_log.quietD)
  with new(1) calm rep obtain cs' where cs': "world_log cs' w'" "grows new cs cs'" by (auto simp: log_step_def)
  from log_loads [OF cs'(1)] obtain p' where p': "load_checkpoint_prefix cs' = Inr p'" by blast
  from b obtain p where p: "load_checkpoint_prefix cs = Inr p" "within_budget ex p" by (auto simp: in_budget_def)
  have "within_budget ex p'"
  proof (cases "new = []")
    case True
    with cs' p p' show ?thesis by simp
  next
    case False
    with new(2) obtain v q where "rt_load_prefix (postgres_runtime su) a w = (v, Inr q)"
      and q: "admitted (postgres_runtime su) ex q new" by blast
    with loaded_prefix [OF calm rep] p(1) have "q = p" by force
    with admitted_within_budget [OF _ cs'(2) p(1) p' p(2)] q show ?thesis by blast
  qed
  with cs' p' grows_extends [OF cs'(2)] show ?thesis by (auto simp: in_budget_def)
qed

lemma loop_in_budget:
  assumes "calm_surroundings su" and "world_log cs w" and "in_budget ex cs"
    and "execute_loop n (postgres_runtime su) a ex bd w = (w', s)"
  shows "\<exists>cs'. world_log cs' w' \<and> prefix cs cs' \<and> in_budget ex cs'"
  using assms(2-)
proof (induction n arbitrary: cs w bd)
  case 0
  then show ?case by auto
next
  case (Suc n)
  obtain v t where it: "iteration (postgres_runtime su) a ex bd w = (v, t)" by fastforce
  from iteration_in_budget [OF assms(1) Suc.prems(1,2) it] obtain mid where
    mid: "world_log mid v" "prefix cs mid" "in_budget ex mid" by blast
  show ?case
  proof (cases t)
    case (Again b)
    with Suc.prems(3) it have "execute_loop n (postgres_runtime su) a ex b v = (w', s)" by simp
    from Suc.IH [OF mid(1,3) this] mid(2) show ?thesis by (meson prefix_order.trans)
  next
    case (Returned r)
    with Suc.prems(3) it mid show ?thesis by auto
  qed
qed

text \<open>Steps before the loop: the log is the same.\<close>

lemma reading_log: "calm_surroundings su \<Longrightarrow> world_log cs w \<Longrightarrow> reading su f w = (w', r) \<Longrightarrow> world_log cs w'"
proof -
  assume calm: "calm_surroundings su" and rep: "world_log cs w" and run: "reading su f w = (w', r)"
  obtain e we where we: "su_weather su (wd_rest w) = (e, we)" by fastforce
  have "world_rows w' = world_rows w"
    using run we rows_before calm_weather [OF calm we] by (auto simp: reading_def Let_def)
  with rep show "world_log cs w'" using log_rep_rows by blast
qed

lemma outside_log: "world_log cs w \<Longrightarrow> outside f w = (w', r) \<Longrightarrow> world_log cs w'"
  by (auto simp: outside_def split: prod.splits)

section \<open>Properties\<close>


definition sample_surroundings :: "(unit, unit) surroundings" where
  "sample_surroundings =
     \<lparr>su_jsonb = canon, su_weather = (\<lambda>e. (e, \<lparr>we_first = calm_env No_Fault, we_second = calm_env No_Fault\<rparr>)),
      su_row = (\<lambda>_. Some (sample_execution, None)), su_start_run = (\<lambda>_ _ e. (e, Inr ())),
      su_message_id = (\<lambda>_. ''m1''), su_steering = (\<lambda>_. []), su_grounding = (\<lambda>_ _. None),
      su_prepare_request = (\<lambda>_ _ _ _ e. (e, Inr ())), su_build_request = (\<lambda>_ _ _ e. (e, Inr ())),
      su_finalize_request = (\<lambda>_ _ q e. (e, Inr q)),
      su_decide = (\<lambda>_ e. (e, \<lparr>mo_decision = \<lparr>md_final = Some ''done'', md_proposal = None\<rparr>, mo_finish_reason = ''stop'',
         mo_input_tokens = Some 5, mo_cached_tokens = None, mo_output_tokens = Some 1\<rparr>, None)),
      su_prepare_final = (\<lambda>_ _ _ t e. (e, Inr t)), su_invocation = (\<lambda>_. ''chat''), su_session = False,
      su_open_session = (\<lambda>_ _ e. (e, Inr ())), su_tools = [], su_list_tools = (\<lambda>e. (e, Inr ())),
      su_invoke = (\<lambda>_ _ e. (e, Inl Context_Canceled)), su_schedule = (\<lambda>_ n. [0..<n]),
      su_context_done = (\<lambda>_. False), su_cause_lease_lost = (\<lambda>_. False)\<rparr>"

definition sample_world :: "unit world" where
  "sample_world = \<lparr>wd_product = \<lparr>pd_store = sample_store, pd_messages = [], pd_error_code = []\<rparr>, wd_calls = [], wd_rest = ()\<rparr>"

lemma sample_calm: "calm_surroundings sample_surroundings"
  by (simp add: calm_surroundings_def sample_surroundings_def calm_try_def calm_env_def keeps_rows_def canon_faithful)

lemma sample_loads:
  "\<exists>w0. rt_load (postgres_runtime sample_surroundings) sample_attempt sample_world
      = (w0, Inr (sample_execution\<lparr>ex_overflow_retry_limit := 0\<rparr>))"
  by (auto simp: postgres_runtime_def reading_def sample_surroundings_def calm_env_def sample_world_def load_execution_def
      leased_row_def execution_of_row_def sample_store_def sample_attempt_def running_def lease_valid_def sample_execution_def)



end
