(* ===== verification/Todo.thy ===== *)
theory Todo
  imports Checkpoint
begin

text \<open>
  The TODO list of a user request (\<open>internal/agent/todo.go\<close>) and the two Actions that mutate it
  (\<open>todo_action.go\<close>). A snapshot is replaced, never edited in place; a mutation names the revision it
  was computed from. Times are integers, 0 the zero time. The loader of the stored snapshot and the
  spelling of a time in JSON are parameters.
\<close>

section \<open>Snapshots\<close>

definition todo_pending :: gostring where "todo_pending = ''pending''"
definition todo_in_progress :: gostring where "todo_in_progress = ''in_progress''"
definition todo_completed :: gostring where "todo_completed = ''completed''"
definition todo_cancelled :: gostring where "todo_cancelled = ''cancelled''"

lemmas todo_statuses = todo_pending_def todo_in_progress_def todo_completed_def todo_cancelled_def

definition valid_todo_status :: "gostring \<Rightarrow> bool" where
  "valid_todo_status s \<longleftrightarrow> s = todo_pending \<or> s = todo_in_progress \<or> s = todo_completed \<or> s = todo_cancelled"

record todo_item =
  ti_id :: gostring
  ti_content :: gostring
  ti_status :: gostring
  ti_created :: int
  ti_updated :: int

record todo_snapshot =
  ts_input_message :: gostring
  ts_revision :: int
  ts_next_ordinal :: int
  ts_items :: "todo_item list"

record todo_update =
  tu_id :: gostring
  tu_status :: gostring

text \<open>
  \<open>fmt.Sscanf(id, "todo_%d", &n)\<close>: the literal prefix, then spaces but no newline, an optional sign and
  digits, which must fit an \<open>int\<close>. What follows the digits is not looked at.
\<close>

definition scan_ordinal :: "gostring \<Rightarrow> int option" where
  "scan_ordinal s =
     (if \<not> prefix ''todo_'' s then None
      else
        let r = drop 5 s; r1 = strip space_encodings r;
            skipped = take (length r - length r1) r;
            neg = (case r1 of [] \<Rightarrow> False | c # _ \<Rightarrow> c = CHR ''-'');
            r2 = (case r1 of [] \<Rightarrow> [] | c # cs \<Rightarrow> if c = CHR ''-'' \<or> c = CHR ''+'' then cs else r1);
            ds = takeWhile (\<lambda>c. digit_value c \<noteq> None) r2 in
        if char_of (10 :: nat) \<in> set skipped \<or> ds = [] then None
        else (case read_digits 0 ds of
            None \<Rightarrow> None
          | Some n \<Rightarrow>
              let v = (if neg then - int n else int n) in
              if - (2 ^ 63) \<le> v \<and> v < 2 ^ 63 then Some v else None))"

definition todo_id :: "int \<Rightarrow> gostring" where
  "todo_id n = ''todo_'' @ itoa n"

definition item_ok :: "int \<Rightarrow> todo_item \<Rightarrow> bool" where
  "item_ok next_ordinal i \<longleftrightarrow>
     (case scan_ordinal (ti_id i) of None \<Rightarrow> False | Some n \<Rightarrow> 1 \<le> n \<and> n < next_ordinal)
     \<and> \<not> blank (ti_content i) \<and> rune_count (ti_content i) \<le> 500 \<and> valid_todo_status (ti_status i)
     \<and> ti_created i \<noteq> 0 \<and> ti_created i \<le> ti_updated i"

definition active_items :: "todo_item list \<Rightarrow> nat" where
  "active_items is = length (filter (\<lambda>i. ti_status i = todo_in_progress) is)"

text \<open>
  The loop over the items returns the same error for every fault. Its last test, that the next ordinal
  is above all others, cannot fail once each item has passed.
\<close>

definition validate_todo_snapshot :: "todo_snapshot \<Rightarrow> gostring \<Rightarrow> gostring option" where
  "validate_todo_snapshot s input_message =
     (if ts_input_message s = [] \<or> ts_input_message s \<noteq> input_message \<or> ts_revision s < 1 \<or> ts_next_ordinal s < 1
         \<or> ts_items s = []
      then Some ''todo_snapshot_invalid''
      else if \<not> list_all (item_ok (ts_next_ordinal s)) (ts_items s) \<or> \<not> distinct (map ti_id (ts_items s))
      then Some ''todo_snapshot_invalid''
      else if active_items (ts_items s) > 1
         \<or> list_ex (\<lambda>i. case scan_ordinal (ti_id i) of None \<Rightarrow> False | Some n \<Rightarrow> ts_next_ordinal s \<le> n) (ts_items s)
      then Some ''todo_snapshot_invalid''
      else None)"

section \<open>Mutations\<close>

fun normalize_items :: "gostring list \<Rightarrow> gostring list \<Rightarrow> (gostring, gostring list) result" where
  "normalize_items acc [] = Inr acc"
| "normalize_items acc (x # xs) =
     (let item = trim_space x in
      if item = [] \<or> rune_count item > 500 \<or> item \<in> set acc then Inl ''todo_invalid_items''
      else normalize_items (acc @ [item]) xs)"

definition cancel_item :: "int \<Rightarrow> todo_item \<Rightarrow> todo_item" where
  "cancel_item at i =
     (if ti_status i = todo_pending \<or> ti_status i = todo_in_progress
      then i\<lparr>ti_status := todo_cancelled, ti_updated := at\<rparr> else i)"

definition new_item :: "int \<Rightarrow> int \<Rightarrow> gostring \<Rightarrow> todo_item" where
  "new_item at n content =
     \<lparr>ti_id = todo_id n, ti_content = content, ti_status = todo_pending, ti_created = at, ti_updated = at\<rparr>"

fun append_items :: "int \<Rightarrow> todo_snapshot \<Rightarrow> gostring list \<Rightarrow> todo_snapshot" where
  "append_items at s [] = s"
| "append_items at s (c # cs) =
     append_items at (s\<lparr>ts_items := ts_items s @ [new_item at (ts_next_ordinal s) c],
                        ts_next_ordinal := ts_next_ordinal s + 1\<rparr>) cs"

definition rewrite_todo_list ::
  "todo_snapshot option \<Rightarrow> gostring \<Rightarrow> gostring list \<Rightarrow> int \<Rightarrow> (gostring, todo_snapshot) result" where
  "rewrite_todo_list previous input_message items at =
     (if blank input_message \<or> at = 0 \<or> length items < 1 \<or> length items > 20 then Inl ''todo_invalid_items''
      else bind_result (normalize_items [] items) (\<lambda>normalized.
        let start = (case previous of
              None \<Rightarrow> Inr \<lparr>ts_input_message = input_message, ts_revision = 1, ts_next_ordinal = 1, ts_items = []\<rparr>
            | Some p \<Rightarrow>
                (case validate_todo_snapshot p input_message of
                   Some e \<Rightarrow> Inl e
                 | None \<Rightarrow> Inr (p\<lparr>ts_revision := ts_revision p + 1, ts_items := map (cancel_item at) (ts_items p)\<rparr>))) in
        bind_result start (\<lambda>s.
          let next = append_items at s normalized in
          case validate_todo_snapshot next input_message of Some e \<Rightarrow> Inl e | None \<Rightarrow> Inr next)))"

definition set_status :: "int \<Rightarrow> gostring \<Rightarrow> todo_item \<Rightarrow> todo_item" where
  "set_status at st i = (if ti_status i \<noteq> st then i\<lparr>ti_status := st, ti_updated := at\<rparr> else i)"

definition item_index :: "gostring \<Rightarrow> todo_item list \<Rightarrow> nat option" where
  "item_index k is = (case filter (\<lambda>n. ti_id (is ! n) = k) (rev [0..<length is]) of [] \<Rightarrow> None | n # _ \<Rightarrow> Some n)"

fun apply_updates ::
  "int \<Rightarrow> gostring list \<Rightarrow> todo_item list \<Rightarrow> todo_update list \<Rightarrow> (gostring, todo_item list) result" where
  "apply_updates at seen is [] = Inr is"
| "apply_updates at seen is (u # us) =
     (if tu_id u \<in> set seen then Inl ''todo_duplicate_item''
      else (case item_index (tu_id u) is of
          None \<Rightarrow> Inl ''todo_item_not_found''
        | Some n \<Rightarrow>
            if \<not> valid_todo_status (tu_status u) then Inl ''todo_invalid_status''
            else apply_updates at (tu_id u # seen) (is[n := set_status at (tu_status u) (is ! n)]) us))"

definition update_todo_statuses ::
  "todo_snapshot \<Rightarrow> int \<Rightarrow> todo_update list \<Rightarrow> int \<Rightarrow> (gostring, todo_snapshot) result" where
  "update_todo_statuses previous revision updates at =
     (if at = 0 \<or> length updates < 1 \<or> length updates > 20 then Inl ''todo_invalid_updates''
      else (case validate_todo_snapshot previous (ts_input_message previous) of
          Some e \<Rightarrow> Inl e
        | None \<Rightarrow>
            if revision \<noteq> ts_revision previous then Inl ''todo_revision_conflict''
            else bind_result (apply_updates at [] (ts_items previous) updates) (\<lambda>items.
              if active_items items > 1 then Inl ''todo_multiple_in_progress''
              else Inr (previous\<lparr>ts_items := items, ts_revision := ts_revision previous + 1\<rparr>))))"

section \<open>Results of the Actions\<close>

definition item_json :: "(int \<Rightarrow> gostring) \<Rightarrow> todo_item \<Rightarrow> json" where
  "item_json time i = JObj [(''id'', marshal_string (ti_id i)), (''content'', marshal_string (ti_content i)),
     (''status'', marshal_string (ti_status i)), (''created_at'', JStr (time (ti_created i))),
     (''updated_at'', JStr (time (ti_updated i)))]"

definition todo_snapshot_result :: "(int \<Rightarrow> gostring) \<Rightarrow> todo_snapshot \<Rightarrow> action_result" where
  "todo_snapshot_result time s =
     \<lparr>ar_status = action_succeeded,
      ar_output = Raw (JObj [(''input_message_id'', marshal_string (ts_input_message s)),
        (''revision'', marshal_int (ts_revision s)), (''next_ordinal'', marshal_int (ts_next_ordinal s)),
        (''items'', JArr (map (item_json time) (ts_items s)))]),
      ar_error_code = [], ar_error = None\<rparr>"

definition todo_mutation_code :: "gostring \<Rightarrow> gostring" where
  "todo_mutation_code c = (if action_code_ok c then c else ''todo_mutation_failed'')"

text \<open>Message, suggestion and whether a retry makes sense, per code.\<close>

definition todo_error_detail :: "gostring \<Rightarrow> gostring \<times> gostring \<times> bool" where
  "todo_error_detail code =
     (if code = ''todo_list_missing'' then
        (''No TODO list exists for this user request.'', ''Call rewrite_todo_list before updating item status.'', True)
      else if code = ''todo_revision_conflict'' then
        (''The TODO list revision is stale.'', ''Use the revision from the current Agent Status and retry once.'', True)
      else if code = ''todo_item_not_found'' then
        (''The TODO item does not exist.'', ''Use an item ID from the current Agent Status.'', True)
      else if code = ''todo_multiple_in_progress'' then
        (''The update would leave more than one TODO item in progress.'',
         ''Complete, cancel, or pause the current active item in the same update batch.'', True)
      else if code \<in> {''todo_duplicate_item'', ''todo_invalid_status'', ''todo_invalid_updates'', ''todo_invalid_items''} then
        (''The TODO mutation input is invalid.'',
         ''Use distinct item IDs, allowed statuses, and the documented size limits.'', False)
      else
        (''The TODO update could not be applied.'',
         ''Read the current TODO List in Agent Status and choose a valid next update.'', True))"

definition todo_action_domain_error :: "gostring \<Rightarrow> action_result" where
  "todo_action_domain_error code =
     (case todo_error_detail code of (message, suggestion, retryable) \<Rightarrow>
        \<lparr>ar_status = action_domain_error, ar_output = Raw_Empty, ar_error_code = [],
         ar_error = Some \<lparr>ae_kind = ''domain'', ae_code = code, ae_message = message, ae_suggestion = suggestion,
                          ae_retryable = retryable\<rparr>\<rparr>)"

text \<open>What the loader gives: the input message, the time of the proposal, and the stored snapshot if there is one.\<close>

definition execute_rewrite ::
  "(int \<Rightarrow> gostring) \<Rightarrow> gostring \<times> int \<times> todo_snapshot option \<Rightarrow> gostring list \<Rightarrow> action_result" where
  "execute_rewrite time state items =
     (case state of (input_message, at, previous) \<Rightarrow>
        (case rewrite_todo_list previous input_message items at of
           Inl e \<Rightarrow> todo_action_domain_error (todo_mutation_code e)
         | Inr s \<Rightarrow> todo_snapshot_result time s))"

definition execute_update ::
  "(int \<Rightarrow> gostring) \<Rightarrow> gostring \<times> int \<times> todo_snapshot option \<Rightarrow> int \<Rightarrow> todo_update list \<Rightarrow> action_result" where
  "execute_update time state revision updates =
     (case state of (_, at, previous) \<Rightarrow>
        (case previous of
           None \<Rightarrow> todo_action_domain_error ''todo_list_missing''
         | Some p \<Rightarrow>
             (case update_todo_statuses p revision updates at of
                Inl e \<Rightarrow> todo_action_domain_error (todo_mutation_code e)
              | Inr s \<Rightarrow> todo_snapshot_result time s)))"

section \<open>Identities\<close>

lemma leading_digit:
  assumes "d < 10"
  shows "leading space_encodings (digit d # s) = None"
proof -
  have "w = [] \<or> \<not> prefix w (digit d # s)" if w: "w \<in> set space_encodings" for w
  proof (cases w)
    case (Cons c cs)
    then have "c \<in> \<Union> (set ` set space_encodings)" using w by force
    then have "byte c \<le> 32 \<or> 128 \<le> byte c" by (rule space_bytes)
    then have "c \<noteq> digit d" using assms by auto
    with Cons show ?thesis by simp
  qed simp
  then show ?thesis by (simp add: leading_None)
qed

lemma itoa_nat_head: "\<exists>d s. d < 10 \<and> itoa_nat n = digit d # s"
proof (cases "itoa_nat n")
  case (Cons c s)
  then have "c \<in> set (itoa_nat n)" by simp
  from itoa_nat_digits [OF this] Cons show ?thesis by auto
qed simp

lemma takeWhile_digits: "takeWhile (\<lambda>c. digit_value c \<noteq> None) (itoa_nat n) = itoa_nat n"
  using itoa_nat_digits [of _ n] by (fastforce simp: takeWhile_eq_all_conv)

lemma scan_todo_id:
  assumes "0 < n" and "n < 2 ^ 63"
  shows "scan_ordinal (todo_id n) = Some n"
proof -
  let ?t = "itoa_nat (nat n)"
  obtain d s where ds: "d < 10" "?t = digit d # s" using itoa_nat_head by blast
  have id: "todo_id n = ''todo_'' @ ?t" using assms by (simp add: todo_id_def itoa_def)
  have strip: "strip space_encodings ?t = ?t"
    unfolding ds(2) by (rule strip_stop) (rule leading_digit [OF ds(1)])
  have neg: "(case ?t of [] \<Rightarrow> False | c # _ \<Rightarrow> c = CHR ''-'') = False"
    and r2: "(case ?t of [] \<Rightarrow> [] | c # cs \<Rightarrow> if c = CHR ''-'' \<or> c = CHR ''+'' then cs else ?t) = ?t"
    using digit_neq_sign [OF ds(1)] by (simp_all add: ds(2))
  have r: "prefix ''todo_'' (todo_id n)" "drop 5 (todo_id n) = ?t" by (simp_all add: id)
  show ?thesis
    unfolding scan_ordinal_def Let_def r(2) strip neg r2 takeWhile_digits read_digits_itoa_nat
    using assms r(1) by simp
qed

lemma todo_id_inject [simp]: "todo_id m = todo_id n \<longleftrightarrow> m = n"
  by (simp add: todo_id_def)

section \<open>What a mutation keeps\<close>

definition items_from :: "int \<Rightarrow> int \<Rightarrow> gostring list \<Rightarrow> todo_item list" where
  "items_from at n cs = map (\<lambda>k. new_item at (n + int k) (cs ! k)) [0..<length cs]"

lemma items_from_Cons: "items_from at n (c # cs) = new_item at n c # items_from at (n + 1) cs"
proof (rule nth_equalityI)
  show "length (items_from at n (c # cs)) = length (new_item at n c # items_from at (n + 1) cs)"
    by (simp add: items_from_def)
  fix i assume "i < length (items_from at n (c # cs))"
  then show "items_from at n (c # cs) ! i = (new_item at n c # items_from at (n + 1) cs) ! i"
    by (cases i) (simp_all add: items_from_def algebra_simps del: upt_Suc)
qed

lemma append_items_eq:
  "append_items at s cs = s\<lparr>ts_items := ts_items s @ items_from at (ts_next_ordinal s) cs,
     ts_next_ordinal := ts_next_ordinal s + int (length cs)\<rparr>"
proof (induction cs arbitrary: s)
  case Nil
  then show ?case by (simp add: items_from_def)
next
  case (Cons c cs)
  then show ?case by (simp add: items_from_Cons algebra_simps)
qed

definition content_ok :: "gostring \<Rightarrow> bool" where
  "content_ok c \<longleftrightarrow> \<not> blank c \<and> rune_count c \<le> 500"

lemma normalize_items_ok:
  "normalize_items acc xs = Inr ys \<Longrightarrow> list_all content_ok acc \<Longrightarrow> list_all content_ok ys \<and> ys = acc @ map trim_space xs"
proof (induction acc xs rule: normalize_items.induct)
  case (2 acc x xs)
  have "content_ok (trim_space x)" if "trim_space x \<noteq> []" "rune_count (trim_space x) \<le> 500"
    using that by (simp add: content_ok_def blank_def)
  with 2 show ?case by (auto simp: Let_def split: if_splits)
qed auto

text \<open>A valid snapshot, and the part of validity that a clock that never runs backwards adds.\<close>

abbreviation snapshot_ok :: "todo_snapshot \<Rightarrow> bool" where
  "snapshot_ok s \<equiv> validate_todo_snapshot s (ts_input_message s) = None"

lemma validate_todo_snapshot_iff:
  "validate_todo_snapshot s m = None \<longleftrightarrow>
     ts_input_message s \<noteq> [] \<and> ts_input_message s = m \<and> 1 \<le> ts_revision s \<and> 1 \<le> ts_next_ordinal s \<and> ts_items s \<noteq> []
     \<and> list_all (item_ok (ts_next_ordinal s)) (ts_items s) \<and> distinct (map ti_id (ts_items s))
     \<and> active_items (ts_items s) \<le> 1"
proof -
  have "\<not> list_ex (\<lambda>i. case scan_ordinal (ti_id i) of None \<Rightarrow> False | Some n \<Rightarrow> ts_next_ordinal s \<le> n) (ts_items s)"
    if "list_all (item_ok (ts_next_ordinal s)) (ts_items s)"
    using that by (fastforce simp: list_all_iff list_ex_iff item_ok_def split: option.splits)
  then show ?thesis by (auto simp: validate_todo_snapshot_def not_less not_le)
qed

lemma item_ok_mono: "item_ok n i \<Longrightarrow> n \<le> n' \<Longrightarrow> item_ok n' i"
  by (auto simp: item_ok_def split: option.splits)

definition items_before :: "int \<Rightarrow> todo_item list \<Rightarrow> bool" where
  "items_before at is \<longleftrightarrow> (\<forall>i \<in> set is. ti_created i \<le> at)"

lemma cancel_item_ok: "item_ok n i \<Longrightarrow> ti_created i \<le> at \<Longrightarrow> item_ok n (cancel_item at i)"
  by (auto simp: item_ok_def cancel_item_def valid_todo_status_def split: option.splits)

lemma cancel_item_id [simp]: "ti_id (cancel_item at i) = ti_id i"
  by (simp add: cancel_item_def)

lemma cancel_item_ids [simp]: "ti_id \<circ> cancel_item at = ti_id"
  by auto

lemma cancelled_inactive: "ti_status (cancel_item at i) \<noteq> todo_in_progress"
  by (auto simp: cancel_item_def todo_statuses)

lemma new_item_ok:
  assumes "content_ok c" "at \<noteq> 0" "1 \<le> n" "n < m" "m \<le> 2 ^ 63"
  shows "item_ok m (new_item at n c)"
proof -
  have "scan_ordinal (todo_id n) = Some n" by (rule scan_todo_id) (use assms in auto)
  then show ?thesis
    using assms by (simp add: item_ok_def new_item_def content_ok_def valid_todo_status_def)
qed

lemma old_id_new_id:
  assumes "item_ok n i" "n \<le> k" "k < 2 ^ 63"
  shows "ti_id i \<noteq> todo_id k"
proof
  assume eq: "ti_id i = todo_id k"
  from assms(1) obtain j where j: "scan_ordinal (ti_id i) = Some j" "1 \<le> j" "j < n"
    by (auto simp: item_ok_def split: option.splits)
  then have "0 < k" using assms(2) by simp
  from scan_todo_id [OF this assms(3)] j eq assms(2) show False by simp
qed

lemma appended_ok:
  assumes old: "list_all (item_ok n) is" "distinct (map ti_id is)" "active_items is = 0"
    and cs: "list_all content_ok cs" "cs \<noteq> []" and at: "at \<noteq> 0" and n: "1 \<le> n" "n + int (length cs) \<le> 2 ^ 63"
  shows "list_all (item_ok (n + int (length cs))) (is @ items_from at n cs)"
    and "distinct (map ti_id (is @ items_from at n cs))" and "active_items (is @ items_from at n cs) = 0"
proof -
  let ?m = "n + int (length cs)"
  have "item_ok ?m (new_item at (n + int k) (cs ! k))" if "k < length cs" for k
    by (rule new_item_ok) (use that cs at n in \<open>auto simp: list_all_length\<close>)
  then have new: "list_all (item_ok ?m) (items_from at n cs)" by (auto simp: items_from_def list_all_iff)
  have "list_all (item_ok ?m) is"
    using old(1) by (auto simp: list_all_iff intro: item_ok_mono)
  with new show "list_all (item_ok ?m) (is @ items_from at n cs)" by simp
  have ids: "map ti_id (items_from at n cs) = map (\<lambda>k. todo_id (n + int k)) [0..<length cs]"
    by (simp add: items_from_def new_item_def comp_def)
  have "distinct (map (\<lambda>k. todo_id (n + int k)) [0..<length cs])"
    by (simp add: distinct_map inj_on_def)
  moreover have "ti_id i \<noteq> todo_id (n + int k)" if "i \<in> set is" "k < length cs" for i k
    by (rule old_id_new_id [of n]) (use that old n in \<open>auto simp: list_all_iff\<close>)
  ultimately show "distinct (map ti_id (is @ items_from at n cs))"
    using old(2) by (auto simp: ids)
  have "active_items (items_from at n cs) = 0"
    by (auto simp: active_items_def items_from_def new_item_def todo_statuses filter_empty_conv)
  with old(3) show "active_items (is @ items_from at n cs) = 0" by (simp add: active_items_def)
qed

section \<open>Updates as one pass\<close>

definition patched :: "int \<Rightarrow> todo_update list \<Rightarrow> todo_item \<Rightarrow> todo_item" where
  "patched at us i =
     (case find (\<lambda>u. tu_id u = ti_id i) us of None \<Rightarrow> i | Some u \<Rightarrow> set_status at (tu_status u) i)"

definition updates_ok :: "gostring list \<Rightarrow> todo_item list \<Rightarrow> todo_update list \<Rightarrow> bool" where
  "updates_ok seen is us \<longleftrightarrow>
     distinct (map tu_id us) \<and> (\<forall>u \<in> set us. tu_id u \<notin> set seen \<and> tu_id u \<in> ti_id ` set is \<and> valid_todo_status (tu_status u))"

lemma item_index_Some:
  assumes "item_index k is = Some n"
  shows "n < length is \<and> ti_id (is ! n) = k"
proof -
  from assms obtain ns where "filter (\<lambda>n. ti_id (is ! n) = k) (rev [0..<length is]) = n # ns"
    by (auto simp: item_index_def split: list.splits)
  then have "n \<in> set (filter (\<lambda>n. ti_id (is ! n) = k) (rev [0..<length is]))" by simp
  then show ?thesis by simp
qed

lemma item_index_None: "item_index k is = None \<longleftrightarrow> k \<notin> ti_id ` set is"
proof (cases "item_index k is")
  case None
  then have "filter (\<lambda>n. ti_id (is ! n) = k) (rev [0..<length is]) = []"
    by (auto simp: item_index_def split: list.splits)
  then have "\<forall>n \<in> set (rev [0..<length is]). ti_id (is ! n) \<noteq> k" by (simp only: filter_empty_conv)
  then have "\<forall>n < length is. ti_id (is ! n) \<noteq> k" by simp
  with None show ?thesis by (auto simp: in_set_conv_nth)
next
  case (Some n)
  with item_index_Some [OF Some] show ?thesis by (metis imageI nth_mem option.distinct(1))
qed

lemma set_status_id [simp]: "ti_id (set_status at st i) = ti_id i"
  by (simp add: set_status_def)

lemma map_single:
  assumes "distinct (map ti_id is)" "n < length is"
  shows "is[n := f (is ! n)] = map (\<lambda>i. if ti_id i = ti_id (is ! n) then f i else i) is"
proof (rule nth_equalityI)
  fix m assume "m < length (is[n := f (is ! n)])"
  then have m: "m < length is" by simp
  have "ti_id (is ! m) = ti_id (is ! n) \<longleftrightarrow> m = n"
    using assms m by (metis distinct_nth_inj length_map nth_map)
  with m assms(2) show "is[n := f (is ! n)] ! m = map (\<lambda>i. if ti_id i = ti_id (is ! n) then f i else i) is ! m"
    by (auto simp: nth_list_update)
qed simp

lemma patched_Cons:
  assumes "tu_id u \<notin> tu_id ` set us"
  shows "patched at us (if ti_id i = tu_id u then set_status at (tu_status u) i else i) = patched at (u # us) i"
proof -
  have "find (\<lambda>v. tu_id v = tu_id u) us = None" using assms by (metis (mono_tags, lifting) find_None_iff image_eqI)
  then show ?thesis by (auto simp: patched_def)
qed

lemma apply_updates_spec:
  assumes "distinct (map ti_id is)"
  shows "apply_updates at seen is us = Inr is' \<longleftrightarrow> updates_ok seen is us \<and> is' = map (patched at us) is"
  using assms
proof (induction us arbitrary: seen "is")
  case Nil
  have "patched at [] i = i" for i by (simp add: patched_def)
  then show ?case by (auto simp: updates_ok_def)
next
  case (Cons u us)
  show ?case
  proof (cases "item_index (tu_id u) is")
    case None
    then have "tu_id u \<notin> ti_id ` set is" using item_index_None by blast
    with None show ?thesis by (simp add: updates_ok_def)
  next
    case (Some n)
    let ?f = "set_status at (tu_status u)" let ?is = "is[n := ?f (is ! n)]"
    from item_index_Some [OF Some] have n: "n < length is" "ti_id (is ! n) = tu_id u" by auto
    have eq: "?is = map (\<lambda>i. if ti_id i = tu_id u then ?f i else i) is"
      using map_single [OF Cons.prems n(1), of ?f] by (simp add: n(2))
    have ids: "map ti_id ?is = map ti_id is" by (simp add: eq comp_def)
    then have set_ids: "ti_id ` set ?is = ti_id ` set is" by (metis list.set_map)
    have mem: "tu_id u \<in> ti_id ` set is" using n by (metis imageI nth_mem)
    have IH: "apply_updates at (tu_id u # seen) ?is us = Inr is'
        \<longleftrightarrow> updates_ok (tu_id u # seen) ?is us \<and> is' = map (patched at us) ?is"
      using Cons.IH [of ?is "tu_id u # seen"] Cons.prems ids by metis
    have ok: "updates_ok seen is (u # us) \<longleftrightarrow>
        tu_id u \<notin> set seen \<and> valid_todo_status (tu_status u) \<and> updates_ok (tu_id u # seen) ?is us"
      using mem unfolding updates_ok_def set_ids by (auto simp: image_iff) metis?
    have "map (patched at us) ?is = map (patched at (u # us)) is" if "tu_id u \<notin> tu_id ` set us"
      unfolding eq by (simp add: patched_Cons [OF that] comp_def)
    moreover have "updates_ok (tu_id u # seen) ?is us \<Longrightarrow> tu_id u \<notin> tu_id ` set us" by (auto simp: updates_ok_def)
    ultimately show ?thesis using IH ok Some by (auto split: if_splits)
  qed
qed

lemma patched_fields [simp]:
  "ti_id (patched at us i) = ti_id i" "ti_content (patched at us i) = ti_content i" "ti_created (patched at us i) = ti_created i"
  by (simp_all add: patched_def set_status_def split: option.split)

lemma patched_ok:
  assumes "item_ok n i" "ti_created i \<le> at" "\<forall>u \<in> set us. valid_todo_status (tu_status u)"
  shows "item_ok n (patched at us i)"
  using assms by (auto simp: patched_def set_status_def item_ok_def find_Some_iff split: option.splits)

lemma update_accepted_iff:
  assumes "snapshot_ok p" and "at \<noteq> 0" and "1 \<le> length us" and "length us \<le> 20"
  shows "update_todo_statuses p revision us at = Inr s \<longleftrightarrow>
    revision = ts_revision p \<and> updates_ok [] (ts_items p) us
    \<and> active_items (map (patched at us) (ts_items p)) \<le> 1
    \<and> s = p\<lparr>ts_items := map (patched at us) (ts_items p), ts_revision := ts_revision p + 1\<rparr>"
proof -
  have "distinct (map ti_id (ts_items p))" using assms(1) by (simp add: validate_todo_snapshot_iff)
  note spec = apply_updates_spec [OF this]
  have "update_todo_statuses p revision us at = Inr s \<longleftrightarrow>
      revision = ts_revision p \<and> (\<exists>items. apply_updates at [] (ts_items p) us = Inr items \<and> active_items items \<le> 1
        \<and> s = p\<lparr>ts_items := items, ts_revision := ts_revision p + 1\<rparr>)"
    using assms by (auto simp: update_todo_statuses_def result_simps not_le not_less)
  then show ?thesis unfolding spec by blast
qed

section \<open>Error details\<close>

definition fits :: "gostring \<times> gostring \<times> bool \<Rightarrow> bool" where
  "fits x \<longleftrightarrow> list_ex (\<lambda>c. \<not> digit7 c \<and> digit6 c) (fst x) \<and> ascii (fst x) \<and> length (fst x) \<le> 512
     \<and> ascii (fst (snd x)) \<and> length (fst (snd x)) \<le> 512"

lemma detail_fits: "fits (todo_error_detail c)"
  unfolding todo_error_detail_def by (simp add: fits_def)

section \<open>Properties\<close>

text \<open>
  C25: updating TODO statuses means what it says. For a valid snapshot, an update with the current
  revision is accepted exactly when its item identities are distinct, all known and given allowed
  statuses, and at most one item ends in progress; the new snapshot is the old one with each named
  item's status replaced (and its time of update set only when the status changes) and the next
  revision. Any other revision is refused.
\<close>

theorem update_todo_statuses_spec:
  assumes "snapshot_ok p" and "at \<noteq> 0" and "1 \<le> length us" and "length us \<le> 20"
  shows "update_todo_statuses p revision us at = Inr s \<longleftrightarrow>
    revision = ts_revision p \<and> updates_ok [] (ts_items p) us
    \<and> active_items (map (patched at us) (ts_items p)) \<le> 1
    \<and> s = p\<lparr>ts_items := map (patched at us) (ts_items p), ts_revision := ts_revision p + 1\<rparr>"
  using assms by (rule update_accepted_iff)

definition sample_todo :: todo_snapshot where
  "sample_todo = \<lparr>ts_input_message = ''m'', ts_revision = 1, ts_next_ordinal = 3,
     ts_items = [\<lparr>ti_id = ''todo_1'', ti_content = ''read'', ti_status = todo_pending, ti_created = 5, ti_updated = 5\<rparr>,
                 \<lparr>ti_id = ''todo_2'', ti_content = ''write'', ti_status = todo_pending, ti_created = 5, ti_updated = 5\<rparr>]\<rparr>"

lemma sample_ids: "todo_id 1 = ''todo_1''" "todo_id 2 = ''todo_2''" "todo_id 3 = ''todo_3''"
  by code_simp+

lemma sample_scan: "scan_ordinal ''todo_1'' = Some 1" "scan_ordinal ''todo_2'' = Some 2"
  using scan_todo_id [of 1] scan_todo_id [of 2] by (simp_all add: sample_ids)

lemma sample_contents: "\<not> blank ''read''" "\<not> blank ''write''" "rune_count ''read'' = 4" "rune_count ''write'' = 5"
  by (auto simp: rune_count_ascii intro!: not_blank_letter)

lemma sample_todo_ok: "snapshot_ok sample_todo"
  by (simp add: validate_todo_snapshot_iff sample_todo_def item_ok_def sample_scan sample_contents valid_todo_status_def
      active_items_def todo_statuses)

definition sample_updates :: "todo_update list" where
  "sample_updates = [\<lparr>tu_id = ''todo_1'', tu_status = todo_completed\<rparr>, \<lparr>tu_id = ''todo_2'', tu_status = todo_in_progress\<rparr>]"

lemma sample_updates_ok: "updates_ok [] (ts_items sample_todo) sample_updates"
  by (simp add: updates_ok_def sample_updates_def sample_todo_def valid_todo_status_def)

lemma sample_update_runs:
  "update_todo_statuses sample_todo 1 sample_updates 9 = Inr (sample_todo\<lparr>
     ts_items := map (patched 9 sample_updates) (ts_items sample_todo), ts_revision := ts_revision sample_todo + 1\<rparr>)"
proof -
  have "active_items (map (patched 9 sample_updates) (ts_items sample_todo)) \<le> 1"
    by (simp add: active_items_def patched_def sample_updates_def sample_todo_def set_status_def todo_statuses)
  with sample_updates_ok show ?thesis
    by (subst update_accepted_iff [OF sample_todo_ok]) (simp_all add: sample_updates_def sample_todo_def)
qed

theorem update_todo_statuses_spec_witness:
  "updates_ok [] (ts_items sample_todo) sample_updates
   \<and> active_items (map (patched 9 sample_updates) (ts_items sample_todo)) \<le> 1"
proof -
  have "1 \<le> length sample_updates" "length sample_updates \<le> 20" by (simp_all add: sample_updates_def)
  with sample_update_runs update_todo_statuses_spec [OF sample_todo_ok, of 9 sample_updates 1] show ?thesis by auto
qed

text \<open>
  a mutation of the TODO list never leaves a snapshot that the next reader rejects, as long as
  time does not run backwards. An accepted update of a snapshot whose items were created no later than
  the proposal gives a valid snapshot with the same items in the same order.
\<close>

lemma update_keeps_snapshot_valid:
  assumes "update_todo_statuses p revision us at = Inr s" and "items_before at (ts_items p)"
  shows "snapshot_ok s \<and> items_before at (ts_items s) \<and> map ti_id (ts_items s) = map ti_id (ts_items p)
    \<and> map ti_content (ts_items s) = map ti_content (ts_items p)"
proof -
  from assms(1) have p: "snapshot_ok p"
    by (auto simp: update_todo_statuses_def split: if_splits option.splits)
  then have d: "distinct (map ti_id (ts_items p))" by (simp add: validate_todo_snapshot_iff)
  from assms(1) p apply_updates_spec [OF d, of at "[]" us]
  have ok: "updates_ok [] (ts_items p) us" and act: "active_items (map (patched at us) (ts_items p)) \<le> 1"
    and s: "s = p\<lparr>ts_items := map (patched at us) (ts_items p), ts_revision := ts_revision p + 1\<rparr>"
    by (auto simp: update_todo_statuses_def result_simps split: if_splits)
  have "\<forall>i \<in> set (ts_items p). item_ok (ts_next_ordinal p) (patched at us i)"
    using p ok assms(2) by (auto simp: validate_todo_snapshot_iff list_all_iff items_before_def updates_ok_def intro!: patched_ok)
  with p act s d assms(2) show ?thesis
    by (auto simp: validate_todo_snapshot_iff list_all_iff comp_def items_before_def)
qed

text \<open>
  C26: rewriting the TODO list keeps its history and never fails for a reason of its own. From a valid
  snapshot of the same user request, with one to twenty items that are distinct, not blank and within
  the size limit once trimmed, with a clock that does not run backwards and ordinals left, the rewrite
  succeeds; finished items are unchanged and unfinished ones cancelled, in their old order, the new
  items follow as pending with fresh identities, and the new snapshot is valid.
\<close>

theorem rewrite_keeps_history:
  assumes "validate_todo_snapshot p m = None" and "\<not> blank m" and "at \<noteq> 0" and "items_before at (ts_items p)"
    and "1 \<le> length items" and "length items \<le> 20" and "normalize_items [] items = Inr contents"
    and "ts_next_ordinal p + int (length contents) \<le> 2 ^ 63"
  shows "\<exists>s. rewrite_todo_list (Some p) m items at = Inr s \<and> snapshot_ok s
    \<and> ts_revision s = ts_revision p + 1
    \<and> ts_items s = map (cancel_item at) (ts_items p) @ items_from at (ts_next_ordinal p) contents"
proof -
  note p = assms(1) [unfolded validate_todo_snapshot_iff]
  have c: "list_all content_ok contents" "contents \<noteq> []"
    using normalize_items_ok [OF assms(7)] assms(5) by auto
  let ?old = "map (cancel_item at) (ts_items p)"
  have old: "list_all (item_ok (ts_next_ordinal p)) ?old"
    using p assms(4) by (auto simp: list_all_iff items_before_def intro: cancel_item_ok)
  have "map ti_id ?old = map ti_id (ts_items p)" by (simp add: comp_def)
  then have d: "distinct (map ti_id ?old)" using p by simp
  have a: "active_items ?old = 0" by (auto simp: active_items_def filter_empty_conv cancelled_inactive)
  have n: "1 \<le> ts_next_ordinal p" using p by simp
  note new = appended_ok [OF old d a c assms(3) n assms(8)]
  let ?s = "append_items at (p\<lparr>ts_revision := ts_revision p + 1, ts_items := ?old\<rparr>) contents"
  have s: "?s = p\<lparr>ts_revision := ts_revision p + 1, ts_items := ?old @ items_from at (ts_next_ordinal p) contents,
      ts_next_ordinal := ts_next_ordinal p + int (length contents)\<rparr>"
    by (simp add: append_items_eq)
  have ok: "validate_todo_snapshot ?s m = None"
    unfolding validate_todo_snapshot_iff using p new by (auto simp: s)
  then have "rewrite_todo_list (Some p) m items at = Inr ?s"
    using assms by (auto simp: rewrite_todo_list_def Let_def)
  moreover have "snapshot_ok ?s" using ok p by (simp add: s)
  ultimately show ?thesis by (simp add: s)
qed

theorem rewrite_keeps_history_witness:
  "\<exists>s. rewrite_todo_list (Some sample_todo) ''m'' [''read'', ''write''] 9 = Inr s
     \<and> map ti_status (ts_items s) = [todo_cancelled, todo_cancelled, todo_pending, todo_pending]"
proof -
  have trim: "trim_space ''read'' = ''read''" "trim_space ''write'' = ''write''"
    by code_simp+
  have n: "normalize_items [] [''read'', ''write''] = Inr [''read'', ''write'']"
    by (simp add: trim sample_contents Let_def)
  have "\<not> blank ''m''" by (rule not_blank_letter) simp
  moreover have "items_before 9 (ts_items sample_todo)" by (simp add: items_before_def sample_todo_def)
  moreover have "validate_todo_snapshot sample_todo ''m'' = None" using sample_todo_ok by (simp add: sample_todo_def)
  ultimately have "\<exists>s. rewrite_todo_list (Some sample_todo) ''m'' [''read'', ''write''] 9 = Inr s \<and> snapshot_ok s
      \<and> ts_revision s = ts_revision sample_todo + 1
      \<and> ts_items s = map (cancel_item 9) (ts_items sample_todo) @ items_from 9 (ts_next_ordinal sample_todo) [''read'', ''write'']"
    by (intro rewrite_keeps_history n) (simp_all add: sample_todo_def)
  then show ?thesis
    by (auto simp: sample_todo_def cancel_item_def items_from_def new_item_def)
qed

text \<open>
  the two TODO Actions always return a result the Controller accepts: whatever the stored list, the
  input and the time, the outcome is a valid success with a JSON object or a valid structured error.
\<close>

lemma todo_actions_return_valid_results:
  "action_result_ok (execute_rewrite time state items)
   \<and> action_result_ok (execute_update time state' revision updates)"
proof -
  have code: "action_code_ok (todo_mutation_code c)" for c
    by (simp add: todo_mutation_code_def action_code_ok_def go_eval)
  have "action_code_ok ''todo_list_missing''" by (simp add: action_code_ok_def go_eval)
  moreover have err: "action_result_ok (todo_action_domain_error c)" if "action_code_ok c" for c
  proof -
    have "action_code_ok ''domain''" by (simp add: action_code_ok_def go_eval)
    moreover obtain m g b where d: "todo_error_detail c = (m, g, b)" by (cases "todo_error_detail c")
    moreover from d detail_fits [of c] have "\<not> blank m" "rune_count m \<le> 512" "rune_count g \<le> 512"
      by (auto simp: fits_def rune_count_ascii dest: not_blank_letter)
    ultimately show ?thesis
      using that by (simp add: todo_action_domain_error_def action_result_ok_def action_error_ok_def
          action_succeeded_def action_domain_error_def)
  qed
  moreover have "action_result_ok (todo_snapshot_result time s)" for s
    by (simp add: todo_snapshot_result_def action_result_ok_def)
  ultimately show ?thesis
    using code by (auto simp: execute_rewrite_def execute_update_def split: prod.split option.split sum.split)
qed

end
