(* ===== verification/Chat_Lane.thy ===== *)
theory Chat_Lane
  imports Controller_Budget
begin

text \<open>
  The model-visible history of a Chat (\<open>internal/agent/context_projection.go\<close>): the durable lane of
  user messages and Runs is projected to context units, the smallest pieces that compaction may cut
  between, and the units are flattened to the messages of a request. The projector of historical
  results is a parameter; cancellation between two turns is left out.
\<close>

section \<open>Messages and units\<close>

datatype model_role = Role_System | Role_User | Role_Assistant | Role_Action

fun role_text :: "model_role \<Rightarrow> gostring" where
  "role_text Role_System = ''system''"
| "role_text Role_User = ''user''"
| "role_text Role_Assistant = ''assistant''"
| "role_text Role_Action = ''action''"

text \<open>
  The content of a message is text. Text that the code produced by encoding a JSON value is kept as
  that value, so that it can be decoded again.
\<close>

datatype content = Words gostring | Encoded json

fun content_text :: "content \<Rightarrow> gostring" where
  "content_text (Words s) = s"
| "content_text (Encoded j) = json_text j"

record model_action_call =
  mc_id :: gostring
  mc_name :: gostring
  mc_input :: raw

record model_message =
  mm_role :: model_role
  mm_content :: content
  mm_calls :: "model_action_call list"
  mm_call_id :: gostring

datatype unit_kind = Unit_User_Message | Unit_Agent_Step | Unit_Compaction_Summary

record context_unit =
  cu_kind :: unit_kind
  cu_message_id :: gostring
  cu_run_id :: gostring
  cu_decision_no :: int
  cu_messages :: "model_message list"

record lane_run =
  lr_run_id :: gostring
  lr_checkpoints :: "checkpoint list"
  lr_prefix :: "checkpoint_prefix option"
  lr_published :: gostring

record lane_turn =
  lt_message_id :: gostring
  lt_content :: gostring
  lt_runs :: "lane_run list"

type_synonym result_projector = "gostring \<Rightarrow> accepted_action \<Rightarrow> (gostring, action_result) result"

definition plain_message :: "model_role \<Rightarrow> gostring \<Rightarrow> model_message" where
  "plain_message role s = \<lparr>mm_role = role, mm_content = Words s, mm_calls = [], mm_call_id = []\<rparr>"

section \<open>Projection\<close>

datatype projection_error =
    Invalid_User_Message
  | Duplicate_User_Message gostring
  | Empty_Run_Id
  | Duplicate_Run gostring
  | Run_Does_Not_Load gostring load_reason
  | Incomplete_Action gostring int int
  | Projector_Failed gostring gostring
  | Invalid_Projected_Result gostring gostring
  | Invalid_Compaction_Boundary
  | Boundary_Not_In_Lane

definition steering_marker :: gostring where
  "steering_marker =
     ''[Steering from the Member, received while you were working. Adjust the current work accordingly.]'' @ [CHR 0x0A]"

definition steering_context_message :: "accepted_steering \<Rightarrow> model_message" where
  "steering_context_message s = plain_message Role_User (steering_marker @ as_content s)"

definition steering_context_unit :: "gostring \<Rightarrow> accepted_steering \<Rightarrow> context_unit" where
  "steering_context_unit run_id s =
     \<lparr>cu_kind = Unit_User_Message, cu_message_id = as_message_id s, cu_run_id = run_id,
      cu_decision_no = as_decision_no s, cu_messages = [steering_context_message s]\<rparr>"

definition proposal_message :: "accepted_proposal \<Rightarrow> model_message" where
  "proposal_message p =
     \<lparr>mm_role = Role_Assistant, mm_content = Words [],
      mm_calls = map (\<lambda>a. \<lparr>mc_id = aa_action_id a, mc_name = aa_name a, mc_input = aa_input a\<rparr>) (apr_actions p),
      mm_call_id = []\<rparr>"

definition payload_content :: "pending_checkpoint \<Rightarrow> content" where
  "payload_content c = (case pc_payload c of Raw j \<Rightarrow> Encoded j | _ \<Rightarrow> Words [])"

definition result_message ::
  "result_projector option \<Rightarrow> gostring \<Rightarrow> int \<Rightarrow> accepted_action \<Rightarrow> (projection_error, model_message) result" where
  "result_message projector run_id n a =
     (case aa_result a of
        None \<Rightarrow> Inl (Incomplete_Action run_id n (aa_index a))
      | Some stored \<Rightarrow>
          (case (case projector of None \<Rightarrow> Inr stored | Some f \<Rightarrow> f run_id a) of
             Inl _ \<Rightarrow> Inl (Projector_Failed run_id (aa_action_id a))
           | Inr r \<Rightarrow>
               (case new_action_result_checkpoint n (aa_index a) (aa_action_id a) r of
                  Inl _ \<Rightarrow> Inl (Invalid_Projected_Result run_id (aa_action_id a))
                | Inr c \<Rightarrow> Inr \<lparr>mm_role = Role_Action, mm_content = payload_content c, mm_calls = [],
                                mm_call_id = aa_action_id a\<rparr>)))"

fun result_messages ::
  "result_projector option \<Rightarrow> gostring \<Rightarrow> int \<Rightarrow> accepted_action list \<Rightarrow> (projection_error, model_message list) result" where
  "result_messages projector run_id n [] = Inr []"
| "result_messages projector run_id n (a # as) =
     bind_result (result_message projector run_id n a) (\<lambda>m.
       bind_result (result_messages projector run_id n as) (\<lambda>ms. Inr (m # ms)))"

text \<open>All Actions are checked for a result before the first result is projected.\<close>

definition project_proposal ::
  "result_projector option \<Rightarrow> gostring \<Rightarrow> gostring \<Rightarrow> accepted_proposal \<Rightarrow> (projection_error, context_unit) result" where
  "project_proposal projector message_id run_id p =
     (case find (\<lambda>a. aa_result a = None) (apr_actions p) of
        Some a \<Rightarrow> Inl (Incomplete_Action run_id (apr_decision_no p) (aa_index a))
      | None \<Rightarrow>
          bind_result (result_messages projector run_id (apr_decision_no p) (apr_actions p)) (\<lambda>ms.
            Inr \<lparr>cu_kind = Unit_Agent_Step, cu_message_id = message_id, cu_run_id = run_id,
                 cu_decision_no = apr_decision_no p, cu_messages = proposal_message p # ms\<rparr>))"

text \<open>
  The proposals in order, each after the Steering Messages delivered up to its decision
  (\<open>flushSteering\<close>), then the Steering Messages that are left.
\<close>

fun project_steps ::
  "result_projector option \<Rightarrow> gostring \<Rightarrow> gostring \<Rightarrow> accepted_steering list \<Rightarrow> accepted_proposal list
   \<Rightarrow> (projection_error, context_unit list) result" where
  "project_steps projector message_id run_id steering [] = Inr (map (steering_context_unit run_id) steering)"
| "project_steps projector message_id run_id steering (p # ps) =
     (let due = (\<lambda>s. as_decision_no s \<le> apr_decision_no p) in
      bind_result (project_proposal projector message_id run_id p) (\<lambda>u.
        bind_result (project_steps projector message_id run_id (dropWhile due steering) ps) (\<lambda>us.
          Inr (map (steering_context_unit run_id) (takeWhile due steering) @ u # us))))"

definition final_units :: "gostring \<Rightarrow> lane_run \<Rightarrow> checkpoint_prefix \<Rightarrow> context_unit list" where
  "final_units message_id run p =
     (case cx_final p of
        Some t \<Rightarrow>
          [\<lparr>cu_kind = Unit_Agent_Step, cu_message_id = message_id, cu_run_id = lr_run_id run,
            cu_decision_no = cx_decisions p, cu_messages = [plain_message Role_Assistant t]\<rparr>]
      | None \<Rightarrow>
          if \<not> blank (lr_published run) then
            [\<lparr>cu_kind = Unit_Agent_Step, cu_message_id = message_id, cu_run_id = lr_run_id run,
              cu_decision_no = 0, cu_messages = [plain_message Role_Assistant (lr_published run)]\<rparr>]
          else [])"

definition run_prefix :: "lane_run \<Rightarrow> (projection_error, checkpoint_prefix) result" where
  "run_prefix run =
     (case lr_prefix run of
        Some p \<Rightarrow> Inr p
      | None \<Rightarrow>
          (case load_checkpoint_prefix (lr_checkpoints run) of
             Inl e \<Rightarrow> Inl (Run_Does_Not_Load (lr_run_id run) e)
           | Inr p \<Rightarrow> Inr p))"

definition project_run ::
  "result_projector option \<Rightarrow> gostring \<Rightarrow> lane_run \<Rightarrow> (projection_error, context_unit list) result" where
  "project_run projector message_id run =
     bind_result (run_prefix run) (\<lambda>p.
       bind_result (project_steps projector message_id (lr_run_id run) (cx_steering p) (cx_proposals p)) (\<lambda>us.
         Inr (us @ final_units message_id run p)))"

fun project_runs ::
  "result_projector option \<Rightarrow> gostring \<Rightarrow> gostring list \<Rightarrow> lane_run list
   \<Rightarrow> (projection_error, gostring list \<times> context_unit list) result" where
  "project_runs projector message_id seen [] = Inr (seen, [])"
| "project_runs projector message_id seen (r # rs) =
     (if blank (lr_run_id r) then Inl Empty_Run_Id
      else if lr_run_id r \<in> set seen then Inl (Duplicate_Run (lr_run_id r))
      else bind_result (project_run projector message_id r) (\<lambda>us.
        bind_result (project_runs projector message_id (lr_run_id r # seen) rs) (\<lambda>(seen', vs).
          Inr (seen', us @ vs))))"

fun project_turns ::
  "result_projector option \<Rightarrow> gostring list \<Rightarrow> gostring list \<Rightarrow> lane_turn list
   \<Rightarrow> (projection_error, context_unit list) result" where
  "project_turns projector seen_messages seen_runs [] = Inr []"
| "project_turns projector seen_messages seen_runs (t # ts) =
     (if blank (lt_message_id t) \<or> blank (lt_content t) then Inl Invalid_User_Message
      else if lt_message_id t \<in> set seen_messages then Inl (Duplicate_User_Message (lt_message_id t))
      else bind_result (project_runs projector (lt_message_id t) seen_runs (lt_runs t)) (\<lambda>(seen_runs', us).
        bind_result (project_turns projector (lt_message_id t # seen_messages) seen_runs' ts) (\<lambda>vs.
          Inr (\<lparr>cu_kind = Unit_User_Message, cu_message_id = lt_message_id t, cu_run_id = [], cu_decision_no = 0,
                cu_messages = [plain_message Role_User (lt_content t)]\<rparr> # us @ vs))))"

definition project_chat_lane ::
  "result_projector option \<Rightarrow> lane_turn list \<Rightarrow> (projection_error, context_unit list) result" where
  "project_chat_lane projector turns = project_turns projector [] [] turns"

definition flatten_context_units :: "context_unit list \<Rightarrow> model_message list" where
  "flatten_context_units us = concat (map cu_messages us)"

definition without_steering :: "checkpoint_prefix \<Rightarrow> checkpoint_prefix" where
  "without_steering p = p\<lparr>cx_steering := []\<rparr>"


section \<open>Conversations\<close>

text \<open>
  What a provider accepts: after an assistant message with calls come the results of exactly these
  calls, in their order, and nothing else; a result answers a call.
\<close>

fun conversation :: "gostring list \<Rightarrow> model_message list \<Rightarrow> bool" where
  "conversation pending [] \<longleftrightarrow> pending = []"
| "conversation pending (m # ms) \<longleftrightarrow>
     (if mm_role m = Role_Action then
        (case pending of [] \<Rightarrow> False | k # ks \<Rightarrow> mm_call_id m = k \<and> mm_calls m = [] \<and> conversation ks ms)
      else pending = [] \<and> conversation (map mc_id (mm_calls m)) ms)"

definition unit_closed :: "context_unit \<Rightarrow> bool" where
  "unit_closed u \<longleftrightarrow>
     cu_messages u \<noteq> [] \<and> conversation [] (cu_messages u)
     \<and> (\<forall>m \<in> set (cu_messages u). mm_role m = Role_User \<longrightarrow> mm_calls m = [])"

definition lane_unit :: "context_unit \<Rightarrow> bool" where
  "lane_unit u \<longleftrightarrow> unit_closed u \<and> cu_kind u \<noteq> Unit_Compaction_Summary"

lemma conversation_append:
  "conversation pending xs \<Longrightarrow> conversation pending (xs @ ys) \<longleftrightarrow> conversation [] ys"
  by (induction pending xs rule: conversation.induct) (auto split: list.splits if_splits)

lemma flatten_simps [simp]:
  "flatten_context_units [] = []"
  "flatten_context_units (u # us) = cu_messages u @ flatten_context_units us"
  "flatten_context_units (us @ vs) = flatten_context_units us @ flatten_context_units vs"
  by (simp_all add: flatten_context_units_def)

lemma closed_units_conversation: "list_all unit_closed us \<Longrightarrow> conversation [] (flatten_context_units us)"
  by (induction us) (auto simp: unit_closed_def conversation_append)

lemma plain_message_simps [simp]:
  "mm_role (plain_message r s) = r" "mm_calls (plain_message r s) = []" "mm_call_id (plain_message r s) = []"
  "mm_content (plain_message r s) = Words s"
  by (simp_all add: plain_message_def)

lemma plain_unit_closed [simp]: "r \<noteq> Role_Action \<Longrightarrow> conversation [] [plain_message r s]"
  by simp

section \<open>What the projection gives\<close>

lemma result_message_shape:
  "result_message f run_id n a = Inr m \<Longrightarrow>
   aa_result a \<noteq> None \<and> mm_role m = Role_Action \<and> mm_calls m = [] \<and> mm_call_id m = aa_action_id a"
  by (auto simp: result_message_def split: option.splits sum.splits)

lemma result_messages_shape:
  "result_messages f run_id n as = Inr ms \<Longrightarrow>
   list_all (\<lambda>m. mm_role m = Role_Action \<and> mm_calls m = []) ms \<and> map mm_call_id ms = map aa_action_id as"
  by (induction as arbitrary: ms) (auto simp: result_simps dest!: result_message_shape)

lemma answered_conversation:
  "list_all (\<lambda>m. mm_role m = Role_Action \<and> mm_calls m = []) ms \<Longrightarrow> map mm_call_id ms = pending \<Longrightarrow>
   conversation pending ms"
  by (induction pending ms rule: conversation.induct) auto

lemma project_proposal_closed:
  assumes "project_proposal f message_id run_id p = Inr u"
  shows "unit_closed u \<and> cu_kind u = Unit_Agent_Step \<and> cu_run_id u = run_id \<and> cu_decision_no u = apr_decision_no p"
proof -
  from assms obtain ms where ms: "result_messages f run_id (apr_decision_no p) (apr_actions p) = Inr ms"
    and u: "u = \<lparr>cu_kind = Unit_Agent_Step, cu_message_id = message_id, cu_run_id = run_id,
                 cu_decision_no = apr_decision_no p, cu_messages = proposal_message p # ms\<rparr>"
    by (auto simp: project_proposal_def result_simps split: option.splits)
  have "conversation (map aa_action_id (apr_actions p)) ms"
    using result_messages_shape [OF ms] by (intro answered_conversation) simp_all
  moreover have "\<forall>m \<in> set ms. mm_role m = Role_Action"
    using result_messages_shape [OF ms] by (simp add: list_all_iff)
  ultimately show ?thesis by (simp add: u unit_closed_def proposal_message_def comp_def)
qed

lemma project_proposal_lane: "project_proposal f message_id run_id p = Inr u \<Longrightarrow> lane_unit u"
  by (auto simp: lane_unit_def dest: project_proposal_closed)

text \<open>A property of single units that all units of a projection have.\<close>

lemma project_steps_all:
  assumes "project_steps f message_id run_id st ps = Inr us"
    and "\<And>p u. p \<in> set ps \<Longrightarrow> project_proposal f message_id run_id p = Inr u \<Longrightarrow> P u"
    and "\<And>s. s \<in> set st \<Longrightarrow> P (steering_context_unit run_id s)"
  shows "list_all P us"
  using assms
proof (induction ps arbitrary: st us)
  case Nil
  then show ?case by (auto simp: list_all_iff)
next
  case (Cons p ps)
  let ?due = "\<lambda>s. as_decision_no s \<le> apr_decision_no p"
  from Cons.prems(1) obtain u vs where u: "project_proposal f message_id run_id p = Inr u"
    and vs: "project_steps f message_id run_id (dropWhile ?due st) ps = Inr vs"
    and us: "us = map (steering_context_unit run_id) (takeWhile ?due st) @ u # vs"
    by (auto simp: result_simps Let_def)
  have "list_all P vs"
    using Cons.prems by (intro Cons.IH [OF vs]) (auto dest: set_dropWhileD)
  moreover have "P u" using Cons.prems(2) [OF _ u] by simp
  ultimately show ?case using Cons.prems(3) by (auto simp: us list_all_iff dest: set_takeWhileD)
qed

lemma steering_unit_closed [simp]: "lane_unit (steering_context_unit run_id s)"
  by (simp add: lane_unit_def unit_closed_def steering_context_unit_def steering_context_message_def)

lemma final_units_closed: "list_all lane_unit (final_units message_id r p)"
  by (simp add: final_units_def lane_unit_def unit_closed_def split: option.split)

lemma project_run_closed:
  assumes "project_run f message_id r = Inr us"
  shows "list_all lane_unit us"
proof -
  from assms obtain p vs where vs: "project_steps f message_id (lr_run_id r) (cx_steering p) (cx_proposals p) = Inr vs"
    and us: "us = vs @ final_units message_id r p"
    by (auto simp: project_run_def result_simps)
  have "list_all lane_unit vs"
    using vs by (rule project_steps_all) (auto intro: project_proposal_lane)
  then show ?thesis by (simp add: us final_units_closed)
qed

lemma project_runs_closed: "project_runs f message_id seen rs = Inr (seen', us) \<Longrightarrow> list_all lane_unit us"
  by (induction rs arbitrary: seen us) (auto simp: result_simps split: if_splits dest!: project_run_closed)

definition user_unit :: "lane_turn \<Rightarrow> context_unit" where
  "user_unit t = \<lparr>cu_kind = Unit_User_Message, cu_message_id = lt_message_id t, cu_run_id = [], cu_decision_no = 0,
     cu_messages = [plain_message Role_User (lt_content t)]\<rparr>"

lemma project_turns_Cons:
  "project_turns f sm sr (t # ts) = Inr us \<longleftrightarrow>
     \<not> blank (lt_message_id t) \<and> \<not> blank (lt_content t) \<and> lt_message_id t \<notin> set sm
     \<and> (\<exists>sr' vs ws. project_runs f (lt_message_id t) sr (lt_runs t) = Inr (sr', vs)
          \<and> project_turns f (lt_message_id t # sm) sr' ts = Inr ws \<and> us = user_unit t # vs @ ws)"
  by (auto simp: result_simps user_unit_def)

declare project_turns.simps(2) [simp del]

lemma project_turns_closed: "project_turns f sm sr ts = Inr us \<Longrightarrow> list_all lane_unit us"
  by (induction ts arbitrary: sm sr us)
    (auto simp: project_turns_Cons lane_unit_def unit_closed_def user_unit_def dest!: project_runs_closed)

section \<open>The order of the user messages\<close>

definition is_user_turn :: "context_unit \<Rightarrow> bool" where
  "is_user_turn u \<longleftrightarrow> cu_kind u = Unit_User_Message \<and> cu_run_id u = []"

lemma project_run_units:
  assumes "project_run f message_id r = Inr us"
  shows "list_all (\<lambda>u. cu_run_id u = lr_run_id r) us"
proof -
  from assms obtain p vs where vs: "project_steps f message_id (lr_run_id r) (cx_steering p) (cx_proposals p) = Inr vs"
    and us: "us = vs @ final_units message_id r p"
    by (auto simp: project_run_def result_simps)
  have "list_all (\<lambda>u. cu_run_id u = lr_run_id r) vs"
    using vs by (rule project_steps_all) (auto dest: project_proposal_closed simp: steering_context_unit_def)
  then show ?thesis by (simp add: us final_units_def split: option.split)
qed

lemma project_runs_no_turn: "project_runs f message_id seen rs = Inr (seen', us) \<Longrightarrow> filter is_user_turn us = []"
proof (induction rs arbitrary: seen us)
  case (Cons r rs)
  then obtain vs ws where r: "\<not> blank (lr_run_id r)" "project_run f message_id r = Inr vs"
    and ws: "project_runs f message_id (lr_run_id r # seen) rs = Inr (seen', ws)" and us: "us = vs @ ws"
    by (auto simp: result_simps split: if_splits)
  have "filter is_user_turn vs = []"
    using project_run_units [OF r(2)] not_blank_nonempty [OF r(1)]
    by (auto simp: filter_empty_conv list_all_iff is_user_turn_def)
  with Cons.IH [OF ws] show ?case by (simp add: us)
qed simp

lemma user_unit_turn [simp]: "is_user_turn (user_unit t)"
  by (simp add: is_user_turn_def user_unit_def)

lemma project_turns_order: "project_turns f sm sr ts = Inr us \<Longrightarrow> filter is_user_turn us = map user_unit ts"
  by (induction ts arbitrary: sm sr us) (auto simp: project_turns_Cons dest: project_runs_no_turn)

section \<open>When the projection succeeds\<close>

definition steps_complete :: "checkpoint_prefix \<Rightarrow> bool" where
  "steps_complete p \<longleftrightarrow> list_all proposal_complete (cx_proposals p)"

definition run_projects :: "lane_run \<Rightarrow> bool" where
  "run_projects r \<longleftrightarrow> (\<exists>p. run_prefix r = Inr p \<and> steps_complete p)"

definition prefixes_wf :: "lane_turn list \<Rightarrow> bool" where
  "prefixes_wf turns \<longleftrightarrow>
     (\<forall>t \<in> set turns. \<forall>r \<in> set (lt_runs t). \<forall>p. lr_prefix r = Some p \<longrightarrow> prefix_wf p)"

lemma new_result_accepted:
  assumes "1 \<le> n" and "action_wf n i a" and "aa_result a = Some r"
  shows "\<exists>c j. new_action_result_checkpoint n (aa_index a) (aa_action_id a) r = Inr c \<and> pc_payload c = Raw j"
proof -
  from assms have ok: "action_result_ok r" and id: "aa_index a = int i" "aa_action_id a = action_key n (int i)"
    by (auto simp: action_wf_def)
  have "\<exists>ms. ar_output r = Raw (JObj ms)" if "ar_status r = action_succeeded"
    using ok that by (auto simp: action_result_ok_def elim!: is_object.elims)
  with assms(1) ok id show ?thesis
    by (cases "ar_status r = action_succeeded") (auto simp: new_action_result_checkpoint_def Let_def)
qed

lemma result_message_total:
  assumes "1 \<le> n" and "action_wf n i a"
  shows "(\<exists>m. result_message None run_id n a = Inr m) \<longleftrightarrow> action_complete a"
proof (cases "aa_result a")
  case (Some r)
  from new_result_accepted [OF assms Some] Some show ?thesis by (auto simp: result_message_def action_complete_def)
qed (simp add: result_message_def action_complete_def)

lemma result_messages_total:
  assumes "1 \<le> n" and "\<forall>a \<in> set as. \<exists>i. action_wf n i a"
  shows "(\<exists>ms. result_messages None run_id n as = Inr ms) \<longleftrightarrow> list_all action_complete as"
  using assms(2)
proof (induction as)
  case (Cons a as)
  then obtain i where "action_wf n i a" by auto
  from result_message_total [OF assms(1) this] Cons show ?case by (auto simp: result_simps)
qed simp

lemma project_proposal_total:
  assumes "proposal_wf p"
  shows "(\<exists>u. project_proposal None message_id run_id p = Inr u) \<longleftrightarrow> proposal_complete p"
proof -
  have "\<forall>a \<in> set (apr_actions p). \<exists>i. action_wf (apr_decision_no p) i a"
    using assms by (metis proposal_wf_def in_set_conv_nth)
  then have ms: "(\<exists>ms. result_messages None run_id (apr_decision_no p) (apr_actions p) = Inr ms) \<longleftrightarrow> proposal_complete p"
    using assms by (subst result_messages_total) (simp_all add: proposal_wf_def proposal_complete_def)
  have find: "find (\<lambda>a. aa_result a = None) (apr_actions p) = None \<longleftrightarrow> proposal_complete p"
    by (auto simp: find_None_iff proposal_complete_def action_complete_def list_all_iff)
  with ms show ?thesis
    by (cases "find (\<lambda>a. aa_result a = None) (apr_actions p)") (auto simp: project_proposal_def result_simps)
qed

lemma project_steps_total:
  "list_all proposal_wf ps \<Longrightarrow>
   (\<exists>us. project_steps None message_id run_id st ps = Inr us) \<longleftrightarrow> list_all proposal_complete ps"
proof (induction ps arbitrary: st)
  case (Cons p ps)
  then have wf: "proposal_wf p" and rest: "list_all proposal_wf ps" by simp_all
  show ?case
    using project_proposal_total [OF wf, of message_id run_id] Cons.IH [OF rest] by (auto simp: result_simps Let_def)
qed simp

lemma run_prefix_wf:
  assumes "run_prefix r = Inr p" and "\<And>q. lr_prefix r = Some q \<Longrightarrow> prefix_wf q"
  shows "prefix_wf p"
  using assms load_run_inv by (auto simp: run_prefix_def load_prefix_state load_inv_def split: option.splits sum.splits)

lemma project_run_total:
  assumes "\<And>q. lr_prefix r = Some q \<Longrightarrow> prefix_wf q"
  shows "(\<exists>us. project_run None message_id r = Inr us) \<longleftrightarrow> run_projects r"
proof (cases "run_prefix r")
  case (Inr p)
  then have "list_all proposal_wf (cx_proposals p)" using run_prefix_wf assms by (auto simp: prefix_wf_def)
  from project_steps_total [OF this] Inr show ?thesis
    by (auto simp: project_run_def run_projects_def steps_complete_def result_simps)
qed (simp add: project_run_def run_projects_def)

definition fresh :: "gostring list \<Rightarrow> gostring list \<Rightarrow> bool" where
  "fresh seen ids \<longleftrightarrow> distinct ids \<and> set ids \<inter> set seen = {} \<and> (\<forall>k \<in> set ids. \<not> blank k)"

lemma fresh_simps [simp]:
  "fresh seen []"
  "fresh seen (k # ks) \<longleftrightarrow> \<not> blank k \<and> k \<notin> set seen \<and> fresh (k # seen) ks"
  by (auto simp: fresh_def)

lemma fresh_append: "fresh seen (xs @ ys) \<longleftrightarrow> fresh seen xs \<and> fresh (rev xs @ seen) ys"
  by (auto simp: fresh_def)

lemma project_runs_total:
  assumes "\<And>r p. r \<in> set rs \<Longrightarrow> lr_prefix r = Some p \<Longrightarrow> prefix_wf p"
  shows "(\<exists>us. project_runs None message_id seen rs = Inr (seen', us)) \<longleftrightarrow>
    fresh seen (map lr_run_id rs) \<and> list_all run_projects rs \<and> seen' = rev (map lr_run_id rs) @ seen"
  using assms
proof (induction rs arbitrary: seen)
  case (Cons r rs)
  have IH: "(\<exists>us. project_runs None message_id (lr_run_id r # seen) rs = Inr (seen', us)) \<longleftrightarrow>
    fresh (lr_run_id r # seen) (map lr_run_id rs) \<and> list_all run_projects rs
    \<and> seen' = rev (map lr_run_id (r # rs)) @ seen"
    by (subst Cons.IH) (auto intro: Cons.prems)
  have r: "(\<exists>us. project_run None message_id r = Inr us) \<longleftrightarrow> run_projects r"
    using Cons.prems [of r] by (intro project_run_total) simp_all
  have "(\<exists>us. project_runs None message_id seen (r # rs) = Inr (seen', us)) \<longleftrightarrow>
    \<not> blank (lr_run_id r) \<and> lr_run_id r \<notin> set seen \<and> (\<exists>us. project_run None message_id r = Inr us)
    \<and> (\<exists>us. project_runs None message_id (lr_run_id r # seen) rs = Inr (seen', us))"
    by (auto simp: result_simps)
  then show ?case unfolding IH r by auto
qed auto

lemma project_turns_total:
  assumes "prefixes_wf ts"
  shows "(\<exists>us. project_turns None sm sr ts = Inr us) \<longleftrightarrow>
    fresh sm (map lt_message_id ts) \<and> (\<forall>t \<in> set ts. \<not> blank (lt_content t))
    \<and> fresh sr (concat (map (\<lambda>t. map lr_run_id (lt_runs t)) ts))
    \<and> (\<forall>t \<in> set ts. list_all run_projects (lt_runs t))"
  using assms
proof (induction ts arbitrary: sm sr)
  case (Cons t ts)
  let ?sr = "rev (map lr_run_id (lt_runs t)) @ sr"
  have wf: "prefixes_wf ts" using Cons.prems by (simp add: prefixes_wf_def)
  have runs: "(\<exists>us. project_runs None (lt_message_id t) sr (lt_runs t) = Inr (sr', us)) \<longleftrightarrow>
    fresh sr (map lr_run_id (lt_runs t)) \<and> list_all run_projects (lt_runs t) \<and> sr' = ?sr" for sr'
    using Cons.prems by (intro project_runs_total) (auto simp: prefixes_wf_def)
  have "(\<exists>us. project_turns None sm sr (t # ts) = Inr us) \<longleftrightarrow>
    \<not> blank (lt_message_id t) \<and> \<not> blank (lt_content t) \<and> lt_message_id t \<notin> set sm
    \<and> (\<exists>sr'. (\<exists>us. project_runs None (lt_message_id t) sr (lt_runs t) = Inr (sr', us))
        \<and> (\<exists>us. project_turns None (lt_message_id t # sm) sr' ts = Inr us))"
    by (auto simp: project_turns_Cons)
  then show ?case unfolding runs Cons.IH [OF wf] by (auto simp: fresh_append)
qed auto

section \<open>Properties\<close>

text \<open>
  C13: what the model is shown of a Chat is causally complete. Whatever the projector of historical
  results gives, every unit of a projection is a closed exchange (each proposal is followed by exactly
  the results of its Actions, in order), so the flattened messages are a conversation a provider
  accepts, and the user messages appear once each, unchanged and in their order.
\<close>

theorem projected_lane_is_causal:
  assumes "project_chat_lane f turns = Inr us"
  shows "list_all unit_closed us \<and> conversation [] (flatten_context_units us)
    \<and> filter is_user_turn us = map user_unit turns"
proof -
  have "list_all lane_unit us" and order: "filter is_user_turn us = map user_unit turns"
    using assms project_turns_closed project_turns_order unfolding project_chat_lane_def by blast+
  then have "list_all unit_closed us" by (simp add: lane_unit_def list_all_iff)
  with closed_units_conversation order show ?thesis by blast
qed

text \<open>
  the projection of a lane fails only for a reason in the lane. Given prefixes being well formed,
  it succeeds exactly when the user messages are distinct and not blank, the Run identities are
  distinct and not blank, and every Run's checkpoints load to a prefix all of whose proposals have
  all their results.
\<close>

lemma lane_projects_iff:
  assumes "prefixes_wf turns"
  shows "(\<exists>us. project_chat_lane None turns = Inr us) \<longleftrightarrow>
    distinct (map lt_message_id turns) \<and> (\<forall>t \<in> set turns. \<not> blank (lt_message_id t) \<and> \<not> blank (lt_content t))
    \<and> distinct (concat (map (\<lambda>t. map lr_run_id (lt_runs t)) turns))
    \<and> (\<forall>t \<in> set turns. \<forall>r \<in> set (lt_runs t). \<not> blank (lr_run_id r) \<and> run_projects r)"
  unfolding project_chat_lane_def project_turns_total [OF assms] by (auto simp: fresh_def list_all_iff)

definition sample_lane :: "lane_turn list" where
  "sample_lane = [\<lparr>lt_message_id = ''m'', lt_content = ''hello'',
     lt_runs = [\<lparr>lr_run_id = ''r'', lr_checkpoints = [], lr_prefix = None, lr_published = ''answer''\<rparr>]\<rparr>]"

lemma sample_lane_ok: "prefixes_wf sample_lane"
  "\<not> blank ''m''" "\<not> blank ''r''" "\<not> blank ''hello''" "\<not> blank ''answer''"
  by (auto simp: prefixes_wf_def sample_lane_def intro!: not_blank_letter)

lemma sample_lane_runs: "run_projects \<lparr>lr_run_id = ''r'', lr_checkpoints = [], lr_prefix = None, lr_published = ''answer''\<rparr>"
  by (simp add: run_projects_def run_prefix_def empty_prefix_loads steps_complete_def empty_prefix_def)

theorem projected_lane_is_causal_witness:
  "\<exists>us. project_chat_lane None sample_lane = Inr us \<and> conversation [] (flatten_context_units us)"
proof -
  have "project_chat_lane None sample_lane = Inr
    [user_unit (hd sample_lane),
     \<lparr>cu_kind = Unit_Agent_Step, cu_message_id = ''m'', cu_run_id = ''r'', cu_decision_no = 0,
      cu_messages = [plain_message Role_Assistant ''answer'']\<rparr>]"
    using sample_lane_ok
    by (simp add: project_chat_lane_def sample_lane_def project_turns_Cons project_run_def run_prefix_def
        empty_prefix_loads empty_prefix_def final_units_def)
  with projected_lane_is_causal show ?thesis by blast
qed

end
