(* ===== verification/Compaction.thy ===== *)
theory Compaction
  imports Chat_Lane "HOL-Library.Multiset"
begin

text \<open>
  Compaction of a Chat's context (\<open>internal/agent/compaction.go\<close>): where the exact suffix of the units
  may begin, and what replaces the units before it. Positions are natural numbers; the index \<open>-1\<close> of
  the code is \<open>None\<close>.
\<close>

section \<open>Keys and tokens of units\<close>

definition context_unit_key :: "context_unit \<Rightarrow> gostring" where
  "context_unit_key u =
     (case cu_kind u of
        Unit_User_Message \<Rightarrow> ''message:'' @ cu_message_id u
      | Unit_Agent_Step \<Rightarrow> ''run:'' @ cu_run_id u @ ''/decision:'' @ itoa (cu_decision_no u)
      | Unit_Compaction_Summary \<Rightarrow> [])"

text \<open>\<open>json:"-"\<close> leaves the calls of a message out of its encoding.\<close>

definition model_message_json :: "model_message \<Rightarrow> json" where
  "model_message_json m =
     JObj [(''role'', marshal_string (role_text (mm_role m))), (''content'', marshal_string (content_text (mm_content m)))]"

definition estimate_context_unit_tokens :: "context_unit \<Rightarrow> int" where
  "estimate_context_unit_tokens u =
     max 1 ((int (rune_count (json_text (JArr (map model_message_json (cu_messages u))))) + 3) div 4)"

section \<open>Selecting the cut\<close>

text \<open>The units that are left, from the tail; the position of a unit is the number of units before it.\<close>

fun cut_loop :: "int \<Rightarrow> int \<Rightarrow> nat \<Rightarrow> context_unit list \<Rightarrow> nat" where
  "cut_loop keep tokens at [] = at"
| "cut_loop keep tokens at (u # us) =
     (let t = estimate_context_unit_tokens u in
      if tokens > 0 \<and> tokens + t > keep then at
      else if tokens + t \<ge> keep then length us
      else cut_loop keep (tokens + t) (length us) us)"

datatype budget_error = Context_Budget_Exceeded

definition select_compaction_cut :: "context_unit list \<Rightarrow> int \<Rightarrow> (budget_error, nat) result" where
  "select_compaction_cut us keep =
     (if length us < 2 \<or> keep < 1 then Inl Context_Budget_Exceeded
      else
        let at = cut_loop keep 0 (length us) (rev us) in
        if at \<le> 0 \<or> at \<ge> length us then Inl Context_Budget_Exceeded else Inr at)"

section \<open>Applying a compaction\<close>

record context_compaction =
  co_id :: gostring
  co_predecessor_id :: gostring
  co_summary :: gostring
  co_summarized_through :: gostring
  co_suffix_start :: gostring
  co_trigger_reason :: gostring
  co_before_tokens :: int
  co_after_tokens :: int

text \<open>\<open>strings.ReplaceAll\<close> with a nonempty pattern.\<close>

function replace_all :: "gostring \<Rightarrow> gostring \<Rightarrow> gostring \<Rightarrow> gostring" where
  "replace_all old new [] = []"
| "replace_all old new (c # s) =
     (if old \<noteq> [] \<and> prefix old (c # s) then new @ replace_all old new (drop (length old) (c # s))
      else c # replace_all old new s)"
  by pat_completeness auto
termination
  by (relation "measure (\<lambda>(_, _, s). length s)") auto

declare replace_all.simps(2) [simp del]

definition open_tag :: gostring where "open_tag = ''<summary>''"
definition close_tag :: gostring where "close_tag = ''</summary>''"

definition escape_summary :: "gostring \<Rightarrow> gostring" where
  "escape_summary s = replace_all close_tag ''&lt;/summary&gt;'' s"

definition summary_unit :: "gostring \<Rightarrow> context_unit" where
  "summary_unit body =
     \<lparr>cu_kind = Unit_Compaction_Summary, cu_message_id = [], cu_run_id = [], cu_decision_no = 0,
      cu_messages = [plain_message Role_User (open_tag @ body @ close_tag)]\<rparr>"

text \<open>The loop over the units keeps the last position with a key; \<open>contextUnitIndex\<close> stops at the first.\<close>

definition last_position :: "gostring \<Rightarrow> context_unit list \<Rightarrow> nat option" where
  "last_position k us = find (\<lambda>i. context_unit_key (us ! i) = k) (rev [0..<length us])"

definition context_unit_index :: "context_unit list \<Rightarrow> gostring \<Rightarrow> nat option" where
  "context_unit_index us k = find (\<lambda>i. context_unit_key (us ! i) = k) [0..<length us]"

definition apply_context_compaction ::
  "context_unit list \<Rightarrow> context_compaction \<Rightarrow> (projection_error, context_unit list) result" where
  "apply_context_compaction us c =
     (if blank (co_summary c) \<or> co_suffix_start c = [] \<or> co_summarized_through c = []
      then Inl Invalid_Compaction_Boundary
      else (case (last_position (co_suffix_start c) us, last_position (co_summarized_through c) us) of
          (Some i, Some j) \<Rightarrow>
            if i < 1 \<or> int j \<noteq> int i - 1 then Inl Boundary_Not_In_Lane
            else Inr (summary_unit (escape_summary (trim_space (co_summary c))) # drop i us)
        | _ \<Rightarrow> Inl Boundary_Not_In_Lane))"

section \<open>The cut\<close>

definition suffix_tokens :: "context_unit list \<Rightarrow> int" where
  "suffix_tokens us = sum_list (map estimate_context_unit_tokens us)"

lemma suffix_tokens_simps [simp]:
  "suffix_tokens [] = 0" "suffix_tokens (u # us) = estimate_context_unit_tokens u + suffix_tokens us"
  "suffix_tokens (us @ vs) = suffix_tokens us + suffix_tokens vs"
  by (simp_all add: suffix_tokens_def)

lemma tokens_pos [simp]: "1 \<le> estimate_context_unit_tokens u" "0 < estimate_context_unit_tokens u"
  by (simp_all add: estimate_context_unit_tokens_def)

lemma suffix_tokens_nonneg [simp]: "0 \<le> suffix_tokens us"
  by (induction us) (auto intro!: add_nonneg_nonneg less_imp_le [OF tokens_pos(2)])

lemma suffix_tokens_pos: "0 < suffix_tokens us \<longleftrightarrow> us \<noteq> []"
  by (cases us) (auto intro: add_pos_nonneg)

lemma suffix_tokens_drop: "i \<le> j \<Longrightarrow> suffix_tokens (drop j us) \<le> suffix_tokens (drop i us)"
proof -
  assume "i \<le> j"
  then have "drop i us = take (j - i) (drop i us) @ drop j us"
    by (metis append_take_drop_id drop_drop le_add_diff_inverse2)
  then show ?thesis by (metis suffix_tokens_simps(3) suffix_tokens_nonneg le_add_same_cancel2)
qed

definition good_cut :: "int \<Rightarrow> context_unit list \<Rightarrow> nat \<Rightarrow> bool" where
  "good_cut keep us at \<longleftrightarrow>
     at < length us \<and> (suffix_tokens (drop at us) \<le> keep \<or> Suc at = length us)
     \<and> (\<forall>j < at. keep < suffix_tokens (drop j us))"

lemma cut_loop_good:
  assumes "vs = [] \<or> suffix_tokens vs < keep" and "us @ vs \<noteq> []"
  shows "good_cut keep (us @ vs) (cut_loop keep (suffix_tokens vs) (length us) (rev us))"
  using assms
proof (induction us arbitrary: vs rule: rev_induct)
  case Nil
  then show ?case by (auto simp: good_cut_def)
next
  case (snoc u us)
  let ?t = "estimate_context_unit_tokens u"
  have above: "keep < suffix_tokens (drop j (us @ u # vs))"
    if "j < length us" "keep \<le> suffix_tokens (u # vs)" for j
  proof -
    have "suffix_tokens (drop j (us @ u # vs)) = suffix_tokens (drop j us) + suffix_tokens (u # vs)"
      using that(1) by simp
    moreover have "0 < suffix_tokens (drop j us)" using that(1) by (simp add: suffix_tokens_pos)
    ultimately show ?thesis using that(2) by linarith
  qed
  consider (stop) "0 < suffix_tokens vs" "keep < suffix_tokens vs + ?t"
    | (full) "\<not> (0 < suffix_tokens vs \<and> keep < suffix_tokens vs + ?t)" "keep \<le> suffix_tokens vs + ?t"
    | (more) "suffix_tokens vs + ?t < keep"
    by linarith
  then show ?case
  proof cases
    case stop
    then have "vs \<noteq> []" by auto
    moreover have "keep < suffix_tokens (drop j (us @ u # vs))" if "j < Suc (length us)" for j
      using stop that above [of j] by (cases "j = length us") auto
    ultimately show ?thesis using stop snoc.prems by (auto simp: good_cut_def Let_def)
  next
    case full
    then have "suffix_tokens vs + ?t \<le> keep \<or> vs = []" using suffix_tokens_pos [of vs] by auto
    with full above show ?thesis by (auto simp: good_cut_def Let_def add.commute)
  next
    case more
    then have "good_cut keep (us @ (u # vs)) (cut_loop keep (suffix_tokens (u # vs)) (length us) (rev us))"
      by (intro snoc.IH) auto
    with more show ?thesis by (simp add: Let_def add.commute)
  qed
qed

lemma good_cut_unique: "good_cut keep us c \<Longrightarrow> good_cut keep us d \<Longrightarrow> c = d"
proof (rule ccontr)
  assume c: "good_cut keep us c" and d: "good_cut keep us d" and "c \<noteq> d"
  then consider "c < d" | "d < c" by linarith
  then show False
  proof cases
    case 1
    with d have "keep < suffix_tokens (drop c us)" by (simp add: good_cut_def)
    with c 1 d show False by (auto simp: good_cut_def)
  next
    case 2
    with c have "keep < suffix_tokens (drop d us)" by (simp add: good_cut_def)
    with c 2 d show False by (auto simp: good_cut_def)
  qed
qed

lemma selected_cut_iff:
  "select_compaction_cut us keep = Inr at \<longleftrightarrow> 2 \<le> length us \<and> 1 \<le> keep \<and> 0 < at \<and> good_cut keep us at"
proof (cases "length us < 2 \<or> keep < 1")
  case False
  then have "us \<noteq> []" by auto
  with cut_loop_good [of "[]" keep us] have "good_cut keep us (cut_loop keep 0 (length us) (rev us))" by simp
  with False good_cut_unique show ?thesis
    by (auto simp: select_compaction_cut_def Let_def good_cut_def)
qed (auto simp: select_compaction_cut_def)


section \<open>The keys of a projected lane\<close>

lemma digits_end_unique:
  assumes "xs @ ''/decision:'' @ itoa m = ys @ ''/decision:'' @ itoa n"
  shows "xs = ys \<and> m = n"
proof -
  let ?colon = "\<lambda>c. c \<noteq> CHR '':''"
  have end_part: "takeWhile ?colon (rev (zs @ ''/decision:'' @ itoa k)) = rev (itoa k)" for zs k
  proof -
    have "?colon c" if c: "c \<in> set (itoa k)" for c
    proof -
      have "c = CHR ''-'' \<or> (\<exists>d<10. c = digit d)"
        using c itoa_nat_digits by (auto simp: itoa_def split: if_splits)
      moreover have "byte (CHR '':'') = 58" by (simp add: byte_def)
      ultimately show ?thesis using byte_digit by force
    qed
    then have "takeWhile ?colon (rev (itoa k) @ rev (zs @ ''/decision:'')) = rev (itoa k) @ takeWhile ?colon (rev (zs @ ''/decision:''))"
      by (intro takeWhile_append2) simp
    then show ?thesis by simp
  qed
  from assms have "rev (itoa m) = rev (itoa n)" using end_part by metis
  then have "m = n" by simp
  with assms show ?thesis by simp
qed

text \<open>What a key stands for.\<close>

definition unit_label :: "context_unit \<Rightarrow> gostring + gostring \<times> int" where
  "unit_label u = (if cu_kind u = Unit_User_Message then Inl (cu_message_id u) else Inr (cu_run_id u, cu_decision_no u))"

lemma key_of_label:
  assumes "cu_kind u \<noteq> Unit_Compaction_Summary" and "cu_kind v \<noteq> Unit_Compaction_Summary"
  shows "context_unit_key u = context_unit_key v \<longleftrightarrow> unit_label u = unit_label v"
  using assms
  by (cases "cu_kind u"; cases "cu_kind v") (auto simp: context_unit_key_def unit_label_def dest!: digits_end_unique [simplified])

definition run_steering :: "lane_run \<Rightarrow> gostring list" where
  "run_steering r = (case run_prefix r of Inr p \<Rightarrow> map as_message_id (cx_steering p) | Inl _ \<Rightarrow> [])"

definition run_decisions :: "lane_run \<Rightarrow> int list" where
  "run_decisions r = (case run_prefix r of
     Inr p \<Rightarrow> map apr_decision_no (cx_proposals p) @ map cu_decision_no (final_units [] r p)
   | Inl _ \<Rightarrow> [])"

definition run_labels :: "lane_run \<Rightarrow> (gostring + gostring \<times> int) list" where
  "run_labels r = map Inl (run_steering r) @ map (\<lambda>n. Inr (lr_run_id r, n)) (run_decisions r)"

lemma steering_label [simp]: "unit_label (steering_context_unit run_id s) = Inl (as_message_id s)"
  by (simp add: unit_label_def steering_context_unit_def)

lemma project_steps_labels:
  "project_steps f message_id run_id st ps = Inr us \<Longrightarrow>
   mset (map unit_label us) = mset (map (Inl \<circ> as_message_id) st) + mset (map (\<lambda>p. Inr (run_id, apr_decision_no p)) ps)"
proof (induction ps arbitrary: st us)
  case Nil
  then show ?case by (auto simp: multiset.map_comp comp_def)
next
  case (Cons p ps)
  let ?due = "\<lambda>s. as_decision_no s \<le> apr_decision_no p"
  from Cons.prems obtain u vs where u: "project_proposal f message_id run_id p = Inr u"
    and vs: "project_steps f message_id run_id (dropWhile ?due st) ps = Inr vs"
    and us: "us = map (steering_context_unit run_id) (takeWhile ?due st) @ u # vs"
    by (auto simp: result_simps Let_def)
  have "unit_label u = Inr (run_id, apr_decision_no p)"
    using project_proposal_closed [OF u] by (simp add: unit_label_def)
  moreover have "mset (map (Inl \<circ> as_message_id :: _ \<Rightarrow> gostring + gostring \<times> int) st)
    = mset (map (Inl \<circ> as_message_id) (takeWhile ?due st)) + mset (map (Inl \<circ> as_message_id) (dropWhile ?due st))"
    by (metis mset_append map_append takeWhile_dropWhile_id)
  ultimately show ?case using Cons.IH [OF vs] by (simp add: us comp_def)
qed

lemma final_labels:
  "map unit_label (final_units m r p) = map (\<lambda>n. Inr (lr_run_id r, n)) (map cu_decision_no (final_units [] r p))"
  by (simp add: final_units_def unit_label_def split: option.split)

lemma project_run_labels:
  assumes "project_run f message_id r = Inr us"
  shows "mset (map unit_label us) = mset (run_labels r)"
proof -
  from assms obtain p vs where p: "run_prefix r = Inr p"
    and vs: "project_steps f message_id (lr_run_id r) (cx_steering p) (cx_proposals p) = Inr vs"
    and us: "us = vs @ final_units message_id r p"
    by (auto simp: project_run_def result_simps)
  show ?thesis
    using project_steps_labels [OF vs] by (simp add: us p run_labels_def run_steering_def run_decisions_def final_labels comp_def)
qed

lemma project_runs_labels:
  "project_runs f message_id seen rs = Inr (seen', us) \<Longrightarrow>
   mset (map unit_label us) = mset (concat (map run_labels rs)) \<and> distinct (map lr_run_id rs)
   \<and> seen' = rev (map lr_run_id rs) @ seen \<and> set (map lr_run_id rs) \<inter> set seen = {}"
  by (induction rs arbitrary: seen us) (fastforce simp: result_simps dest!: project_run_labels split: if_splits)+

lemma project_turns_labels:
  "project_turns f sm sr ts = Inr us \<Longrightarrow>
   mset (map unit_label us) = mset (map (Inl \<circ> lt_message_id) ts) + mset (concat (map run_labels (concat (map lt_runs ts))))
   \<and> distinct (map lr_run_id (concat (map lt_runs ts))) \<and> set (map lr_run_id (concat (map lt_runs ts))) \<inter> set sr = {}"
proof (induction ts arbitrary: sm sr us)
  case (Cons t ts)
  then obtain sr' vs ws where vs: "project_runs f (lt_message_id t) sr (lt_runs t) = Inr (sr', vs)"
    and ws: "project_turns f (lt_message_id t # sm) sr' ts = Inr ws" and us: "us = user_unit t # vs @ ws"
    by (auto simp: project_turns_Cons)
  have "unit_label (user_unit t) = Inl (lt_message_id t)" by (simp add: unit_label_def user_unit_def)
  with project_runs_labels [OF vs] Cons.IH [OF ws] show ?case by (auto simp: us)
qed auto


lemma decisions_distinct:
  assumes "run_prefix r = Inr p" and "prefix_wf p"
  shows "distinct (run_decisions r)"
proof -
  have d: "map apr_decision_no (cx_proposals p) = map int [1..<Suc (length (cx_proposals p))]"
    and n: "cx_decisions p = int (length (cx_proposals p)) + (if cx_final p = None then 0 else 1)"
    using assms(2) by (simp_all add: prefix_wf_def)
  have m: "set (map cu_decision_no (final_units [] r p)) \<subseteq> {0, int (length (cx_proposals p)) + 1}"
    and "distinct (map cu_decision_no (final_units [] r p))"
    using n by (auto simp: final_units_def split: option.splits)
  moreover have "distinct (map int [1..<Suc (length (cx_proposals p))])" by (simp add: distinct_map)
  moreover have "set (map int [1..<Suc (length (cx_proposals p))]) \<inter> {0, int (length (cx_proposals p)) + 1} = {}" by auto
  ultimately show ?thesis unfolding run_decisions_def assms(1) by (auto simp: d simp del: upt_Suc)
qed

lemma all_label_lists:
  assumes "distinct (concat (map run_steering rs))" and "distinct (map lr_run_id rs)"
    and "\<And>r. r \<in> set rs \<Longrightarrow> distinct (run_decisions r)"
  shows "distinct (concat (map run_labels rs))
    \<and> (\<forall>k. Inl k \<in> set (concat (map run_labels rs)) \<longrightarrow> k \<in> set (concat (map run_steering rs)))
    \<and> (\<forall>q n. Inr (q, n) \<in> set (concat (map run_labels rs)) \<longrightarrow> q \<in> set (map lr_run_id rs))"
  using assms
proof (induction rs)
  case (Cons r rs)
  have "distinct (run_labels r)"
    using Cons.prems by (auto simp: run_labels_def distinct_map inj_on_def)
  moreover have "set (run_labels r) \<inter> set (concat (map run_labels rs)) = {}"
    using Cons by (fastforce simp: run_labels_def)
  ultimately show ?case using Cons by (auto simp: run_labels_def)
qed simp

definition lane_runs :: "lane_turn list \<Rightarrow> lane_run list" where
  "lane_runs ts = concat (map lt_runs ts)"

definition messages_distinct :: "lane_turn list \<Rightarrow> bool" where
  "messages_distinct ts \<longleftrightarrow> distinct (map lt_message_id ts @ concat (map run_steering (lane_runs ts)))"

lemma projected_runs_load:
  "project_runs f m seen rs = Inr (seen', us) \<Longrightarrow> r \<in> set rs \<Longrightarrow> \<exists>p. run_prefix r = Inr p"
  by (induction rs arbitrary: seen us) (auto simp: result_simps project_run_def split: if_splits)

lemma lane_runs_simps [simp]: "lane_runs [] = []" "lane_runs (t # ts) = lt_runs t @ lane_runs ts"
  by (simp_all add: lane_runs_def)

lemma projected_turns_load:
  "project_turns f sm sr ts = Inr us \<Longrightarrow> r \<in> set (lane_runs ts) \<Longrightarrow> \<exists>p. run_prefix r = Inr p"
proof (induction ts arbitrary: sm sr us)
  case (Cons t ts)
  then obtain sr' vs ws where vs: "project_runs f (lt_message_id t) sr (lt_runs t) = Inr (sr', vs)"
    and ws: "project_turns f (lt_message_id t # sm) sr' ts = Inr ws"
    by (auto simp: project_turns_Cons)
  from Cons.prems(2) projected_runs_load [OF vs] Cons.IH [OF ws] show ?case by auto
qed simp

lemma projected_kinds: "project_turns f sm sr ts = Inr us \<Longrightarrow> u \<in> set us \<Longrightarrow> cu_kind u \<noteq> Unit_Compaction_Summary"
  using project_turns_closed by (fastforce simp: list_all_iff lane_unit_def)

lemma lane_keys_distinct:
  assumes p: "project_chat_lane f ts = Inr us" and wf: "prefixes_wf ts" and m: "messages_distinct ts"
  shows "distinct (map context_unit_key us)"
proof -
  note p = p [unfolded project_chat_lane_def]
  let ?rs = "lane_runs ts"
  note l = project_turns_labels [OF p, folded lane_runs_def]
  have d: "distinct (run_decisions r)" if r: "r \<in> set ?rs" for r
  proof -
    obtain q where q: "run_prefix r = Inr q" using projected_turns_load [OF p r] by blast
    have "prefix_wf q" using r wf by (intro run_prefix_wf [OF q]) (auto simp: prefixes_wf_def lane_runs_def)
    with q show ?thesis by (rule decisions_distinct)
  qed
  have s: "distinct (concat (map run_steering ?rs))" and t: "distinct (map lt_message_id ts)"
    and st: "set (map lt_message_id ts) \<inter> set (concat (map run_steering ?rs)) = {}"
    using m by (auto simp: messages_distinct_def)
  note a = all_label_lists [OF s _ d]
  have "distinct (map (Inl \<circ> lt_message_id) ts @ concat (map run_labels ?rs))"
    using a l t st by (fastforce simp: distinct_map inj_on_def)
  then have "distinct (map unit_label us)" using l by (metis mset_append mset_eq_imp_distinct_iff)
  then have inj: "inj_on unit_label (set us)" and du: "distinct us" by (simp_all add: distinct_map)
  have "inj_on context_unit_key (set us)"
    using inj key_of_label projected_kinds [OF p] by (meson inj_on_def)
  with du show ?thesis by (simp add: distinct_map)
qed


section \<open>A summary cannot leave its tag\<close>

definition safe_close :: gostring where "safe_close = ''&lt;/summary&gt;''"

lemma close_tag_eq: "close_tag = CHR ''<'' # ''/summary>''" "CHR ''<'' \<notin> set ''/summary>''" "CHR ''&'' \<notin> set close_tag"
  by (simp_all add: close_tag_def)

lemma close_tag_nonempty [simp]: "close_tag \<noteq> []"
  by (simp add: close_tag_def)

lemma safe_close_eq: "safe_close = CHR ''&'' # ''lt;/summary&gt;''" "CHR ''<'' \<notin> set safe_close"
  by (simp_all add: safe_close_def)

lemma prefix_replaced:
  assumes "prefix q (replace_all close_tag safe_close s)" and "CHR ''&'' \<notin> set q"
  shows "prefix q s"
  using assms
proof (induction s arbitrary: q)
  case (Cons c s)
  show ?case
  proof (cases "prefix close_tag (c # s)")
    case True
    with Cons.prems show ?thesis
      by (cases q) (auto simp: replace_all.simps(2) close_tag_eq(1) safe_close_eq(1))
  next
    case False
    with Cons.prems Cons.IH show ?thesis
      by (cases q) (auto simp: replace_all.simps(2))
  qed
qed simp

lemma sublist_without_head: "CHR ''<'' \<notin> set xs \<Longrightarrow> sublist close_tag (xs @ ys) \<longleftrightarrow> sublist close_tag ys"
  by (induction xs) (auto simp: sublist_Cons_right close_tag_eq(1))

lemma replaced_has_no_tag: "\<not> sublist close_tag (replace_all close_tag safe_close s)"
proof (induction "length s" arbitrary: s rule: less_induct)
  case less
  show ?case
  proof (cases s)
    case Nil
    then show ?thesis by (simp add: close_tag_eq(1))
  next
    case (Cons c r)
    show ?thesis
    proof (cases "prefix close_tag s")
      case True
      have "\<not> sublist close_tag (replace_all close_tag safe_close (drop (length close_tag) s))"
        by (rule less) (simp add: Cons close_tag_nonempty)
      moreover have "replace_all close_tag safe_close s = safe_close @ replace_all close_tag safe_close (drop (length close_tag) s)"
        using True Cons by (simp add: replace_all.simps(2) close_tag_nonempty)
      ultimately show ?thesis by (simp add: sublist_without_head [OF safe_close_eq(2)])
    next
      case False
      then have "\<not> prefix close_tag (replace_all close_tag safe_close s)"
        using prefix_replaced close_tag_eq(3) by blast
      moreover have "\<not> sublist close_tag (replace_all close_tag safe_close r)"
        by (rule less) (simp add: Cons)
      ultimately show ?thesis using False Cons by (simp add: replace_all.simps(2) sublist_Cons_right)
    qed
  qed
qed

lemma tag_only_at_end:
  assumes "\<not> sublist close_tag body" and "body @ close_tag = ys @ close_tag @ zs"
  shows "zs = []"
proof (rule ccontr)
  assume "zs \<noteq> []"
  show False
  proof (cases "length body \<le> length ys")
    case True
    with arg_cong [OF assms(2), of length] \<open>zs \<noteq> []\<close> show False by simp
  next
    case False
    then obtain ws where body: "body = ys @ ws" "ws \<noteq> []"
      using assms(2) by (metis append_eq_append_conv_if append_eq_append_conv2 append_Nil2 nle_le)
    with assms(2) have "ws @ close_tag = close_tag @ zs" by simp
    moreover have "\<not> prefix close_tag ws" using assms(1) body by (auto simp: sublist_append)
    ultimately obtain vs where vs: "close_tag = ws @ vs" "vs \<noteq> []"
      by (metis append_eq_append_conv2 prefixI append_Nil2 prefix_order.refl)
    with \<open>ws @ close_tag = close_tag @ zs\<close> have "close_tag = vs @ zs" by (metis append_assoc same_append_eq)
    then have "prefix vs close_tag" by (rule prefixI)
    with vs(2) have "CHR ''<'' \<in> set vs" by (cases vs) (auto simp: close_tag_eq(1))
    moreover have "set vs \<subseteq> set (tl close_tag)" unfolding vs(1) using body(2) by (cases ws) auto
    ultimately show False using close_tag_eq(2) by (auto simp: close_tag_eq(1))
  qed
qed


section \<open>Applying a selected cut\<close>

lemma find_unique:
  assumes "i \<in> set xs" and "P i" and "\<And>j. j \<in> set xs \<Longrightarrow> P j \<Longrightarrow> j = i"
  shows "find P xs = Some i"
proof (cases "find P xs")
  case None
  with assms(1,2) show ?thesis by (simp add: find_None_iff)
next
  case (Some j)
  then have "j \<in> set xs" "P j" by (auto simp: find_Some_iff)
  with assms(3) Some show ?thesis by simp
qed

lemma key_position:
  assumes "distinct (map context_unit_key us)" and "i < length us"
  shows "last_position (context_unit_key (us ! i)) us = Some i"
    and "context_unit_index us (context_unit_key (us ! i)) = Some i"
  using assms unfolding last_position_def context_unit_index_def
  by (auto intro!: find_unique dest: distinct_nth_inj simp: distinct_conv_nth)

definition cut_compaction :: "context_unit list \<Rightarrow> nat \<Rightarrow> gostring \<Rightarrow> context_compaction \<Rightarrow> context_compaction" where
  "cut_compaction us at summary c =
     c\<lparr>co_summary := summary, co_summarized_through := context_unit_key (us ! (at - 1)),
       co_suffix_start := context_unit_key (us ! at)\<rparr>"

lemma cut_compaction_applies:
  assumes "distinct (map context_unit_key us)" and "\<forall>u \<in> set us. context_unit_key u \<noteq> []"
    and "0 < at" and "at < length us" and "\<not> blank summary"
  shows "apply_context_compaction us (cut_compaction us at summary c)
    = Inr (summary_unit (escape_summary (trim_space summary)) # drop at us)"
proof -
  have "last_position (context_unit_key (us ! at)) us = Some at"
    and "last_position (context_unit_key (us ! (at - 1))) us = Some (at - 1)"
    using assms by (simp_all add: key_position)
  moreover have "context_unit_key (us ! at) \<noteq> []" "context_unit_key (us ! (at - 1)) \<noteq> []"
    using assms(2-4) by auto
  ultimately show ?thesis using assms(3-5) by (auto simp: apply_context_compaction_def cut_compaction_def)
qed

lemma lane_keys_nonempty:
  assumes "project_chat_lane f ts = Inr us" and "u \<in> set us"
  shows "context_unit_key u \<noteq> []"
  using projected_kinds [OF assms(1) [unfolded project_chat_lane_def] assms(2)]
  by (cases "cu_kind u") (simp_all add: context_unit_key_def)

lemma apply_compaction_suffix:
  assumes "apply_context_compaction us c = Inr vs"
  shows "\<exists>i body. 0 < i \<and> i < length us \<and> vs = summary_unit body # drop i us \<and> \<not> sublist close_tag body
    \<and> co_suffix_start c = context_unit_key (us ! i) \<and> co_summarized_through c = context_unit_key (us ! (i - 1))"
proof -
  from assms obtain i j where i: "last_position (co_suffix_start c) us = Some i"
    and j: "last_position (co_summarized_through c) us = Some j" and ij: "1 \<le> i" "int j = int i - 1"
    and vs: "vs = summary_unit (escape_summary (trim_space (co_summary c))) # drop i us"
    by (auto simp: apply_context_compaction_def split: if_splits option.splits)
  have "i < length us" "context_unit_key (us ! i) = co_suffix_start c"
    and "context_unit_key (us ! j) = co_summarized_through c"
    using i j by (auto simp: last_position_def find_Some_iff rev_nth)
  moreover have "j = i - 1" using ij by simp
  moreover have "\<not> sublist close_tag (escape_summary s)" for s
    using replaced_has_no_tag [of s] by (simp add: escape_summary_def safe_close_def)
  ultimately show ?thesis using vs ij by (metis One_nat_def Suc_le_eq)
qed

lemma summary_closed [simp]: "unit_closed (summary_unit body)"
  by (simp add: unit_closed_def summary_unit_def)

section \<open>Properties\<close>


text \<open>
  a cut selected on a projected lane can always be applied. When the user messages and the
  delivered Steering Messages are distinct, the keys of the boundary are found at the cut and nowhere
  else, and the compaction replaces exactly the units before it by one summary; the result is still a
  conversation, and the text of the summary closes its tag only at its end.
\<close>

lemma selected_cut_applies:
  assumes "project_chat_lane f turns = Inr us" and "prefixes_wf turns" and "messages_distinct turns"
    and "select_compaction_cut us keep = Inr at" and "\<not> blank summary"
  shows "\<exists>body. apply_context_compaction us (cut_compaction us at summary c) = Inr (summary_unit body # drop at us)
    \<and> conversation [] (flatten_context_units (summary_unit body # drop at us))
    \<and> (\<forall>ys zs. body @ close_tag = ys @ close_tag @ zs \<longrightarrow> zs = [])"
proof -
  let ?body = "escape_summary (trim_space summary)"
  have "apply_context_compaction us (cut_compaction us at summary c) = Inr (summary_unit ?body # drop at us)"
    using assms lane_keys_distinct lane_keys_nonempty selected_cut_iff [of us keep at]
    by (intro cut_compaction_applies) (auto simp: good_cut_def)
  moreover have "list_all unit_closed us"
    using project_turns_closed assms(1) by (fastforce simp: project_chat_lane_def lane_unit_def list_all_iff)
  then have "conversation [] (flatten_context_units (summary_unit ?body # drop at us))"
    by (intro closed_units_conversation) (auto simp: list_all_iff dest: in_set_dropD)
  moreover have "\<not> sublist close_tag ?body"
    using replaced_has_no_tag by (simp add: escape_summary_def safe_close_def)
  ultimately show ?thesis using tag_only_at_end by blast
qed


definition no_compaction :: context_compaction where
  "no_compaction = \<lparr>co_id = [], co_predecessor_id = [], co_summary = [], co_summarized_through = [], co_suffix_start = [],
     co_trigger_reason = [], co_before_tokens = 0, co_after_tokens = 0\<rparr>"

end
