(* ===== verification/Go_Runes.thy ===== *)
theory Go_Runes
  imports Go_Strings
begin

text \<open>
  Go strings as sequences of runes: \<open>[]rune(s)\<close>, its prefixes, and the cut of a string at a byte
  position that does not split a rune. An ill-formed byte decodes to U+FFFD.
\<close>

section \<open>Runes\<close>

definition replacement_rune :: gostring where
  "replacement_rune = map char_of [239, 191, 189 :: nat]"

function runes :: "gostring \<Rightarrow> gostring list" where
  "runes [] = []"
| "runes (c # s) =
     (if byte c < 128 \<or> multi_width (c # s) \<noteq> None
      then take (rune_width (c # s)) (c # s) # runes (drop (rune_width (c # s)) (c # s))
      else replacement_rune # runes s)"
  by pat_completeness auto
termination
  by (relation "measure length") (auto simp: drop_Cons' rune_width_pos)

declare runes.simps(2) [simp del]

text \<open>\<open>string([]rune(s)[:n])\<close>.\<close>

definition first_runes :: "nat \<Rightarrow> gostring \<Rightarrow> gostring" where
  "first_runes n s = concat (take n (runes s))"

definition ellipsis :: gostring where
  "ellipsis = map char_of [226, 128, 166 :: nat]"

definition truncate_runes_with_ellipsis :: "gostring \<Rightarrow> int \<Rightarrow> gostring" where
  "truncate_runes_with_ellipsis s limit =
     (if limit < 1 \<or> int (rune_count s) \<le> limit then s else first_runes (nat limit) s @ ellipsis)"

lemma rune_width_invalid: "\<not> (byte c < 128 \<or> multi_width (c # s) \<noteq> None) \<Longrightarrow> rune_width (c # s) = 1"
  by (simp add: rune_width_def)

lemma length_runes: "length (runes s) = rune_count s"
proof (induction s rule: runes.induct)
  case (2 c s)
  then show ?case
    by (cases "byte c < 128 \<or> multi_width (c # s) \<noteq> None")
      (simp_all add: runes.simps(2) rune_count.simps(2) rune_width_invalid)
qed simp

lemma concat_runes: "utf8_valid s \<Longrightarrow> concat (runes s) = s"
proof (induction s rule: runes.induct)
  case (2 c s)
  then show ?case by (simp add: runes.simps(2) utf8_valid.simps(2))
qed simp

section \<open>Cutting between runes\<close>

lemma rune_width_le: "rune_width (c # s) \<le> 4 \<and> rune_width (c # s) \<le> length (c # s)"
proof (cases "multi_width (c # s)")
  case (Some n)
  moreover have "n \<le> 4" using Some
    by (auto simp: multi_width.simps(2) split: list.splits if_splits)
  ultimately show ?thesis using multi_width_pos [OF Some] by (simp add: rune_width_def)
qed (simp add: rune_width_def)

lemma rune_width_append:
  assumes "byte c < 128 \<or> multi_width (c # s) \<noteq> None"
  shows "rune_width (c # s @ t) = rune_width (c # s) \<and> (byte c < 128 \<or> multi_width (c # s @ t) \<noteq> None)"
proof (cases "byte c < 128")
  case True
  then have "multi_width (c # u) = None" for u using multi_width_high by fastforce
  with True show ?thesis by (simp add: rune_width_def)
next
  case False
  with assms obtain n where n: "multi_width (c # s) = Some n" by auto
  from multi_width_take [OF n, of "drop n (c # s) @ t"] have "multi_width (c # s @ t) = Some n"
    by (metis append_Cons append_assoc append_take_drop_id)
  with n show ?thesis by (simp add: rune_width_def)
qed

lemma utf8_valid_append: "utf8_valid s \<Longrightarrow> utf8_valid (s @ t) \<longleftrightarrow> utf8_valid t"
proof (induction s rule: utf8_valid.induct)
  case (2 c s)
  then have ok: "byte c < 128 \<or> multi_width (c # s) \<noteq> None"
    and rest: "utf8_valid (drop (rune_width (c # s)) (c # s))"
    by (simp_all add: utf8_valid.simps(2))
  have "drop (rune_width (c # s)) ((c # s) @ t) = drop (rune_width (c # s)) (c # s) @ t"
    using rune_width_le [of c s] by (subst drop_append) simp
  then have "utf8_valid (c # s @ t) \<longleftrightarrow> utf8_valid (drop (rune_width (c # s)) (c # s) @ t)"
    using rune_width_append [OF ok, of t] by (simp add: utf8_valid.simps(2))
  with 2(1) [OF rest] show ?case by simp
qed simp

text \<open>A well-formed string has a rune boundary within every window of four bytes.\<close>

lemma boundary_within:
  assumes "utf8_valid s" and "4 \<le> n" and "n \<le> length s"
  shows "\<exists>m. n < m + 4 \<and> m \<le> n \<and> utf8_valid (take m s)"
  using assms
proof (induction s arbitrary: n rule: utf8_valid.induct)
  case (2 c s)
  let ?w = "rune_width (c # s)"
  let ?r = "drop ?w (c # s)"
  have ok: "byte c < 128 \<or> multi_width (c # s) \<noteq> None" and r: "utf8_valid ?r"
    using 2(2) by (simp_all add: utf8_valid.simps(2))
  have w: "?w \<le> 4" "0 < ?w" "?w \<le> length (c # s)" using rune_width_le [of c s] by simp_all
  have one: "utf8_valid (take ?w (c # s))"
    using utf8_valid_append_unit [OF ok, of "[]"] by simp
  show ?case
  proof (cases "4 \<le> n - ?w")
    case True
    then obtain m where m: "n - ?w < m + 4" "m \<le> n - ?w" "utf8_valid (take m ?r)"
      using 2(1) [OF r, of "n - ?w"] diff_le_mono [OF 2(4), of ?w] by auto
    have "take (?w + m) (c # s) = take ?w (c # s) @ take m ?r" by (rule take_add)
    then have "utf8_valid (take (?w + m) (c # s))" using utf8_valid_append [OF one] m(3) by simp
    with m w 2(3) show ?thesis by (intro exI [of _ "?w + m"]) auto
  next
    case False
    with one w 2(3) show ?thesis by (intro exI [of _ ?w]) auto
  qed
qed simp

end
