(* ===== verification/Agent_References.thy ===== *)
theory Agent_References
  imports Go_Runes
begin

text \<open>
  Immutable references to Agent Definitions and policies, \<open>identity@version\<close>
  (\<open>internal/agentcatalog/catalog.go\<close>). What \<open>unicode.IsLower\<close> and \<open>unicode.IsDigit\<close> say of a rune
  outside ASCII is a parameter.
\<close>

record agent_reference =
  rf_identity :: gostring
  rf_version :: int

definition identifier_rune :: "(gostring \<Rightarrow> bool) \<Rightarrow> gostring \<Rightarrow> bool" where
  "identifier_rune other r =
     (case r of
        [c] \<Rightarrow> lower c \<or> decimal c \<or> c = CHR ''.'' \<or> c = CHR ''-'' \<or> c = CHR ''_''
      | _ \<Rightarrow> other r)"

definition valid_identifier :: "(gostring \<Rightarrow> bool) \<Rightarrow> gostring \<Rightarrow> bool" where
  "valid_identifier other s \<longleftrightarrow> s \<noteq> [] \<and> CHR ''.'' \<in> set s \<and> list_all (identifier_rune other) (runes s)"

text \<open>\<open>strings.Cut\<close> at one character.\<close>

definition cut_at :: "char \<Rightarrow> gostring \<Rightarrow> (gostring \<times> gostring) option" where
  "cut_at c s =
     (case dropWhile (\<lambda>x. x \<noteq> c) s of [] \<Rightarrow> None | _ # r \<Rightarrow> Some (takeWhile (\<lambda>x. x \<noteq> c) s, r))"

datatype reference_error = Invalid_Reference gostring

definition parse_reference ::
  "(gostring \<Rightarrow> bool) \<Rightarrow> gostring \<Rightarrow> (reference_error, agent_reference) result" where
  "parse_reference other v =
     (case cut_at (CHR ''@'') v of
        None \<Rightarrow> Inl (Invalid_Reference v)
      | Some (identity, raw_version) \<Rightarrow>
          if CHR ''@'' \<in> set raw_version \<or> \<not> valid_identifier other identity then Inl (Invalid_Reference v)
          else if raw_version = [] \<or> (length raw_version > 1 \<and> hd raw_version = CHR ''0'') then Inl (Invalid_Reference v)
          else (case atoi raw_version of
              None \<Rightarrow> Inl (Invalid_Reference v)
            | Some n \<Rightarrow>
                if n \<ge> 2 ^ 63 \<or> n < 1 \<or> itoa n \<noteq> raw_version then Inl (Invalid_Reference v)
                else Inr \<lparr>rf_identity = identity, rf_version = n\<rparr>))"

definition reference_string :: "agent_reference \<Rightarrow> gostring" where
  "reference_string r = rf_identity r @ CHR ''@'' # itoa (rf_version r)"

section \<open>ASCII characters of a string are runes\<close>

lemma multi_width_bytes:
  "multi_width s = Some n \<Longrightarrow> b \<in> set (take n s) \<Longrightarrow> 128 \<le> byte b"
  by (cases s) (auto simp: multi_width.simps(2) in_range_def take_Cons' split: list.splits if_splits)

lemma ascii_is_rune: "c \<in> set s \<Longrightarrow> byte c < 128 \<Longrightarrow> [c] \<in> set (runes s)"
proof (induction s rule: runes.induct)
  case (2 d s)
  show ?case
  proof (cases "byte d < 128 \<or> multi_width (d # s) \<noteq> None")
    case False
    with 2 show ?thesis by (auto simp: runes.simps(2))
  next
    case True
    let ?w = "rune_width (d # s)"
    have "c \<in> set (take ?w (d # s)) \<or> c \<in> set (drop ?w (d # s))"
      using 2(3) by (metis append_take_drop_id Un_iff set_append)
    moreover have "take ?w (d # s) = [c]" if "c \<in> set (take ?w (d # s))"
    proof (cases "multi_width (d # s)")
      case None
      with that show ?thesis by (simp add: rune_width_def)
    next
      case (Some n)
      with that 2(4) multi_width_bytes [OF Some, of c] show ?thesis by (simp add: rune_width_def)
    qed
    ultimately show ?thesis using 2(1) [OF True] 2(4) True by (auto simp: runes.simps(2))
  qed
qed simp

lemma identifier_no_at: "valid_identifier other s \<Longrightarrow> CHR ''@'' \<notin> set s"
proof
  assume v: "valid_identifier other s" and "CHR ''@'' \<in> set s"
  moreover have "byte (CHR ''@'') = 64" by (simp add: byte_def)
  ultimately have "[CHR ''@''] \<in> set (runes s)" by (intro ascii_is_rune) simp_all
  with v have "identifier_rune other [CHR ''@'']" by (auto simp: valid_identifier_def list_all_iff)
  then show False by (simp add: identifier_rune_def go_eval)
qed

lemma cut_at_Some: "cut_at c s = Some (a, b) \<longleftrightarrow> s = a @ c # b \<and> c \<notin> set a"
proof
  assume "cut_at c s = Some (a, b)"
  then have d: "dropWhile (\<lambda>x. x \<noteq> c) s = c # b" and a: "a = takeWhile (\<lambda>x. x \<noteq> c) s"
    by (auto simp: cut_at_def split: list.splits dest: hd_dropWhile)
      (metis (mono_tags, lifting) hd_dropWhile list.discI list.sel(1))+
  then have "s = a @ c # b" by (metis takeWhile_dropWhile_id)
  moreover have "c \<notin> set a" unfolding a by (auto dest: set_takeWhileD)
  ultimately show "s = a @ c # b \<and> c \<notin> set a" by blast
next
  assume s: "s = a @ c # b \<and> c \<notin> set a"
  then have "\<forall>x \<in> set a. x \<noteq> c" by auto
  with s show "cut_at c s = Some (a, b)" by (simp add: cut_at_def dropWhile_append2 takeWhile_append2)
qed

lemma itoa_nat_leading: "1 \<le> n \<Longrightarrow> hd (itoa_nat n) \<noteq> CHR ''0''"
proof (induction n rule: itoa_nat.induct)
  case (1 n)
  show ?case
  proof (cases "n < 10")
    case True
    then have "byte (digit n) = 48 + n" by simp
    with 1(2) have "digit n \<noteq> CHR ''0''" by (auto simp: byte_def)
    with True show ?thesis by (subst itoa_nat.simps) simp
  next
    case False
    then have "1 \<le> n div 10" by linarith
    with 1(1) False show ?thesis by (subst itoa_nat.simps) simp
  qed
qed

lemma itoa_positive:
  assumes "1 \<le> n"
  shows "itoa n \<noteq> []" and "CHR ''@'' \<notin> set (itoa n)" and "hd (itoa n) \<noteq> CHR ''0''"
proof -
  have i: "itoa n = itoa_nat (nat n)" using assms by (simp add: itoa_def)
  show "itoa n \<noteq> []" by (simp add: i)
  show "hd (itoa n) \<noteq> CHR ''0''" using assms by (simp add: i itoa_nat_leading)
  show "CHR ''@'' \<notin> set (itoa n)"
  proof
    assume "CHR ''@'' \<in> set (itoa n)"
    then obtain d where d: "d < 10" "CHR ''@'' = digit d" using i itoa_nat_digits by metis
    then have "byte (CHR ''@'') = 48 + d" by (metis byte_digit)
    with d(1) show False by (simp add: byte_def)
  qed
qed

text \<open>
  a reference and its text determine each other. A text parses to a reference exactly when it is the
  text the reference prints as and the reference is valid: an identifier and a version from 1 to the
  largest integer.
\<close>

lemma parse_reference_iff:
  "parse_reference other v = Inr r \<longleftrightarrow>
     v = reference_string r \<and> valid_identifier other (rf_identity r) \<and> 1 \<le> rf_version r \<and> rf_version r < 2 ^ 63"
proof
  assume "parse_reference other v = Inr r"
  then show "v = reference_string r \<and> valid_identifier other (rf_identity r) \<and> 1 \<le> rf_version r \<and> rf_version r < 2 ^ 63"
    by (auto simp: parse_reference_def reference_string_def cut_at_Some split: option.splits if_splits)
next
  assume r: "v = reference_string r \<and> valid_identifier other (rf_identity r) \<and> 1 \<le> rf_version r \<and> rf_version r < 2 ^ 63"
  then have "cut_at (CHR ''@'') v = Some (rf_identity r, itoa (rf_version r))"
    using identifier_no_at by (auto simp: cut_at_Some reference_string_def)
  with r itoa_positive [of "rf_version r"] show "parse_reference other v = Inr r"
    by (auto simp: parse_reference_def)
qed

end
