(* ===== verification/Result_Aging.thy ===== *)
theory Result_Aging
  imports Compaction Agent_References Checkpoint_Rows
begin

text \<open>
  Aging of old tool results (\<open>internal/agent/tool_result_aging.go\<close>): in whole batches, the large
  results of the Agent Steps before the recent ones are replaced by a short shell that names their
  checkpoint. Which policy a Run has is pinned by its Agent Definition.
\<close>

record aging_policy =
  ag_keep :: int
  ag_batch :: int
  ag_min_bytes :: int
  ag_rehydratable :: bool

section \<open>The policy of a Run\<close>

definition default_aging_policy :: "bool \<Rightarrow> aging_policy" where
  "default_aging_policy rehydratable =
     \<lparr>ag_keep = 6, ag_batch = 6, ag_min_bytes = 2048, ag_rehydratable = rehydratable\<rparr>"

definition tool_result_aging_for ::
  "(gostring \<Rightarrow> bool) \<Rightarrow> gostring \<Rightarrow> gostring \<Rightarrow> gostring \<Rightarrow> aging_policy option" where
  "tool_result_aging_for other config parent_run task =
     (case parse_reference other config of
        Inl _ \<Rightarrow> None
      | Inr r \<Rightarrow>
          if rf_identity r = ''research.executor'' then
            (if rf_version r \<ge> 45 \<and> parent_run \<noteq> [] \<and> prefix ''Read one long document for the parent researcher, in full:'' task
             then Some \<lparr>ag_keep = 4, ag_batch = 4, ag_min_bytes = 2048, ag_rehydratable = True\<rparr>
             else if rf_version r \<ge> 44 then Some (default_aging_policy True)
             else None)
          else if rf_identity r = ''chat.leader'' then
            (if rf_version r \<ge> 8 then Some (default_aging_policy False) else None)
          else None)"

section \<open>The shell of a result\<close>

definition aged_note :: "bool \<Rightarrow> gostring" where
  "aged_note readable =
     (if readable then
        ''This earlier Tool Result was aged out of context to save tokens. Its claim cards, if any, are in claims.md; call read_tool_result with result_ref to read the full result again.''
      else
        ''This earlier Tool Result was aged out of context to save tokens. Run the Tool again if you need its content.'')"

definition result_ref :: "gostring \<Rightarrow> gostring \<Rightarrow> gostring" where
  "result_ref run_id action_id = ''run:'' @ run_id @ ''/checkpoint:'' @ action_id"

definition output_text :: "raw \<Rightarrow> gostring" where
  "output_text r = (case r of Raw j \<Rightarrow> json_text j | _ \<Rightarrow> [])"

text \<open>\<open>agedToolResultShellPayload\<close>, encoded.\<close>

definition shell_json :: "gostring \<Rightarrow> gostring \<Rightarrow> action_result \<Rightarrow> bool \<Rightarrow> json" where
  "shell_json run_id action_id r rehydratable =
     (let code = (if ar_error_code r = [] then (case ar_error r of None \<Rightarrow> [] | Some e \<Rightarrow> ae_code e) else ar_error_code r);
          readable = (ar_status r = action_succeeded \<and> rehydratable);
          body = output_text (ar_output r) in
      JObj ([(''action_id'', marshal_string action_id), (''status'', marshal_string (ar_status r))]
        @ opt_member ''error_code'' code
        @ [(''content_state'', JStr ''aged''), (''result_ref'', marshal_string (result_ref run_id action_id))]
        @ (if readable then [(''read_tool'', JStr ''read_tool_result'')] else [])
        @ [(''rehydratable'', JBool readable), (''result_bytes'', marshal_int (int (length body)))]
        @ (if body = [] then [] else opt_member ''preview'' (truncate_runes_with_ellipsis body 200))
        @ [(''note'', JStr (aged_note readable))]))"

text \<open>
  The strict decoder of the content. The content of an Action message is always an encoded payload;
  other text does not decode.
\<close>

definition accepted_result :: "content \<Rightarrow> (gostring \<times> action_result) option" where
  "accepted_result c =
     (case c of
        Words _ \<Rightarrow> None
      | Encoded j \<Rightarrow> if strict_result (Raw j) then decode_action_result (Raw j) else None)"

definition aged_tool_result_shell :: "gostring \<Rightarrow> content \<Rightarrow> bool \<Rightarrow> json option" where
  "aged_tool_result_shell run_id c rehydratable =
     (case accepted_result c of
        None \<Rightarrow> None
      | Some (action_id, r) \<Rightarrow>
          if action_id = [] \<or> blank run_id then None
          else if ar_status r \<noteq> action_succeeded \<and> ar_status r \<noteq> action_domain_error then None
          else Some (shell_json run_id action_id r rehydratable))"

section \<open>Aging the units\<close>

definition unit_has_action_results :: "context_unit \<Rightarrow> bool" where
  "unit_has_action_results u \<longleftrightarrow> list_ex (\<lambda>m. mm_role m = Role_Action) (cu_messages u)"

definition tool_step :: "context_unit \<Rightarrow> bool" where
  "tool_step u \<longleftrightarrow> cu_kind u = Unit_Agent_Step \<and> unit_has_action_results u"

text \<open>The map from call identities to names; a later call of the same identity overwrites it.\<close>

definition call_name :: "context_unit \<Rightarrow> gostring \<Rightarrow> gostring" where
  "call_name u k =
     (case filter (\<lambda>c. mc_id c = k) (rev (concat (map mm_calls (cu_messages u)))) of
        [] \<Rightarrow> []
      | c # _ \<Rightarrow> mc_name c)"

definition message_shell :: "aging_policy \<Rightarrow> context_unit \<Rightarrow> model_message \<Rightarrow> json option" where
  "message_shell policy u m =
     (if mm_role m \<noteq> Role_Action \<or> int (length (content_text (mm_content m))) < ag_min_bytes policy
         \<or> call_name u (mm_call_id m) \<in> {''read_skill'', ''wait_agent''}
      then None
      else aged_tool_result_shell (cu_run_id u) (mm_content m) (ag_rehydratable policy))"

definition age_message :: "aging_policy \<Rightarrow> context_unit \<Rightarrow> model_message \<Rightarrow> model_message" where
  "age_message policy u m =
     (case message_shell policy u m of None \<Rightarrow> m | Some j \<Rightarrow> m\<lparr>mm_content := Encoded j\<rparr>)"

definition age_unit :: "aging_policy \<Rightarrow> context_unit \<Rightarrow> context_unit" where
  "age_unit policy u = u\<lparr>cu_messages := map (age_message policy u) (cu_messages u)\<rparr>"

definition tool_step_positions :: "context_unit list \<Rightarrow> nat list" where
  "tool_step_positions us = filter (\<lambda>i. tool_step (us ! i)) [0..<length us]"

definition aged_positions :: "aging_policy \<Rightarrow> context_unit list \<Rightarrow> nat list" where
  "aged_positions policy us =
     (if ag_keep policy < 0 \<or> ag_batch policy < 1 \<or> ag_min_bytes policy < 1 then []
      else
        let steps = tool_step_positions us; old = int (length steps) - ag_keep policy in
        if old < ag_batch policy then [] else take (nat (old - old mod ag_batch policy)) steps)"

definition age_old_tool_results :: "aging_policy \<Rightarrow> context_unit list \<Rightarrow> context_unit list" where
  "age_old_tool_results policy us =
     (let aged = aged_positions policy us in
      map (\<lambda>i. if i \<in> set aged then age_unit policy (us ! i) else us ! i) [0..<length us])"

text \<open>The counters of the aged results and of the bytes they save.\<close>

definition message_stats :: "aging_policy \<Rightarrow> context_unit \<Rightarrow> model_message \<Rightarrow> int \<times> int" where
  "message_stats policy u m =
     (case message_shell policy u m of
        None \<Rightarrow> (0, 0)
      | Some j \<Rightarrow> (1, int (length (content_text (mm_content m))) - int (length (json_text j))))"

definition aging_stats :: "aging_policy \<Rightarrow> context_unit list \<Rightarrow> int \<times> int" where
  "aging_stats policy us =
     (let stats = concat (map (\<lambda>i. map (message_stats policy (us ! i)) (cu_messages (us ! i))) (aged_positions policy us)) in
      (sum_list (map fst stats), sum_list (map snd stats)))"

definition aged_request_units :: "aging_policy option \<Rightarrow> context_unit list \<Rightarrow> context_unit list \<times> int \<times> int" where
  "aged_request_units policy us =
     (case policy of None \<Rightarrow> (us, 0, 0) | Some p \<Rightarrow> (age_old_tool_results p us, aging_stats p us))"

section \<open>Reading a result again\<close>

text \<open>
  The pattern \<open>^run:([A-Za-z0-9_-]{1,160})/checkpoint:(decision:[1-9][0-9]*/action:[0-9]+)$\<close> of
  \<open>compacted_tool_result.go\<close>.
\<close>

definition run_id_char :: "char \<Rightarrow> bool" where
  "run_id_char c \<longleftrightarrow> upper c \<or> lower c \<or> decimal c \<or> c = CHR ''_'' \<or> c = CHR ''-''"

definition digits_then :: "gostring \<Rightarrow> gostring \<times> gostring" where
  "digits_then s = (takeWhile decimal s, dropWhile decimal s)"

definition action_ref_ok :: "gostring \<Rightarrow> bool" where
  "action_ref_ok s \<longleftrightarrow>
     prefix ''decision:'' s
     \<and> (case digits_then (drop 9 s) of (n, r) \<Rightarrow>
          n \<noteq> [] \<and> hd n \<noteq> CHR ''0'' \<and> prefix ''/action:'' r
          \<and> (case digits_then (drop 8 r) of (i, rest) \<Rightarrow> i \<noteq> [] \<and> rest = []))"

definition parse_result_reference :: "gostring \<Rightarrow> (gostring \<times> gostring) option" where
  "parse_result_reference s =
     (if \<not> prefix ''run:'' s then None
      else
        let run = takeWhile run_id_char (drop 4 s); r = dropWhile run_id_char (drop 4 s) in
        if run = [] \<or> length run > 160 \<or> \<not> prefix ''/checkpoint:'' r \<or> \<not> action_ref_ok (drop 12 r) then None
        else Some (run, drop 12 r))"

datatype page_error = Invalid_Page_Size | Invalid_Offset

record result_page =
  pg_offset :: nat
  pg_content :: gostring
  pg_next :: nat
  pg_complete :: bool

text \<open>\<open>for end > offset && !utf8.Valid(body[offset:end]) { end-- }\<close>\<close>

fun shrink_end :: "gostring \<Rightarrow> nat \<Rightarrow> nat" where
  "shrink_end rest 0 = 0"
| "shrink_end rest (Suc n) = (if utf8_valid (take (Suc n) rest) then Suc n else shrink_end rest n)"

definition page_compacted_tool_result :: "gostring \<Rightarrow> int \<Rightarrow> int \<Rightarrow> int \<Rightarrow> (page_error, result_page) result" where
  "page_compacted_tool_result body offset requested maximum =
     (let limit = (if requested \<le> 0 \<or> requested > maximum then maximum else requested) in
      if limit < 4 \<or> maximum < 4 then Inl Invalid_Page_Size
      else if offset < 0 \<or> offset > int (length body) \<or> \<not> utf8_valid (drop (nat offset) body) then Inl Invalid_Offset
      else
        let rest = drop (nat offset) body;
            n = shrink_end rest (min (nat limit) (length rest)) in
        if n = 0 \<and> offset < int (length body) then Inl Invalid_Page_Size
        else Inr \<lparr>pg_offset = nat offset, pg_content = take n rest, pg_next = nat offset + n,
                  pg_complete = (nat offset + n = length body)\<rparr>)"

section \<open>Aging as one pass\<close>

fun age_first :: "aging_policy \<Rightarrow> nat \<Rightarrow> context_unit list \<Rightarrow> context_unit list" where
  "age_first policy 0 us = us"
| "age_first policy (Suc k) [] = []"
| "age_first policy (Suc k) (u # us) =
     (if tool_step u then age_unit policy u # age_first policy k us else u # age_first policy (Suc k) us)"

definition tool_steps :: "context_unit list \<Rightarrow> nat" where
  "tool_steps us = length (filter tool_step us)"

definition policy_ok :: "aging_policy \<Rightarrow> bool" where
  "policy_ok policy \<longleftrightarrow> 0 \<le> ag_keep policy \<and> 1 \<le> ag_batch policy \<and> 1 \<le> ag_min_bytes policy"

definition aged_count :: "aging_policy \<Rightarrow> nat \<Rightarrow> nat" where
  "aged_count policy n =
     (if policy_ok policy then nat ((int n - ag_keep policy) div ag_batch policy * ag_batch policy) else 0)"

lemma tool_steps_simps [simp]:
  "tool_steps [] = 0" "tool_steps (u # us) = (if tool_step u then Suc (tool_steps us) else tool_steps us)"
  "tool_steps (us @ vs) = tool_steps us + tool_steps vs"
  by (simp_all add: tool_steps_def)

lemma tool_step_positions_Cons:
  "tool_step_positions (u # us) = (if tool_step u then [0] else []) @ map Suc (tool_step_positions us)"
proof -
  have "[0..<length (u # us)] = 0 # map Suc [0..<length us]" by (simp add: map_Suc_upt upt_conv_Cons del: upt_Suc)
  then show ?thesis by (simp add: tool_step_positions_def filter_map comp_def)
qed

lemma length_tool_step_positions [simp]: "length (tool_step_positions us) = tool_steps us"
  by (induction us) (auto simp: tool_step_positions_Cons tool_step_positions_def [of "[]"])

lemma map_positions_Cons:
  "map f [0..<length (u # us)] = f 0 # map (f \<circ> Suc) [0..<length us]"
proof -
  have "[0..<length (u # us)] = 0 # map Suc [0..<length us]" by (simp add: map_Suc_upt upt_conv_Cons del: upt_Suc)
  then show ?thesis by simp
qed

lemma aging_one_pass:
  "map (\<lambda>i. if i \<in> set (take k (tool_step_positions us)) then age_unit policy (us ! i) else us ! i) [0..<length us]
   = age_first policy k us"
proof (induction us arbitrary: k)
  case Nil
  then show ?case by (cases k) simp_all
next
  case (Cons u us)
  show ?case
  proof (cases k)
    case 0
    then show ?thesis unfolding map_positions_Cons by (simp add: comp_def map_nth)
  next
    case (Suc n)
    let ?g = "\<lambda>k i. if i \<in> set (take k (tool_step_positions us)) then age_unit policy (us ! i) else us ! i"
    have IH: "map (?g m) [0..<length us] = age_first policy m us" for m by (rule Cons.IH)
    show ?thesis
    proof (cases "tool_step u")
      case True
      then have "take k (tool_step_positions (u # us)) = 0 # map Suc (take n (tool_step_positions us))"
        by (simp add: Suc tool_step_positions_Cons take_map)
      then show ?thesis
        unfolding map_positions_Cons using True Suc IH [of n] by (simp add: comp_def image_iff cong: if_cong)
    next
      case False
      then have "take k (tool_step_positions (u # us)) = map Suc (take k (tool_step_positions us))"
        by (simp add: tool_step_positions_Cons take_map)
      then show ?thesis
        unfolding map_positions_Cons using False Suc IH [of k] by (simp add: comp_def image_iff cong: if_cong)
    qed
  qed
qed

lemma small_batch: "1 \<le> (b :: int) \<Longrightarrow> x < b \<Longrightarrow> x div b * b \<le> 0"
proof -
  assume b: "1 \<le> b" and x: "x < b"
  then have "x div b \<le> 0"
    by (cases "0 \<le> x") (simp_all add: div_nonpos_pos_le0)
  with b show ?thesis by (simp add: mult_nonpos_nonneg)
qed

lemma aged_positions_eq: "aged_positions policy us = take (aged_count policy (tool_steps us)) (tool_step_positions us)"
proof (cases "policy_ok policy")
  case True
  let ?old = "int (tool_steps us) - ag_keep policy"
  have b: "1 \<le> ag_batch policy" using True by (simp add: policy_ok_def)
  have "?old - ?old mod ag_batch policy = ?old div ag_batch policy * ag_batch policy" by (simp add: minus_mod_eq_div_mult)
  with True small_batch [OF b, of ?old] show ?thesis
    by (auto simp: aged_positions_def aged_count_def policy_ok_def Let_def not_less)
qed (auto simp: aged_positions_def aged_count_def policy_ok_def)

lemma age_first_length [simp]: "length (age_first policy k us) = length us"
  by (induction policy k us rule: age_first.induct) auto

lemma age_first_append: "k \<le> tool_steps us \<Longrightarrow> age_first policy k (us @ vs) = age_first policy k us @ vs"
  by (induction policy k us rule: age_first.induct) (auto split: if_splits)

lemma aged_count_bounds:
  assumes "policy_ok policy"
  shows "aged_count policy n \<le> n" and "ag_batch policy dvd int (aged_count policy n)"
    and "ag_keep policy \<le> int n \<Longrightarrow> ag_keep policy \<le> int n - int (aged_count policy n)"
    and "int n - int (aged_count policy n) < ag_keep policy + ag_batch policy"
proof -
  let ?b = "ag_batch policy" and ?x = "int n - ag_keep policy"
  have b: "1 \<le> ?b" and k: "0 \<le> ag_keep policy" using assms by (simp_all add: policy_ok_def)
  have m: "?x div ?b * ?b = ?x - ?x mod ?b" by (simp add: minus_mod_eq_div_mult)
  have r: "0 \<le> ?x mod ?b" "?x mod ?b < ?b" using b by simp_all
  have c: "int (aged_count policy n) = max 0 (?x div ?b * ?b)" using assms by (simp add: aged_count_def)
  show "aged_count policy n \<le> n" using c m r k by linarith
  show "?b dvd int (aged_count policy n)" unfolding c by (auto simp: max_def)
  show "ag_keep policy \<le> int n - int (aged_count policy n)" if "ag_keep policy \<le> int n"
    using c m r that by linarith
  show "int n - int (aged_count policy n) < ag_keep policy + ?b"
    using c m r by linarith
qed

section \<open>Aging changes only the contents of results\<close>

lemma age_message_fields [simp]:
  "mm_role (age_message policy u m) = mm_role m" "mm_calls (age_message policy u m) = mm_calls m"
  "mm_call_id (age_message policy u m) = mm_call_id m"
  by (simp_all add: age_message_def split: option.split)

lemma age_unit_fields [simp]:
  "cu_kind (age_unit policy u) = cu_kind u" "cu_message_id (age_unit policy u) = cu_message_id u"
  "cu_run_id (age_unit policy u) = cu_run_id u" "cu_decision_no (age_unit policy u) = cu_decision_no u"
  by (simp_all add: age_unit_def)

lemma age_unit_key [simp]: "context_unit_key (age_unit policy u) = context_unit_key u"
  by (cases "cu_kind u") (simp_all add: context_unit_key_def)

lemma conversation_aged: "conversation pending (map (age_message policy u) ms) = conversation pending ms"
  by (induction pending ms rule: conversation.induct) (auto split: list.splits)

lemma age_unit_closed [simp]: "unit_closed (age_unit policy u) = unit_closed u"
  by (auto simp: unit_closed_def age_unit_def conversation_aged)

lemma age_unit_step [simp]: "tool_step (age_unit policy u) = tool_step u"
  by (simp add: tool_step_def unit_has_action_results_def age_unit_def list_ex_iff)

lemma age_first_keys: "map context_unit_key (age_first policy k us) = map context_unit_key us"
  by (induction policy k us rule: age_first.induct) auto

lemma age_first_closed: "list_all unit_closed (age_first policy k us) = list_all unit_closed us"
  by (induction policy k us rule: age_first.induct) auto

lemma age_first_steps: "tool_steps (age_first policy k us) = tool_steps us"
  by (induction policy k us rule: age_first.induct) auto

lemma shell_not_accepted: "accepted_result (Encoded (shell_json run_id action_id r b)) = None"
proof -
  have "fold_name ''content_state'' \<notin> fold_name ` {''action_id'', ''status'', ''output'', ''error_code'', ''error''}"
    by (simp add: fold_name_ascii up_ascii_def lower_def in_range_def byte_def char_of_def)
  then show ?thesis
    by (auto simp: accepted_result_def shell_json_def Let_def known_members_def)
qed

lemma call_name_aged [simp]: "call_name (age_unit policy u) k = call_name u k"
  by (simp add: call_name_def age_unit_def comp_def)

lemma message_shell_aged: "message_shell policy v (age_message policy u m) = None \<or> message_shell policy u m = None"
proof (cases "message_shell policy u m")
  case (Some j)
  then obtain action_id r where "j = shell_json (cu_run_id u) action_id r (ag_rehydratable policy)"
    by (auto simp: message_shell_def aged_tool_result_shell_def split: if_splits option.splits)
  then have "mm_content (age_message policy u m) = Encoded (shell_json (cu_run_id u) action_id r (ag_rehydratable policy))"
    using Some by (simp add: age_message_def)
  then show ?thesis by (simp add: message_shell_def aged_tool_result_shell_def shell_not_accepted)
qed simp

lemma age_message_again: "age_message policy (age_unit policy u) (age_message policy u m) = age_message policy u m"
proof (cases "message_shell policy u m")
  case None
  then have m: "age_message policy u m = m" by (simp add: age_message_def)
  have "message_shell policy (age_unit policy u) m = message_shell policy u m"
    by (simp add: message_shell_def)
  with None m show ?thesis by (simp add: age_message_def)
next
  case (Some j)
  with message_shell_aged have "message_shell policy (age_unit policy u) (age_message policy u m) = None" by force
  then show ?thesis by (simp add: age_message_def [of policy "age_unit policy u"])
qed

lemma age_unit_again [simp]: "age_unit policy (age_unit policy u) = age_unit policy u"
proof -
  have "map (age_message policy (age_unit policy u)) (map (age_message policy u) (cu_messages u))
      = map (age_message policy u) (cu_messages u)"
    by (simp add: age_message_again)
  then show ?thesis by (simp add: age_unit_def [of policy "age_unit policy u"]) (simp add: age_unit_def)
qed

lemma age_first_again: "age_first policy k (age_first policy k us) = age_first policy k us"
  by (induction policy k us rule: age_first.induct) auto

lemma age_old_eq: "age_old_tool_results policy us = age_first policy (aged_count policy (tool_steps us)) us"
  by (simp add: age_old_tool_results_def aged_positions_eq aging_one_pass Let_def)

section \<open>References and pages\<close>

lemma itoa_decimal: "0 \<le> n \<Longrightarrow> \<forall>c \<in> set (itoa n). decimal c"
  using itoa_nat_digits decimal_digit by (fastforce simp: itoa_def)

lemma takeWhile_stop: "\<forall>c \<in> set xs. P c \<Longrightarrow> (case ys of [] \<Rightarrow> True | y # _ \<Rightarrow> \<not> P y) \<Longrightarrow>
    takeWhile P (xs @ ys) = xs \<and> dropWhile P (xs @ ys) = ys"
  by (cases ys) (simp_all add: takeWhile_append2 dropWhile_append2)

lemma action_ref_key:
  assumes "1 \<le> n" and "0 \<le> i"
  shows "action_ref_ok (action_key n i)"
proof -
  have slash: "\<not> decimal (CHR ''/'')" by (simp add: go_eval)
  have a: "drop 9 (action_key n i) = itoa n @ ''/action:'' @ itoa i"
    and p: "prefix ''decision:'' (action_key n i)"
    by (simp_all add: action_key_def)
  have n: "digits_then (itoa n @ ''/action:'' @ itoa i) = (itoa n, ''/action:'' @ itoa i)"
    unfolding digits_then_def
    using takeWhile_stop [of "itoa n" decimal "''/action:'' @ itoa i"] itoa_decimal [of n] assms(1) slash by simp
  have i: "digits_then (itoa i) = (itoa i, [])"
    unfolding digits_then_def using itoa_decimal [of i] assms(2) takeWhile_stop [of "itoa i" decimal "[]"] by simp
  have "itoa i \<noteq> []" by (simp add: itoa_def)
  with itoa_positive [OF assms(1)] p show ?thesis
    unfolding action_ref_ok_def a n by (simp add: i)
qed

lemma parse_result_ref:
  assumes "\<forall>c \<in> set run_id. run_id_char c" and "run_id \<noteq> []" and "length run_id \<le> 160" and "1 \<le> n" and "0 \<le> i"
  shows "parse_result_reference (result_ref run_id (action_key n i)) = Some (run_id, action_key n i)"
proof -
  let ?s = "run_id @ ''/checkpoint:'' @ action_key n i"
  have slash: "\<not> run_id_char (CHR ''/'')" by (simp add: run_id_char_def go_eval)
  have t: "takeWhile run_id_char ?s = run_id" "dropWhile run_id_char ?s = ''/checkpoint:'' @ action_key n i"
    using takeWhile_stop [OF assms(1), of "''/checkpoint:'' @ action_key n i"] slash by simp_all
  have d: "drop 4 (result_ref run_id (action_key n i)) = ?s" and p: "prefix ''run:'' (result_ref run_id (action_key n i))"
    by (simp_all add: result_ref_def)
  show ?thesis
    unfolding parse_result_reference_def d t Let_def using p assms action_ref_key by simp
qed

lemma shrink_end_spec:
  "shrink_end s n \<le> n \<and> utf8_valid (take (shrink_end s n) s)
   \<and> (\<forall>m \<le> n. utf8_valid (take m s) \<longrightarrow> m \<le> shrink_end s n)"
  by (induction n) (auto simp: le_Suc_eq)

lemma shrink_end_progress:
  assumes "utf8_valid s" and "4 \<le> n"
  shows "0 < shrink_end s (min n (length s)) \<or> s = []"
proof (cases "n \<le> length s")
  case True
  from boundary_within [OF assms True] obtain m where "n < m + 4" "m \<le> n" "utf8_valid (take m s)" by blast
  with shrink_end_spec [of s "min n (length s)"] True assms(2) show ?thesis by fastforce
next
  case False
  with shrink_end_spec [of s "min n (length s)"] assms(1) show ?thesis by fastforce
qed

text \<open>A reader that asks for one page after another, starting where the last one ended.\<close>

fun read_pages :: "nat \<Rightarrow> gostring \<Rightarrow> nat \<Rightarrow> int \<Rightarrow> int \<Rightarrow> gostring list option" where
  "read_pages 0 body offset requested maximum = None"
| "read_pages (Suc fuel) body offset requested maximum =
     (case page_compacted_tool_result body (int offset) requested maximum of
        Inl _ \<Rightarrow> None
      | Inr p \<Rightarrow>
          if pg_complete p then Some [pg_content p]
          else map_option ((#) (pg_content p)) (read_pages fuel body (pg_next p) requested maximum))"

definition page_size_ok :: "int \<Rightarrow> int \<Rightarrow> bool" where
  "page_size_ok requested maximum \<longleftrightarrow> 4 \<le> maximum \<and> (requested \<le> 0 \<or> 4 \<le> requested)"

lemma page_at_boundary:
  assumes "page_size_ok requested maximum" and "offset \<le> length body" and "utf8_valid (drop offset body)"
  shows "\<exists>n. page_compacted_tool_result body (int offset) requested maximum
      = Inr \<lparr>pg_offset = offset, pg_content = take n (drop offset body), pg_next = offset + n,
             pg_complete = (offset + n = length body)\<rparr>
    \<and> offset + n \<le> length body \<and> int n \<le> maximum \<and> (n = 0 \<longrightarrow> offset = length body) \<and> utf8_valid (drop (offset + n) body)"
proof -
  let ?limit = "if requested \<le> 0 \<or> requested > maximum then maximum else requested"
  let ?rest = "drop offset body"
  let ?n = "shrink_end ?rest (min (nat ?limit) (length ?rest))"
  have l: "4 \<le> ?limit" "?limit \<le> maximum" "4 \<le> nat ?limit" using assms(1) by (auto simp: page_size_ok_def)
  note sp = shrink_end_spec [of ?rest "min (nat ?limit) (length ?rest)"]
  have pos: "0 < ?n \<or> offset = length body"
    using shrink_end_progress [OF assms(3) l(3)] assms(2) by auto
  have "utf8_valid (drop ?n ?rest)"
    using sp assms(3) by (metis append_take_drop_id utf8_valid_append)
  moreover have "?n \<le> nat ?limit" "?n \<le> length ?rest" using sp by simp_all
  then have "int ?n \<le> maximum" "offset + ?n \<le> length body"
    using l assms(2) unfolding length_drop by linarith+
  moreover have "page_compacted_tool_result body (int offset) requested maximum
      = Inr \<lparr>pg_offset = offset, pg_content = take ?n ?rest, pg_next = offset + ?n, pg_complete = (offset + ?n = length body)\<rparr>"
    unfolding page_compacted_tool_result_def Let_def nat_int using l(1) assms pos by (auto simp: page_size_ok_def)
  ultimately show ?thesis using pos by (intro exI [of _ ?n]) (auto simp: add.commute)
qed

lemma read_pages_restore:
  assumes "page_size_ok requested maximum" and "offset \<le> length body" and "utf8_valid (drop offset body)"
    and "length body - offset < fuel"
  shows "\<exists>ps. read_pages fuel body offset requested maximum = Some ps \<and> concat ps = drop offset body
    \<and> list_all (\<lambda>p. int (length p) \<le> maximum) ps"
  using assms(2-4)
proof (induction fuel arbitrary: offset)
  case (Suc fuel)
  from page_at_boundary [OF assms(1) Suc.prems(1,2)] obtain n where
    p: "page_compacted_tool_result body (int offset) requested maximum
      = Inr \<lparr>pg_offset = offset, pg_content = take n (drop offset body), pg_next = offset + n,
             pg_complete = (offset + n = length body)\<rparr>"
    and n: "offset + n \<le> length body" "int n \<le> maximum" "n = 0 \<longrightarrow> offset = length body" "utf8_valid (drop (offset + n) body)"
    by blast
  show ?case
  proof (cases "offset + n = length body")
    case True
    with p n show ?thesis by auto
  next
    case False
    then have "length body - (offset + n) < fuel" using Suc.prems n by linarith
    from Suc.IH [OF n(1,4) this] obtain ps where ps: "read_pages fuel body (offset + n) requested maximum = Some ps"
      "concat ps = drop (offset + n) body" "list_all (\<lambda>p. int (length p) \<le> maximum) ps"
      by blast
    have "take n (drop offset body) @ drop (offset + n) body = drop offset body"
      by (metis append_take_drop_id drop_drop add.commute)
    with ps p False n show ?thesis by auto
  qed
qed simp

section \<open>Properties\<close>

text \<open>
  aging works in whole batches and keeps the recent steps exact. The code ages a set of positions;
  this is one pass that ages the first k Agent Steps with results, where k is a multiple of the batch,
  at least as many steps as the policy keeps stay exact (all of them when there are fewer), and
  fewer than a batch more.
\<close>

lemma aging_in_batches:
  assumes "policy_ok policy"
  shows "let n = tool_steps us; k = aged_count policy n in
    age_old_tool_results policy us = age_first policy k us
    \<and> k \<le> n \<and> ag_batch policy dvd int k
    \<and> min (ag_keep policy) (int n) \<le> int (n - k) \<and> int (n - k) < ag_keep policy + ag_batch policy"
proof -
  note b = aged_count_bounds [OF assms, of "tool_steps us"]
  have "k = 0" if "int (tool_steps us) < ag_keep policy" "k = aged_count policy (tool_steps us)" for k
  proof -
    have "0 < ag_batch policy" using assms by (simp add: policy_ok_def)
    with that have "(int (tool_steps us) - ag_keep policy) div ag_batch policy * ag_batch policy \<le> 0"
      by (intro mult_nonpos_nonneg) (simp_all add: div_nonpos_pos_le0)
    with that show ?thesis by (simp add: aged_count_def)
  qed
  with b show ?thesis by (auto simp: age_old_eq Let_def of_nat_diff min_def)
qed

text \<open>
  C31: aging does not disturb the conversation or the prompt cache. It keeps every key and every
  exchange closed, aging again changes nothing, and as long as no further batch is completed the aged
  units stay the same when units are added.
\<close>

theorem aging_is_stable:
  "map context_unit_key (age_old_tool_results policy us) = map context_unit_key us
   \<and> list_all unit_closed (age_old_tool_results policy us) = list_all unit_closed us
   \<and> age_old_tool_results policy (age_old_tool_results policy us) = age_old_tool_results policy us
   \<and> (aged_count policy (tool_steps (us @ vs)) = aged_count policy (tool_steps us) \<longrightarrow>
        age_old_tool_results policy (us @ vs) = age_old_tool_results policy us @ vs)"
proof -
  have "aged_count policy (tool_steps us) \<le> tool_steps us"
    using aged_count_bounds(1) by (cases "policy_ok policy") (simp_all add: aged_count_def)
  then show ?thesis
    by (simp add: age_old_eq age_first_keys age_first_closed age_first_steps age_first_again age_first_append)
qed


theorem aging_is_stable_witness:
  "age_old_tool_results (default_aging_policy False) ([] @ [summary_unit ''s'']) = [summary_unit ''s'']"
proof -
  have "\<not> tool_step (summary_unit ''s'')" by (simp add: tool_step_def summary_unit_def)
  then show ?thesis
    using aging_is_stable [of "default_aging_policy False" "[]" "[summary_unit ''s'']"]
    by (simp add: age_old_eq aged_count_def policy_ok_def default_aging_policy_def)
qed


end
