(* ===== verification/Lane_Store.thy ===== *)
theory Lane_Store
  imports Result_Aging Controller
begin

text \<open>
  Two readers of the checkpoint log beside the Run's own attempt. \<open>reconcileTerminalRunActions\<close> of
  \<open>internal/agent/postgres_context_projection.go\<close> closes the unanswered Actions of a Run that has
  ended before its history is projected, and \<open>GetActionResult\<close> of \<open>compacted_tool_result.go\<close> reads one
  accepted result again.
\<close>

section \<open>Closing a Run that has ended\<close>

fun insert_closing ::
  "(json \<Rightarrow> json) \<Rightarrow> int \<Rightarrow> int \<Rightarrow> accepted_action list \<Rightarrow> run_store \<Rightarrow> (store_error, run_store) result" where
  "insert_closing jsonb n sequence [] s = Inr s"
| "insert_closing jsonb n sequence (a # as) s =
     (case new_action_result_checkpoint n (aa_index a) (aa_action_id a) interrupted_result of
        Inl _ \<Rightarrow> Inl Checkpoint_Invalid
      | Inr c \<Rightarrow>
          insert_closing jsonb n (sequence + 1) as
            (s\<lparr>rs_rows := rs_rows s @ [stored_row jsonb \<lparr>cp_sequence_no = sequence + 1, cp_pending = c\<rparr>]\<rparr>))"

definition reconcile_terminal_run_actions :: "(json \<Rightarrow> json) \<Rightarrow> run_store \<Rightarrow> (store_error, run_store) result" where
  "reconcile_terminal_run_actions jsonb s =
     (if rs_status s = ''queued'' \<or> rs_status s = ''running'' then Inr s
      else
        bind_result (load_run_checkpoints s) (\<lambda>cs.
        bind_result (load_valid cs) (\<lambda>p.
          case incomplete_actions p of
            None \<Rightarrow> Inr s
          | Some (proposal, pending) \<Rightarrow>
              insert_closing jsonb (apr_decision_no proposal) (int (length cs)) pending s)))"

section \<open>Reading one result\<close>

datatype read_error = Result_Expired | Result_Corrupt | Read_Failed store_error

definition get_action_result :: "run_store \<Rightarrow> gostring \<Rightarrow> gostring \<Rightarrow> (read_error, action_result) result" where
  "get_action_result s run_id action_id =
     (if blank run_id \<or> blank action_id then Inl Result_Expired
      else if rs_run_id s \<noteq> run_id then Inl Result_Expired
      else (case find (\<lambda>row. pc_action_id (cp_pending row) = action_id \<and> pc_kind (cp_pending row) = Action_Result) (rs_rows s) of
          None \<Rightarrow> Inl Result_Expired
        | Some row \<Rightarrow>
            (case scan_checkpoint row of
               Inl Checkpoint_Invalid \<Rightarrow> Inl Result_Corrupt
             | Inl e \<Rightarrow> Inl (Read_Failed e)
             | Inr c \<Rightarrow>
                 let p = cp_pending c in
                 (case (pc_action_index p, if strict_result (pc_payload p) then decode_action_result (pc_payload p) else None) of
                    (Some i, Some (_, r)) \<Rightarrow>
                      if matches_result p (new_action_result_checkpoint (pc_decision_no p) i (pc_action_id p) r)
                      then Inr r else Inl Result_Corrupt
                  | _ \<Rightarrow> Inl Result_Corrupt))))"

text \<open>
  The reader over the store. A result that was externalized to the result cache is read there; that
  reader is a parameter, which answers \<open>None\<close> for a result that is stored in place.
\<close>

datatype read_page_error = Read_Unauthorized | Read_Error read_error | Page_Error page_error

definition read_compacted_result ::
  "(json \<Rightarrow> gostring \<Rightarrow> (read_page_error, result_page) result option) \<Rightarrow> run_store \<Rightarrow> gostring \<Rightarrow> gostring \<Rightarrow> int \<Rightarrow> int \<Rightarrow> int
   \<Rightarrow> (read_page_error, result_page) result" where
  "read_compacted_result externalized s scope_run ref offset requested maximum =
     (case parse_result_reference ref of
        None \<Rightarrow> Inl (Read_Error Result_Expired)
      | Some (run_id, action_id) \<Rightarrow>
          if run_id \<noteq> scope_run then Inl Read_Unauthorized
          else (case get_action_result s run_id action_id of
              Inl e \<Rightarrow> Inl (Read_Error e)
            | Inr r \<Rightarrow>
                if ar_status r \<noteq> action_succeeded then Inl (Read_Error Result_Expired)
                else (case (case ar_output r of Raw j \<Rightarrow> externalized j action_id | _ \<Rightarrow> None) of
                    Some page \<Rightarrow> page
                  | None \<Rightarrow>
                      (case page_compacted_tool_result (output_text (ar_output r)) offset requested maximum of
                         Inl e \<Rightarrow> Inl (Page_Error e)
                       | Inr page \<Rightarrow> Inr page))))"

section \<open>The results of a prefix are the rows of the log\<close>

definition prefix_actions :: "checkpoint_prefix \<Rightarrow> accepted_action list" where
  "prefix_actions p = concat (map apr_actions (cx_proposals p))"

definition is_result_of :: "accepted_action \<Rightarrow> pending_checkpoint \<Rightarrow> bool" where
  "is_result_of a c \<longleftrightarrow> pc_kind c = Action_Result \<and> pc_action_id c = aa_action_id a
     \<and> (case decode_action_result (pc_payload c) of None \<Rightarrow> False | Some (_, r) \<Rightarrow> aa_result a = Some r)"

definition results_from_rows :: "checkpoint list \<Rightarrow> checkpoint_prefix \<Rightarrow> bool" where
  "results_from_rows cs p \<longleftrightarrow>
     (\<forall>a \<in> set (prefix_actions p). aa_result a \<noteq> None \<longrightarrow> (\<exists>c \<in> set cs. is_result_of a (cp_pending c)))
     \<and> (\<forall>c \<in> set cs. pc_kind (cp_pending c) = Action_Result \<longrightarrow> (\<exists>a \<in> set (prefix_actions p). is_result_of a (cp_pending c)))"

lemma prefix_actions_snoc [simp]:
  "prefix_actions (p\<lparr>cx_proposals := ps @ [q]\<rparr>) = prefix_actions (p\<lparr>cx_proposals := ps\<rparr>) @ apr_actions q"
  by (simp add: prefix_actions_def)

lemma prefix_actions_last:
  "cx_proposals p \<noteq> [] \<Longrightarrow>
   prefix_actions p = prefix_actions (p\<lparr>cx_proposals := butlast (cx_proposals p)\<rparr>) @ apr_actions (last (cx_proposals p))"
  by (cases "cx_proposals p" rule: rev_cases) (simp_all add: prefix_actions_def)

lemma load_result_rows:
  assumes "load_result s c = Inr s'" and "results_from_rows cs (ls_prefix s)" and k: "pc_kind c = Action_Result"
  shows "results_from_rows (cs @ [\<lparr>cp_sequence_no = i, cp_pending = c\<rparr>]) (ls_prefix s')"
proof -
  let ?p = "ls_prefix s"
  let ?q = "last (cx_proposals ?p)"
  from assms(1) obtain j r where ne: "cx_proposals ?p \<noteq> []" and j: "0 \<le> j" "j < int (length (apr_actions ?q))"
    and free: "aa_result (apr_actions ?q ! nat j) = None"
    and d: "decode_action_result (pc_payload c) = Some (aa_action_id (apr_actions ?q ! nat j), r)"
    and m: "matches_result c (new_action_result_checkpoint (apr_decision_no ?q) j (aa_action_id (apr_actions ?q ! nat j)) r)"
    and s': "s' = s\<lparr>ls_prefix := ?p\<lparr>cx_proposals := butlast (cx_proposals ?p) @ [set_result ?q (nat j) r]\<rparr>\<rparr>"
    by (auto simp: load_result_def Let_def not_less split: if_splits option.splits)
  have id: "pc_action_id c = aa_action_id (apr_actions ?q ! nat j)"
    using matches_result_Inr [OF m]
    by (auto simp: new_action_result_checkpoint_def checkpoint_matches_def result_simps Let_def split: if_splits)
  let ?old = "prefix_actions (?p\<lparr>cx_proposals := butlast (cx_proposals ?p)\<rparr>)"
  let ?a = "(apr_actions ?q ! nat j)\<lparr>aa_result := Some r\<rparr>"
  have before: "prefix_actions ?p = ?old @ apr_actions ?q" by (rule prefix_actions_last [OF ne])
  have after: "prefix_actions (ls_prefix s') = ?old @ (apr_actions ?q)[nat j := ?a]"
    by (simp add: s' set_result_def)
  have new: "is_result_of ?a c" using d id k by (simp add: is_result_of_def)
  have at: "nat j < length (apr_actions ?q)" using j by linarith
  have kept: "a \<in> set (prefix_actions (ls_prefix s'))" if "a \<in> set (prefix_actions ?p)" "aa_result a \<noteq> None" for a
  proof -
    from that(1) before consider "a \<in> set ?old" | n where "n < length (apr_actions ?q)" "a = apr_actions ?q ! n"
      by (auto simp: in_set_conv_nth)
    then show ?thesis
    proof cases
      case 2
      then have "n \<noteq> nat j" using that(2) free by auto
      with 2 have "(apr_actions ?q)[nat j := ?a] ! n = a" by simp
      with 2 show ?thesis unfolding after by (metis UnI2 length_list_update nth_mem set_append)
    qed (simp add: after)
  qed
  have "a = ?a \<or> a \<in> set (prefix_actions ?p)" if "a \<in> set (prefix_actions (ls_prefix s'))" for a
    using that before set_update_subset_insert [of "apr_actions ?q" "nat j" ?a] unfolding after by auto
  moreover have "?a \<in> set (prefix_actions (ls_prefix s'))"
    unfolding after using at by (simp add: set_update_memI)
  moreover have "aa_result a \<noteq> None" if "is_result_of a e" for a e
    using that by (auto simp: is_result_of_def split: option.splits)
  ultimately show ?thesis
    using assms(2) kept new unfolding results_from_rows_def by (auto, blast+)
qed

lemma load_other_rows:
  assumes "load_kind s c = Inr s'" and "results_from_rows cs (ls_prefix s)" and "pc_kind c \<noteq> Action_Result"
  shows "results_from_rows (cs @ [\<lparr>cp_sequence_no = i, cp_pending = c\<rparr>]) (ls_prefix s')"
proof -
  have "\<exists>as. prefix_actions (ls_prefix s') = prefix_actions (ls_prefix s) @ as \<and> (\<forall>a \<in> set as. aa_result a = None)"
    using assms(1,3)
    by (auto simp: load_kind_def load_proposal_def load_final_def load_steering_def Let_def prefix_actions_def
        split: checkpoint_kind.splits if_splits option.splits)
  then obtain as where as: "prefix_actions (ls_prefix s') = prefix_actions (ls_prefix s) @ as" "\<forall>a \<in> set as. aa_result a = None"
    by blast
  with assms(2,3) show ?thesis by (auto simp: results_from_rows_def)
qed

lemma load_run_rows: "load_run cs = Inr s \<Longrightarrow> results_from_rows cs (ls_prefix s)"
proof (induction cs arbitrary: s rule: rev_induct)
  case Nil
  then show ?case by (auto simp: load_run_def load_start_def empty_prefix_def results_from_rows_def prefix_actions_def)
next
  case (snoc c cs)
  then obtain t u where t: "load_run cs = Inr t" and u: "load_kind t (cp_pending c) = Inr u"
    and s: "ls_prefix s = ls_prefix u"
    by (auto simp: load_run_snoc result_simps load_step_def split: if_splits)
  have "c = \<lparr>cp_sequence_no = cp_sequence_no c, cp_pending = cp_pending c\<rparr>" by simp
  moreover have "load_result t (cp_pending c) = Inr u" if "pc_kind (cp_pending c) = Action_Result"
    using u that by (simp add: load_kind_def)
  ultimately show ?case
    using load_result_rows [OF _ snoc.IH [OF t]] load_other_rows [OF u snoc.IH [OF t]] unfolding s by metis
qed

lemma action_ids_unique:
  assumes wf: "prefix_wf p" and a: "a \<in> set (prefix_actions p)" and b: "b \<in> set (prefix_actions p)"
    and id: "aa_action_id a = aa_action_id b"
  shows "a = b"
proof -
  let ?ps = "cx_proposals p"
  obtain k i where k: "k < length ?ps" and i: "i < length (apr_actions (?ps ! k))" "a = apr_actions (?ps ! k) ! i"
    using a by (auto simp: prefix_actions_def in_set_conv_nth)
  obtain l j where l: "l < length ?ps" and j: "j < length (apr_actions (?ps ! l))" "b = apr_actions (?ps ! l) ! j"
    using b by (auto simp: prefix_actions_def in_set_conv_nth)
  have n: "apr_decision_no (?ps ! m) = int (Suc m)" if "m < length ?ps" for m
  proof -
    have "map apr_decision_no ?ps ! m = map int [1..<Suc (length ?ps)] ! m" using wf by (simp add: prefix_wf_def)
    with that show ?thesis by (simp del: upt_Suc)
  qed
  have w: "proposal_wf (?ps ! m)" if "m < length ?ps" for m
    using wf that by (simp add: prefix_wf_def list_all_length)
  have "aa_action_id a = action_key (int (Suc k)) (int i)" "aa_action_id b = action_key (int (Suc l)) (int j)"
    using w [OF k] w [OF l] i j n [OF k] n [OF l] by (auto simp: proposal_wf_def action_wf_def)
  with id have "action_key (int (Suc k)) (int i) = action_key (int (Suc l)) (int j)" by simp
  moreover have "cut_at (CHR ''/'') (action_key m (int q)) = Some (''decision:'' @ itoa m, ''action:'' @ itoa (int q))"
    if "0 \<le> m" for m q
  proof -
    have "CHR ''/'' \<notin> set (itoa m)"
      using itoa_decimal [OF that] by (auto simp: decimal_def in_range_def byte_def)
    then show ?thesis by (simp add: cut_at_Some action_key_def)
  qed
  ultimately have "(''decision:'' @ itoa (int (Suc k)), ''action:'' @ itoa (int i)) = (''decision:'' @ itoa (int (Suc l)), ''action:'' @ itoa (int j))"
    by (metis of_nat_0_le_iff option.inject)
  then have "k = l" "i = j" by simp_all
  with i j show ?thesis by simp
qed

lemma built_result_strict:
  assumes "built e" and "pc_kind e = Action_Result"
  shows "\<exists>i. pc_action_index e = Some i \<and> strict_result (pc_payload e)
    \<and> (\<exists>r. decode_action_result (pc_payload e) = Some (pc_action_id e, r)
         \<and> new_action_result_checkpoint (pc_decision_no e) i (pc_action_id e) r = Inr e)"
proof -
  from built_raw [OF assms(1)] obtain j where j: "pc_payload e = Raw j" by blast
  then have "e\<lparr>pc_payload := Raw j\<rparr> = e" by (cases e) simp
  with expected_built [OF assms(1) j same_value_refl] have "expected_stored e = Some (Inr e)" by simp
  with assms(2) show ?thesis
    by (auto simp: expected_stored_def j split: option.splits if_splits)
qed

lemma row_of_fields:
  "row_of c r \<Longrightarrow> pc_kind (cp_pending r) = pc_kind (cp_pending c) \<and> pc_action_id (cp_pending r) = pc_action_id (cp_pending c)"
  by (auto simp: row_of_def)

lemma read_accepted_result:
  assumes rep: "log_rep cs s" and p: "load_checkpoint_prefix cs = Inr p"
    and a: "a \<in> set (prefix_actions p)" and r: "aa_result a = Some r"
    and ids: "\<not> blank (rs_run_id s)" "\<not> blank (aa_action_id a)"
  shows "get_action_result s (rs_run_id s) (aa_action_id a) = Inr r"
proof -
  from p obtain t where t: "load_run cs = Inr t" "ls_prefix t = p" by (auto simp: load_prefix_state)
  have wf: "prefix_wf p" using load_run_inv [OF t(1)] t(2) by (simp add: load_inv_def)
  have src: "results_from_rows cs p" using load_run_rows [OF t(1)] t(2) by simp
  have rows: "list_all2 row_of cs (rs_rows s)" using rep by (simp add: log_rep_def)
  let ?P = "\<lambda>row. pc_action_id (cp_pending row) = aa_action_id a \<and> pc_kind (cp_pending row) = Action_Result"
  from src a r obtain c where "c \<in> set cs" and of: "is_result_of a (cp_pending c)" by (auto simp: results_from_rows_def)
  then obtain m where m: "m < length cs" "cs ! m = c" by (auto simp: in_set_conv_nth)
  then have "row_of c (rs_rows s ! m)" using list_all2_nthD [OF rows m(1)] by simp
  from row_of_fields [OF this] of have "?P (rs_rows s ! m)" by (simp add: is_result_of_def)
  moreover have "rs_rows s ! m \<in> set (rs_rows s)" using m list_all2_lengthD [OF rows] by simp
  ultimately have "\<exists>row \<in> set (rs_rows s). ?P row" by blast
  then obtain row where row: "find ?P (rs_rows s) = Some row" by (metis (mono_tags, lifting) find_None_iff option.exhaust)
  then obtain k where k: "k < length (rs_rows s)" "rs_rows s ! k = row" and P: "?P row" by (auto simp: find_Some_iff)
  have c0: "row_of (cs ! k) row" "cs ! k \<in> set cs" using list_all2_nthD2 [OF rows k(1)] list_all2_lengthD [OF rows] k by simp_all
  let ?e = "cp_pending (cs ! k)"
  have kind: "pc_kind ?e = Action_Result" "pc_action_id ?e = aa_action_id a" using row_of_fields [OF c0(1)] P by simp_all
  have built: "built ?e" using c0(1) by (simp add: row_of_def)
  from built_result_strict [OF built kind(1)] obtain i r0 where i: "pc_action_index ?e = Some i"
    and st: "strict_result (pc_payload ?e)" and d: "decode_action_result (pc_payload ?e) = Some (pc_action_id ?e, r0)"
    and new: "new_action_result_checkpoint (pc_decision_no ?e) i (pc_action_id ?e) r0 = Inr ?e"
    by blast
  from src c0(2) kind obtain b where b: "b \<in> set (prefix_actions p)" "is_result_of b ?e"
    by (auto simp: results_from_rows_def)
  have "aa_action_id b = aa_action_id a" using b(2) kind(2) by (simp add: is_result_of_def)
  with b(1) have "b = a" using wf a by (blast intro: action_ids_unique)
  with b(2) d r have "r0 = r" by (simp add: is_result_of_def)
  moreover from built_raw [OF built] have "matches_result ?e (Inr ?e)"
    by (auto simp: matches_result_def checkpoint_matches_refl)
  ultimately show ?thesis
    using ids row i st d new scan_row [OF c0(1)] by (simp add: get_action_result_def Let_def)
qed

section \<open>Closing keeps the log loading\<close>

lemma interrupted_ok: "action_result_ok interrupted_result"
  by code_simp

lemma interrupted_valid: "ar_error interrupted_result = Some e \<Longrightarrow> error_valid e"
  by (auto simp: interrupted_result_def enrich_action_domain_error_def action_error_catalog_def action_domain_error_def
      error_valid_def intro!: utf8_valid_ascii split: if_splits)

lemma insert_row_rep:
  assumes rep: "log_rep cs s" and jb: "jsonb_faithful jsonb" and t: "load_run cs = Inr t" and nf: "\<not> ls_final t"
    and u: "load_kind t c = Inr u" and b: "built c"
  shows "let x = \<lparr>cp_sequence_no = int (length cs) + 1, cp_pending = c\<rparr> in
    log_rep (cs @ [x]) (s\<lparr>rs_rows := rs_rows s @ [stored_row jsonb x]\<rparr>)
    \<and> (\<exists>v. load_run (cs @ [x]) = Inr v \<and> ls_prefix v = ls_prefix u)"
proof -
  let ?x = "\<lparr>cp_sequence_no = int (length cs) + 1, cp_pending = c\<rparr>"
  obtain i where i: "pc_payload c = Raw i" using built_raw [OF b] by blast
  have "row_of ?x (stored_row jsonb ?x)"
    using b i jb by (auto simp: row_of_def stored_row_def jsonb_faithful_def)
  moreover have v: "\<exists>v. load_run (cs @ [?x]) = Inr v \<and> ls_prefix v = ls_prefix u"
    using t u nf load_run_position [OF t] by (simp add: load_run_snoc load_step_def)
  moreover from v have "\<exists>q. load_checkpoint_prefix (cs @ [?x]) = Inr q" by (auto simp: load_prefix_state)
  ultimately show ?thesis using rep by (auto simp: Let_def log_rep_def list_all2_appendI)
qed

definition missing_actions :: "accepted_proposal \<Rightarrow> accepted_action list" where
  "missing_actions q = filter (\<lambda>a. aa_result a = None) (apr_actions q)"

lemma missing_step:
  assumes "missing_actions q = a # as"
  shows "\<exists>k. k < length (apr_actions q) \<and> apr_actions q ! k = a \<and> aa_result a = None
    \<and> (\<forall>r. missing_actions (set_result q k r) = as)"
proof -
  from assms obtain pre post where q: "apr_actions q = pre @ a # post" and "aa_result a = None"
    and pre: "\<forall>x \<in> set pre. aa_result x \<noteq> None" and "as = filter (\<lambda>a. aa_result a = None) post"
    by (auto simp: missing_actions_def filter_eq_Cons_iff)
  moreover have "missing_actions (set_result q (length pre) r) = filter (\<lambda>a. aa_result a = None) post" for r
    using pre by (simp add: missing_actions_def set_result_def q filter_empty_conv)
  ultimately show ?thesis by (intro exI [of _ "length pre"]) auto
qed

lemma missing_none: "missing_actions q = [] \<longleftrightarrow> proposal_complete q"
  by (auto simp: missing_actions_def proposal_complete_def action_complete_def filter_empty_conv list_all_iff)

lemma insert_closing_rep:
  assumes jb: "jsonb_faithful jsonb" and "log_rep cs s" and "load_run cs = Inr t" and "cx_proposals (ls_prefix t) \<noteq> []"
    and "as = missing_actions (last (cx_proposals (ls_prefix t)))" and "n = apr_decision_no (last (cx_proposals (ls_prefix t)))"
  shows "\<exists>s' ns t'. insert_closing jsonb n (int (length cs)) as s = Inr s' \<and> log_rep (cs @ ns) s' \<and> load_run (cs @ ns) = Inr t'
    \<and> steps_complete (ls_prefix t') \<and> length ns = length as \<and> s' = s\<lparr>rs_rows := rs_rows s'\<rparr>
    \<and> ls_prefix t' = (ls_prefix t)\<lparr>cx_proposals := cx_proposals (ls_prefix t')\<rparr>
    \<and> map apr_decision_no (cx_proposals (ls_prefix t')) = map apr_decision_no (cx_proposals (ls_prefix t))"
  using assms(2-)
proof (induction as arbitrary: cs s t)
  case Nil
  let ?p = "ls_prefix t"
  have wf: "prefix_wf ?p" using load_run_inv [OF Nil.prems(2)] by (simp add: load_inv_def)
  have "proposal_complete (last (cx_proposals ?p))" using Nil.prems(4) missing_none by metis
  with wf Nil.prems(3) have "steps_complete ?p"
    by (auto simp: steps_complete_def prefix_wf_def intro: list_all_butlast_last)
  with Nil show ?case by (intro exI [of _ s] exI [of _ "[]"] exI [of _ t]) simp
next
  case (Cons a as)
  let ?p = "ls_prefix t" and ?q = "last (cx_proposals (ls_prefix t))"
  have inv: "load_inv t" using load_run_inv [OF Cons.prems(2)] .
  then have wf: "prefix_wf ?p" and nx: "ls_next t = cx_decisions ?p + 1" by (simp_all add: load_inv_def)
  have q: "?q \<in> set (cx_proposals ?p)" using Cons.prems(3) by simp
  then have pw: "proposal_wf ?q" using wf by (auto simp: prefix_wf_def list_all_iff)
  have "\<not> proposal_complete ?q" using Cons.prems(4) missing_none [of ?q] by auto
  with wf q have "cx_final ?p = None" by (auto simp: prefix_wf_def list_all_iff split: option.splits)
  with inv have nf: "\<not> ls_final t" by (simp add: load_inv_def)
  from missing_step [OF Cons.prems(4) [symmetric]] obtain k where k: "k < length (apr_actions ?q)" "apr_actions ?q ! k = a"
    "aa_result a = None" and rest: "\<And>r. missing_actions (set_result ?q k r) = as"
    by blast
  have aw: "action_wf n k a" using pw k Cons.prems(5) by (auto simp: proposal_wf_def)
  then have idx: "aa_index a = int k" by (simp add: action_wf_def)
  have n: "1 \<le> n" using pw Cons.prems(5) by (simp add: proposal_wf_def)
  have "action_wf n k (a\<lparr>aa_result := Some interrupted_result\<rparr>)"
    using aw interrupted_ok by (simp add: action_wf_def)
  from new_result_accepted [OF n this] obtain c where
    c: "new_action_result_checkpoint n (int k) (aa_action_id a) interrupted_result = Inr c"
    using idx by auto
  have "outcome_checkpoint ?p (Accept_Result k interrupted_result) = Inr c"
    using c k Cons.prems(5) by simp
  moreover have "outcome_allowed ?p (Accept_Result k interrupted_result)"
    using Cons.prems(3) k interrupted_valid by (auto split: option.split)
  ultimately obtain u where u: "load_kind t c = Inr u"
    and pu: "ls_prefix u = apply_outcome ?p (Accept_Result k interrupted_result)"
    using load_outcome nx by blast
  have "built c" unfolding built_def using c interrupted_valid by blast
  note step = insert_row_rep [OF Cons.prems(1) jb Cons.prems(2) nf u this, unfolded Let_def]
  let ?x = "\<lparr>cp_sequence_no = int (length cs) + 1, cp_pending = c\<rparr>"
  let ?s = "s\<lparr>rs_rows := rs_rows s @ [stored_row jsonb ?x]\<rparr>"
  let ?r = "set_result ?q k (stored_result interrupted_result)"
  from step obtain v where v: "load_run (cs @ [?x]) = Inr v" "ls_prefix v = ls_prefix u" and rep: "log_rep (cs @ [?x]) ?s"
    by blast
  have ps: "cx_proposals (ls_prefix v) = butlast (cx_proposals ?p) @ [?r]" by (simp add: v pu)
  have nums: "map apr_decision_no (cx_proposals (ls_prefix v)) = map apr_decision_no (cx_proposals ?p)"
    using Cons.prems(3) by (cases "cx_proposals ?p" rule: rev_cases) (simp_all add: ps complete_set_result)
  have "\<exists>s' ns t'. insert_closing jsonb n (int (length (cs @ [?x]))) as ?s = Inr s' \<and> log_rep ((cs @ [?x]) @ ns) s'
    \<and> load_run ((cs @ [?x]) @ ns) = Inr t'
    \<and> steps_complete (ls_prefix t') \<and> length ns = length as \<and> s' = ?s\<lparr>rs_rows := rs_rows s'\<rparr>
    \<and> ls_prefix t' = (ls_prefix v)\<lparr>cx_proposals := cx_proposals (ls_prefix t')\<rparr>
    \<and> map apr_decision_no (cx_proposals (ls_prefix t')) = map apr_decision_no (cx_proposals (ls_prefix v))"
    using rest Cons.prems(5) by (intro Cons.IH rep v) (simp_all add: ps complete_set_result)
  then obtain s' ns t' where done': "insert_closing jsonb n (int (length cs) + 1) as ?s = Inr s'"
    "log_rep ((cs @ [?x]) @ ns) s'" "load_run ((cs @ [?x]) @ ns) = Inr t'"
    "steps_complete (ls_prefix t')" "length ns = length as" "s' = ?s\<lparr>rs_rows := rs_rows s'\<rparr>"
    "ls_prefix t' = (ls_prefix v)\<lparr>cx_proposals := cx_proposals (ls_prefix t')\<rparr>"
    "map apr_decision_no (cx_proposals (ls_prefix t')) = map apr_decision_no (cx_proposals (ls_prefix v))"
    by (auto simp: add.commute)
  have "ls_prefix t' = ?p\<lparr>cx_proposals := cx_proposals (ls_prefix t')\<rparr>" using done'(7) by (simp add: v pu)
  moreover have "s' = s\<lparr>rs_rows := rs_rows s'\<rparr>" using done'(6) by simp
  ultimately show ?case
    using done' c idx nums
    by (intro exI [of _ s'] exI [of _ "?x # ns"] exI [of _ t']) simp
qed

section \<open>A Run that ended inside a step\<close>

definition ended_store :: "pending_checkpoint \<Rightarrow> run_store" where
  "ended_store c = sample_store\<lparr>rs_status := ''failed'',
     rs_rows := [stored_row canon \<lparr>cp_sequence_no = 1, cp_pending = c\<rparr>]\<rparr>"

lemma ended_sample:
  "\<exists>c p. load_checkpoint_prefix [\<lparr>cp_sequence_no = 1, cp_pending = c\<rparr>] = Inr p
    \<and> log_rep [\<lparr>cp_sequence_no = 1, cp_pending = c\<rparr>] (ended_store c) \<and> \<not> steps_complete p"
proof -
  obtain c where c: "new_proposal_checkpoint 1 sample_actions = Inr c" using sample_proposal by blast
  let ?t = load_start
  have t: "load_run [] = Inr ?t" by (simp add: load_run_def)
  have "\<exists>u. load_kind ?t c = Inr u \<and> ls_prefix u = apply_outcome empty_prefix (Accept_Proposal sample_actions)"
    using load_outcome [of ?t "Accept_Proposal sample_actions" c] c
    by (simp add: load_start_def empty_prefix_def has_incomplete_proposal_def)
  then obtain u where u: "load_kind ?t c = Inr u" "ls_prefix u = apply_outcome empty_prefix (Accept_Proposal sample_actions)"
    by blast
  have b: "built c" using c by (auto simp: built_def)
  let ?s = "sample_store\<lparr>rs_status := ''failed'', rs_rows := []\<rparr>"
  have "log_rep [] ?s" by (rule empty_log_rep) simp
  from insert_row_rep [OF this canon_faithful t _ u(1) b] obtain v where
    "log_rep [\<lparr>cp_sequence_no = 1, cp_pending = c\<rparr>] (?s\<lparr>rs_rows := [stored_row canon \<lparr>cp_sequence_no = 1, cp_pending = c\<rparr>]\<rparr>)"
    "load_run [\<lparr>cp_sequence_no = 1, cp_pending = c\<rparr>] = Inr v" "ls_prefix v = ls_prefix u"
    by (auto simp: Let_def load_start_def)
  moreover have "\<not> steps_complete (ls_prefix u)"
    by (simp add: u steps_complete_def empty_prefix_def proposal_of_def proposal_complete_def action_complete_def sample_actions_def)
  ultimately show ?thesis by (auto simp: load_prefix_state ended_store_def)
qed

section \<open>Properties\<close>


text \<open>
  C30: nothing an aged or compacted context refers to is lost. For every accepted Action of a Run that
  has a result, reading the Action's result from the store gives exactly that result.
\<close>

theorem accepted_result_is_readable:
  assumes "log_rep cs s" and "load_checkpoint_prefix cs = Inr p"
    and "a \<in> set (prefix_actions p)" and "aa_result a = Some r"
    and "\<not> blank (rs_run_id s)" and "\<not> blank (aa_action_id a)"
  shows "get_action_result s (rs_run_id s) (aa_action_id a) = Inr r"
  using assms by (rule read_accepted_result)




theorem accepted_result_is_readable_witness:
  "\<exists>s k r. get_action_result s ''r'' k = Inr r"
proof -
  obtain c p where c: "load_checkpoint_prefix [\<lparr>cp_sequence_no = 1, cp_pending = c\<rparr>] = Inr p"
    "log_rep [\<lparr>cp_sequence_no = 1, cp_pending = c\<rparr>] (ended_store c)" "\<not> steps_complete p"
    using ended_sample by blast
  then obtain t where t: "load_run [\<lparr>cp_sequence_no = 1, cp_pending = c\<rparr>] = Inr t" "ls_prefix t = p"
    by (auto simp: load_prefix_state)
  have wf: "prefix_wf p" using load_run_inv [OF t(1)] t(2) by (simp add: load_inv_def)
  have ne: "cx_proposals p \<noteq> []" using c(3) by (auto simp: steps_complete_def)
  then have "cx_proposals (ls_prefix t) \<noteq> []" using t(2) by simp
  from insert_closing_rep [OF canon_faithful c(2) t(1) this refl refl] obtain s' ns t' where
    rep: "log_rep ([\<lparr>cp_sequence_no = 1, cp_pending = c\<rparr>] @ ns) s'" and q: "load_run ([\<lparr>cp_sequence_no = 1, cp_pending = c\<rparr>] @ ns) = Inr t'"
    and complete: "steps_complete (ls_prefix t')" and s': "s' = (ended_store c)\<lparr>rs_rows := rs_rows s'\<rparr>"
    and nums: "map apr_decision_no (cx_proposals (ls_prefix t')) = map apr_decision_no (cx_proposals (ls_prefix t))"
    by blast
  have wf': "prefix_wf (ls_prefix t')" using load_run_inv [OF q] by (simp add: load_inv_def)
  from nums ne t(2) obtain q0 qs where qs: "cx_proposals (ls_prefix t') = q0 # qs"
    by (cases "cx_proposals (ls_prefix t')") auto
  with wf' have "proposal_wf q0" by (simp add: prefix_wf_def)
  then have full: "apr_actions q0 \<noteq> []" and w: "action_wf (apr_decision_no q0) 0 (apr_actions q0 ! 0)"
    by (auto simp: proposal_wf_def)
  obtain a xs where a: "apr_actions q0 = a # xs" using full by (cases "apr_actions q0") auto
  have id: "aa_action_id a = action_key (apr_decision_no q0) 0" using w a by (simp add: action_wf_def)
  obtain r where r: "aa_result a = Some r"
    using complete qs a by (auto simp: steps_complete_def proposal_complete_def action_complete_def)
  have ra: "a \<in> set (prefix_actions (ls_prefix t'))" by (simp add: prefix_actions_def qs a)
  have "rs_run_id s' = ''r''" by (subst s') (simp add: ended_store_def sample_store_def)
  moreover have "\<not> blank ''r''" by (rule not_blank_letter) simp
  moreover have "\<not> blank (aa_action_id a)" unfolding id action_key_def by (rule not_blank_letter) simp
  moreover have "load_checkpoint_prefix ([\<lparr>cp_sequence_no = 1, cp_pending = c\<rparr>] @ ns) = Inr (ls_prefix t')"
    using q by (simp add: load_prefix_state)
  ultimately show ?thesis using accepted_result_is_readable [OF rep _ ra r] by metis
qed

end
