(* ===== verification/Decision_Request.thy ===== *)
theory Decision_Request
  imports Result_Aging Agent_Runtime
begin

text \<open>
  The request of one decision (\<open>internal/agent/postgres_compaction.go\<close>, with \<open>token_budget.go\<close> and
  \<open>FinalizeDecisionRequest\<close> of \<open>postgres_todo_status.go\<close>): the projected lane, compacted when it is too
  large, is aged, given the current Agent Status and measured. Compactions of a Chat are rows that are
  only ever added. The summarizing model, the rendered status, the classification of CJK runes and what
  other transactions do meanwhile are parameters; tracing and telemetry are left out.
\<close>

section \<open>Requests and their size\<close>

record action_definition =
  ad_name :: gostring
  ad_description :: gostring
  ad_schema :: raw

record decision_request =
  dr_model :: gostring
  dr_messages :: "model_message list"
  dr_definitions :: "action_definition list"
  dr_required_action :: gostring
  dr_max_output :: int

definition build_projected_request ::
  "gostring \<Rightarrow> gostring \<Rightarrow> context_unit list \<Rightarrow> action_definition list \<Rightarrow> decision_request" where
  "build_projected_request model system_prompt us definitions =
     \<lparr>dr_model = model, dr_messages = plain_message Role_System system_prompt # flatten_context_units us,
      dr_definitions = definitions, dr_required_action = [], dr_max_output = 0\<rparr>"

definition valid_raw :: "raw \<Rightarrow> json option" where
  "valid_raw r = (case r of Raw j \<Rightarrow> Some j | _ \<Rightarrow> None)"

definition call_json :: "model_action_call \<Rightarrow> json option" where
  "call_json c = map_option (\<lambda>j. JObj [(''id'', marshal_string (mc_id c)), (''name'', marshal_string (mc_name c)), (''input'', j)])
     (valid_raw (mc_input c))"

definition envelope_message_json :: "model_message \<Rightarrow> json option" where
  "envelope_message_json m =
     map_option (\<lambda>calls. JObj ([(''role'', marshal_string (role_text (mm_role m)))]
         @ opt_member ''content'' (content_text (mm_content m))
         @ (if calls = [] then [] else [(''action_calls'', JArr calls)])
         @ opt_member ''action_call_id'' (mm_call_id m)))
       (all_some (map call_json (mm_calls m)))"

definition definition_json :: "action_definition \<Rightarrow> json option" where
  "definition_json d = map_option (\<lambda>j. JObj [(''name'', marshal_string (ad_name d)),
       (''description'', marshal_string (ad_description d)), (''input_schema'', j)]) (valid_raw (ad_schema d))"

definition request_json :: "decision_request \<Rightarrow> json option" where
  "request_json q =
     (case (all_some (map envelope_message_json (dr_messages q)), all_some (map definition_json (dr_definitions q))) of
        (Some ms, Some ds) \<Rightarrow>
          Some (JObj ([(''model'', marshal_string (dr_model q)), (''messages'', if ms = [] then JNull else JArr ms)]
            @ (if ds = [] then [] else [(''action_definitions'', JArr ds)])
            @ opt_member ''required_action_name'' (dr_required_action q)
            @ [(''max_output_tokens'', marshal_int (dr_max_output q))]))
      | _ \<Rightarrow> None)"

definition estimate_request_tokens :: "(gostring \<Rightarrow> bool) \<Rightarrow> decision_request \<Rightarrow> int option" where
  "estimate_request_tokens cjk q =
     map_option (\<lambda>j.
         let rs = runes (json_text j);
             wide = int (length (filter cjk rs)); characters = int (length rs) - wide in
         max 1 ((characters + 3) div 4 + wide))
       (request_json q)"

section \<open>The current Agent Status\<close>

definition status_open :: gostring where
  "status_open = ''<agent_status version='' @ [CHR 0x22] @ ''1'' @ [CHR 0x22] @ ''>''"

definition status_close :: gostring where "status_close = ''</agent_status>''"

definition stale_status :: "model_message \<Rightarrow> bool" where
  "stale_status m \<longleftrightarrow> mm_role m = Role_User \<and> prefix status_open (content_text (mm_content m))
     \<and> suffix status_close (content_text (mm_content m))"

definition finalize_decision_request :: "gostring \<Rightarrow> decision_request \<Rightarrow> decision_request" where
  "finalize_decision_request status q =
     q\<lparr>dr_messages := filter (\<lambda>m. \<not> stale_status m) (dr_messages q) @ [plain_message Role_User status]\<rparr>"

section \<open>The rows of compactions\<close>

record compaction_row =
  cr_chat :: gostring
  cr_created :: int
  cr_value :: context_compaction

definition newer :: "compaction_row \<Rightarrow> compaction_row \<Rightarrow> bool" where
  "newer a b \<longleftrightarrow> cr_created b < cr_created a \<or> (cr_created b = cr_created a \<and> co_id (cr_value b) < co_id (cr_value a))"

text \<open>\<open>order by created_at desc, id desc limit 1\<close>\<close>

fun latest_of :: "compaction_row list \<Rightarrow> compaction_row option" where
  "latest_of [] = None"
| "latest_of (r # rs) = (case latest_of rs of None \<Rightarrow> Some r | Some b \<Rightarrow> if newer r b then Some r else Some b)"

definition load_latest_context_compaction :: "gostring \<Rightarrow> compaction_row list \<Rightarrow> context_compaction option" where
  "load_latest_context_compaction chat rows = map_option cr_value (latest_of (filter (\<lambda>r. cr_chat r = chat) rows))"

definition idempotency_key :: "context_compaction \<Rightarrow> gostring" where
  "idempotency_key c = (if prefix ''cmp_'' (co_id c) then drop 4 (co_id c) else co_id c)"

datatype request_error =
    Request_Budget_Exceeded
  | Request_Projection projection_error
  | Missing_Predecessor
  | Invalid_Trigger
  | Request_Not_Encodable
  | Authority_Lost store_error
  | Summarizer_Failed gostring
  | No_Final_Summary
  | Empty_Summary

text \<open>\<open>insert ... on conflict(idempotency_key) do nothing\<close>, then the row of that key is read.\<close>

definition insert_compaction ::
  "gostring \<Rightarrow> int \<Rightarrow> context_compaction \<Rightarrow> compaction_row list
   \<Rightarrow> compaction_row list \<times> (request_error, context_compaction) result" where
  "insert_compaction chat now c rows =
     (case find (\<lambda>r. idempotency_key (cr_value r) = idempotency_key c) rows of
        Some r \<Rightarrow> (rows, Inr (cr_value r))
      | None \<Rightarrow> (rows @ [\<lparr>cr_chat = chat, cr_created = now, cr_value = c\<rparr>], Inr c))"

definition append_context_compaction ::
  "gostring \<Rightarrow> int \<Rightarrow> context_compaction \<Rightarrow> compaction_row list
   \<Rightarrow> compaction_row list \<times> (request_error, context_compaction) result" where
  "append_context_compaction chat now c rows =
     (case load_latest_context_compaction chat rows of
        Some current \<Rightarrow>
          if co_id current \<noteq> co_predecessor_id c then (rows, Inr current)
          else insert_compaction chat now c rows
      | None \<Rightarrow>
          if co_predecessor_id c \<noteq> [] then (rows, Inl Missing_Predecessor)
          else insert_compaction chat now c rows)"

section \<open>Summarizing\<close>

definition max_compaction_result_chars :: nat where "max_compaction_result_chars = 2000"

definition summary_content :: "model_message \<Rightarrow> gostring" where
  "summary_content m =
     (let t = content_text (mm_content m) in
      if mm_role m = Role_Action \<and> rune_count t > max_compaction_result_chars
      then first_runes max_compaction_result_chars t @ ''...[truncated for summary input]'' else t)"

text \<open>\<open>ModelActionCall\<close> has no JSON names of its own; a nil \<open>RawMessage\<close> is written as null.\<close>

definition raw_json :: "raw \<Rightarrow> json option" where
  "raw_json r = (case r of Raw j \<Rightarrow> Some j | Raw_Empty \<Rightarrow> Some JNull | Raw_Malformed \<Rightarrow> None)"

definition summary_call_json :: "model_action_call \<Rightarrow> json option" where
  "summary_call_json c = map_option (\<lambda>j. JObj [(''ID'', marshal_string (mc_id c)), (''Name'', marshal_string (mc_name c)), (''Input'', j)])
     (raw_json (mc_input c))"

definition summary_message_json :: "model_message \<Rightarrow> json option" where
  "summary_message_json m =
     map_option (\<lambda>calls. JObj ([(''role'', marshal_string (role_text (mm_role m)))]
         @ opt_member ''content'' (summary_content m)
         @ (if calls = [] then [] else [(''action_calls'', JArr calls)])
         @ opt_member ''action_call_id'' (mm_call_id m)))
       (all_some (map summary_call_json (mm_calls m)))"

definition serialize_compaction_input :: "context_unit list \<Rightarrow> json option" where
  "serialize_compaction_input us = map_option JArr (all_some (map summary_message_json (flatten_context_units us)))"

definition generate_context_summary ::
  "(json \<Rightarrow> (gostring, model_decision) result) \<Rightarrow> context_unit list \<Rightarrow> (request_error, gostring) result" where
  "generate_context_summary decide us =
     (case serialize_compaction_input us of
        None \<Rightarrow> Inl Request_Not_Encodable
      | Some payload \<Rightarrow>
          (case decide payload of
             Inl e \<Rightarrow> Inl (Summarizer_Failed e)
           | Inr d \<Rightarrow>
               if \<not> model_decision_ok d then Inl No_Final_Summary
               else (case md_final d of
                   None \<Rightarrow> Inl No_Final_Summary
                 | Some t \<Rightarrow> if trim_space t = [] then Inl Empty_Summary else Inr (trim_space t))))"

definition compaction_identity :: "gostring \<Rightarrow> context_compaction \<Rightarrow> gostring \<Rightarrow> gostring" where
  "compaction_identity chat c policy_sha =
     ''cmp_'' @ sha256_hex (chat @ [CHR 0x00] @ co_predecessor_id c @ [CHR 0x00] @ co_summarized_through c
       @ [CHR 0x00] @ co_suffix_start c @ [CHR 0x00] @ policy_sha)"

section \<open>Preparing the request\<close>

text \<open>
  What surrounds one preparation: the pins of the execution, the rendered status at each of the up to
  three times a request is finalized, the summarizing model, the two checks of the attempt's authority,
  what other transactions do to the rows before the append, and the time of the append.
\<close>

record request_env =
  re_model :: gostring
  re_chat :: gostring
  re_system_prompt :: gostring
  re_definitions :: "action_definition list"
  re_max_output :: int
  re_budgets :: context_budgets
  re_keep_recent :: int
  re_policy_sha :: gostring
  re_aging :: "aging_policy option"
  re_cjk :: "gostring \<Rightarrow> bool"
  re_status :: "nat \<Rightarrow> (request_error, gostring) result"
  re_summarizer :: "(json \<Rightarrow> (gostring, model_decision) result) option"
  re_authority :: "nat \<Rightarrow> store_error option"
  re_between :: "compaction_row list \<Rightarrow> compaction_row list"
  re_now :: int

definition sized_request ::
  "request_env \<Rightarrow> nat \<Rightarrow> context_unit list \<Rightarrow> (request_error, decision_request \<times> int) result" where
  "sized_request env n us =
     (let q = (build_projected_request (re_model env) (re_system_prompt env) (fst (aged_request_units (re_aging env) us))
                 (re_definitions env))\<lparr>dr_max_output := re_max_output env\<rparr> in
      bind_result (re_status env n) (\<lambda>status.
        let q' = finalize_decision_request status q in
        case estimate_request_tokens (re_cjk env) q' of
          None \<Rightarrow> Inl Request_Not_Encodable
        | Some t \<Rightarrow> Inr (q', t)))"

definition apply_latest ::
  "context_unit list \<Rightarrow> context_compaction option \<Rightarrow> (request_error, context_unit list) result" where
  "apply_latest us latest =
     (case latest of
        None \<Rightarrow> Inr us
      | Some c \<Rightarrow>
          (case apply_context_compaction us c of Inl e \<Rightarrow> Inl (Request_Projection e) | Inr vs \<Rightarrow> Inr vs))"

text \<open>The units to summarize: those before the cut, with the prior summary in place of what it covers.\<close>

definition units_to_summarize ::
  "context_unit list \<Rightarrow> nat \<Rightarrow> context_compaction option \<Rightarrow> (request_error, context_unit list) result" where
  "units_to_summarize us at latest =
     (case latest of
        None \<Rightarrow> Inr (take at us)
      | Some c \<Rightarrow>
          (case context_unit_index us (co_suffix_start c) of
             None \<Rightarrow> Inl Request_Budget_Exceeded
           | Some old \<Rightarrow>
               if old < 1 \<or> at \<le> old then Inl Request_Budget_Exceeded
               else Inr (summary_unit (co_summary c) # drop old (take at us))))"

definition check_request_authority :: "request_env \<Rightarrow> nat \<Rightarrow> (request_error, unit) result" where
  "check_request_authority env n = (case re_authority env n of None \<Rightarrow> Inr () | Some e \<Rightarrow> Inl (Authority_Lost e))"

definition compaction_candidate ::
  "request_env \<Rightarrow> context_unit list \<Rightarrow> context_compaction option \<Rightarrow> gostring \<Rightarrow> int
   \<Rightarrow> (json \<Rightarrow> (gostring, model_decision) result) \<Rightarrow> (request_error, context_compaction) result" where
  "compaction_candidate env us latest reason before decide =
     (case select_compaction_cut us (re_keep_recent env) of
        Inl _ \<Rightarrow> Inl Request_Budget_Exceeded
      | Inr at \<Rightarrow>
          bind_result (units_to_summarize us at latest) (\<lambda>old.
          bind_result (check_request_authority env 0) (\<lambda>_.
          bind_result (generate_context_summary decide old) (\<lambda>summary.
            let c = cut_compaction us at summary \<lparr>co_id = [],
                  co_predecessor_id = (case latest of None \<Rightarrow> [] | Some l \<Rightarrow> co_id l), co_summary = [],
                  co_summarized_through = [], co_suffix_start = [], co_trigger_reason = reason,
                  co_before_tokens = before, co_after_tokens = 0\<rparr> in
            Inr (c\<lparr>co_id := compaction_identity (re_chat env) c (re_policy_sha env)\<rparr>)))))"

definition accept_compaction ::
  "request_env \<Rightarrow> context_unit list \<Rightarrow> int \<Rightarrow> context_compaction \<Rightarrow> compaction_row list
   \<Rightarrow> compaction_row list \<times> (request_error, decision_request) result" where
  "accept_compaction env us before candidate rows =
     (case bind_result (apply_latest us (Some candidate)) (sized_request env 1) of
        Inl e \<Rightarrow> (rows, Inl e)
      | Inr (_, after) \<Rightarrow>
          if after > cb_safe_input (re_budgets env) \<or> after \<ge> before then (rows, Inl Request_Budget_Exceeded)
          else (case check_request_authority env 1 of
              Inl e \<Rightarrow> (rows, Inl e)
            | Inr _ \<Rightarrow>
                (case append_context_compaction (re_chat env) (re_now env) (candidate\<lparr>co_after_tokens := after\<rparr>)
                        (re_between env rows) of
                   (rows', Inl e) \<Rightarrow> (rows', Inl e)
                 | (rows', Inr accepted) \<Rightarrow>
                     (case bind_result (apply_latest us (Some accepted)) (sized_request env 2) of
                        Inl e \<Rightarrow> (rows', Inl e)
                      | Inr (q, t) \<Rightarrow>
                          (rows', if t > cb_safe_input (re_budgets env) then Inl Request_Budget_Exceeded else Inr q)))))"

definition prepare_decision_request ::
  "request_env \<Rightarrow> (projection_error, context_unit list) result \<Rightarrow> gostring \<Rightarrow> compaction_row list
   \<Rightarrow> compaction_row list \<times> (request_error, decision_request) result" where
  "prepare_decision_request env lane trigger rows =
     (case lane of
        Inl e \<Rightarrow> (rows, Inl (Request_Projection e))
      | Inr us \<Rightarrow>
          let latest = load_latest_context_compaction (re_chat env) rows in
          (case bind_result (apply_latest us latest) (sized_request env 0) of
             Inl e \<Rightarrow> (rows, Inl e)
           | Inr (q, before) \<Rightarrow>
               if trigger = [] \<and> before \<le> cb_trigger (re_budgets env) then (rows, Inr q)
               else
                 let reason = (if trigger = [] then ''threshold'' else trigger) in
                 if reason \<noteq> ''threshold'' \<and> reason \<noteq> ''provider_overflow'' then (rows, Inl Invalid_Trigger)
                 else (case re_summarizer env of
                     None \<Rightarrow> (rows, Inl Request_Budget_Exceeded)
                   | Some decide \<Rightarrow>
                       if re_keep_recent env < 1 then (rows, Inl Request_Budget_Exceeded)
                       else (case compaction_candidate env us latest reason before decide of
                           Inl e \<Rightarrow> (rows, Inl e)
                         | Inr candidate \<Rightarrow> accept_compaction env us before candidate rows))))"

section \<open>The request is a conversation\<close>

lemma conversation_filter:
  assumes "conversation pending ms" and "\<forall>m \<in> set ms. mm_role m = Role_User \<longrightarrow> mm_calls m = []"
  shows "conversation pending (filter (\<lambda>m. \<not> stale_status m) ms)"
  using assms
  by (induction pending ms rule: conversation.induct) (auto simp: stale_status_def split: list.splits if_splits)

definition closed_request :: "gostring \<Rightarrow> decision_request \<Rightarrow> bool" where
  "closed_request system_prompt q \<longleftrightarrow>
     conversation [] (dr_messages q)
     \<and> (\<exists>ms status. dr_messages q = plain_message Role_System system_prompt # ms @ [plain_message Role_User status]
          \<and> \<not> list_ex stale_status ms)"

lemma aged_closed: "list_all unit_closed us \<Longrightarrow> list_all unit_closed (fst (aged_request_units aging us))"
  by (simp add: aged_request_units_def age_old_eq age_first_closed split: option.split)

lemma sized_request_closed:
  assumes r: "sized_request env n us = Inr (q, t)" and us: "list_all unit_closed us"
  shows "closed_request (re_system_prompt env) q \<and> estimate_request_tokens (re_cjk env) q = Some t"
proof -
  let ?vs = "fst (aged_request_units (re_aging env) us)"
  let ?ms = "flatten_context_units ?vs"
  from r obtain status where q: "dr_messages q = filter (\<lambda>m. \<not> stale_status m) (plain_message Role_System (re_system_prompt env) # ?ms)
      @ [plain_message Role_User status]"
    and t: "estimate_request_tokens (re_cjk env) q = Some t"
    by (auto simp: sized_request_def result_simps Let_def finalize_decision_request_def build_projected_request_def
        split: option.splits)
  have vs: "list_all unit_closed ?vs" using aged_closed [OF us] .
  have "\<forall>m \<in> set ?ms. mm_role m = Role_User \<longrightarrow> mm_calls m = []"
    using vs by (auto simp: flatten_context_units_def list_all_iff unit_closed_def)
  with closed_units_conversation [OF vs] have c: "conversation [] (filter (\<lambda>m. \<not> stale_status m) ?ms)"
    by (rule conversation_filter)
  have sys: "\<not> stale_status (plain_message Role_System (re_system_prompt env))" by (simp add: stale_status_def)
  have ex: "\<not> list_ex stale_status (filter (\<lambda>m. \<not> stale_status m) ?ms)" by (auto simp: list_ex_iff)
  have "conversation [] (dr_messages q)" using c by (simp add: q sys conversation_append)
  with sys ex t show ?thesis unfolding closed_request_def q by auto
qed

lemma apply_latest_closed:
  assumes "apply_latest us latest = Inr vs" and "list_all unit_closed us"
  shows "list_all unit_closed vs"
proof (cases latest)
  case (Some c)
  then obtain i body where "vs = summary_unit body # drop i us"
    using assms(1) apply_compaction_suffix [of us c vs] by (auto simp: apply_latest_def split: sum.splits)
  with assms(2) show ?thesis by (auto simp: list_all_iff dest: in_set_dropD)
qed (use assms in \<open>simp add: apply_latest_def\<close>)

lemma accept_compaction_sound:
  assumes "accept_compaction env us before candidate rows = (rows', Inr q)" and us: "list_all unit_closed us"
  shows "closed_request (re_system_prompt env) q
    \<and> (\<exists>t. estimate_request_tokens (re_cjk env) q = Some t \<and> t \<le> cb_safe_input (re_budgets env))"
proof -
  from assms(1) obtain accepted t where "bind_result (apply_latest us (Some accepted)) (sized_request env 2) = Inr (q, t)"
    and t: "\<not> t > cb_safe_input (re_budgets env)"
    by (auto simp: accept_compaction_def Let_def split: sum.splits prod.splits if_splits)
  then obtain vs where vs: "apply_latest us (Some accepted) = Inr vs" and s: "sized_request env 2 vs = Inr (q, t)"
    by (auto simp: result_simps)
  from sized_request_closed [OF s apply_latest_closed [OF vs us]] t show ?thesis by auto
qed

lemma prepared_sound:
  assumes p: "prepare_decision_request env (Inr us) trigger rows = (rows', Inr q)" and us: "list_all unit_closed us"
    and b: "cb_trigger (re_budgets env) \<le> cb_safe_input (re_budgets env)"
  shows "closed_request (re_system_prompt env) q
    \<and> (\<exists>t. estimate_request_tokens (re_cjk env) q = Some t \<and> t \<le> cb_safe_input (re_budgets env))"
proof -
  let ?latest = "load_latest_context_compaction (re_chat env) rows"
  from p obtain q0 before where f: "bind_result (apply_latest us ?latest) (sized_request env 0) = Inr (q0, before)"
    by (auto simp: prepare_decision_request_def Let_def split: sum.splits)
  then obtain vs where vs: "apply_latest us ?latest = Inr vs" and s: "sized_request env 0 vs = Inr (q0, before)"
    by (auto simp: result_simps)
  show ?thesis
  proof (cases "trigger = [] \<and> before \<le> cb_trigger (re_budgets env)")
    case True
    with p f have "q = q0" by (simp add: prepare_decision_request_def Let_def)
    with sized_request_closed [OF s apply_latest_closed [OF vs us]] True b show ?thesis by auto
  next
    case False
    with p f obtain candidate where "accept_compaction env us before candidate rows = (rows', Inr q)"
      by (auto simp: prepare_decision_request_def Let_def split: sum.splits option.splits if_splits)
    with us show ?thesis by (rule accept_compaction_sound [rotated])
  qed
qed

section \<open>The compactions of a Chat\<close>

text \<open>
  The rows that any interleaving of attempts can produce. A candidate names the compaction it was built
  from, which its attempt had read in an earlier transaction, so the time of the append is later than
  that row's.
\<close>

inductive compaction_rows :: "compaction_row list \<Rightarrow> bool" where
  no_rows: "compaction_rows []"
| more_rows: "compaction_rows rows
    \<Longrightarrow> (\<And>r. r \<in> set rows \<Longrightarrow> cr_chat r = chat \<Longrightarrow> co_id (cr_value r) = co_predecessor_id c \<Longrightarrow> cr_created r < now)
    \<Longrightarrow> append_context_compaction chat now c rows = (rows', x)
    \<Longrightarrow> compaction_rows rows'"

definition chat_rows :: "gostring \<Rightarrow> compaction_row list \<Rightarrow> compaction_row list" where
  "chat_rows chat rows = filter (\<lambda>r. cr_chat r = chat) rows"

fun chained :: "compaction_row list \<Rightarrow> bool" where
  "chained [] \<longleftrightarrow> True"
| "chained [r] \<longleftrightarrow> True"
| "chained (a # b # rs) \<longleftrightarrow>
     co_predecessor_id (cr_value b) = co_id (cr_value a) \<and> cr_created a < cr_created b \<and> chained (b # rs)"

definition compaction_chain :: "compaction_row list \<Rightarrow> bool" where
  "compaction_chain rs \<longleftrightarrow> chained rs \<and> (rs = [] \<or> co_predecessor_id (cr_value (hd rs)) = [])"

lemma chained_snoc:
  "chained (rs @ [r]) \<longleftrightarrow>
     chained rs \<and> (rs = [] \<or> (co_predecessor_id (cr_value r) = co_id (cr_value (last rs)) \<and> cr_created (last rs) < cr_created r))"
  by (induction rs rule: chained.induct) auto

lemma chained_latest: "chained rs \<Longrightarrow> rs \<noteq> [] \<Longrightarrow> latest_of rs = Some (last rs) \<and> cr_created (hd rs) \<le> cr_created (last rs)"
proof (induction rs rule: chained.induct)
  case (3 a b rs)
  then have IH: "latest_of (b # rs) = Some (last (b # rs))" "cr_created b \<le> cr_created (last (b # rs))" by simp_all
  with 3 have "\<not> newer a (last (b # rs))" by (simp add: newer_def)
  with IH 3 show ?case by (simp add: not_less)
qed simp_all

lemma compaction_rows_chain: "compaction_rows rows \<Longrightarrow> compaction_chain (chat_rows chat rows)"
proof (induction arbitrary: chat rule: compaction_rows.induct)
  case no_rows
  then show ?case by (simp add: chat_rows_def compaction_chain_def)
next
  case (more_rows rows own c now rows' x)
  show ?case
  proof (cases "rows' = rows")
    case True
    with more_rows.IH show ?thesis by simp
  next
    case False
    let ?new = "\<lparr>cr_chat = own, cr_created = now, cr_value = c\<rparr>"
    let ?old = "chat_rows own rows"
    have rows': "rows' = rows @ [?new]"
      and pred: "case latest_of ?old of None \<Rightarrow> co_predecessor_id c = [] | Some l \<Rightarrow> co_id (cr_value l) = co_predecessor_id c"
      using more_rows.hyps(3) False
      by (auto simp: append_context_compaction_def insert_compaction_def load_latest_context_compaction_def chat_rows_def
          split: option.splits if_splits)
    have chain: "compaction_chain ?old" by (rule more_rows.IH)
    have "compaction_chain (?old @ [?new])"
    proof (cases "?old = []")
      case True
      with pred show ?thesis by (simp add: compaction_chain_def)
    next
      case ne: False
      with chain have l: "latest_of ?old = Some (last ?old)" using chained_latest by (auto simp: compaction_chain_def)
      have "last ?old \<in> set ?old" using ne by simp
      then have "cr_created (last ?old) < now"
        using more_rows.hyps(2) [of "last ?old"] pred l by (simp add: chat_rows_def)
      with chain ne pred l show ?thesis by (auto simp: compaction_chain_def chained_snoc)
    qed
    with more_rows.IH [of chat] show ?thesis by (cases "own = chat") (simp_all add: rows' chat_rows_def)
  qed
qed

section \<open>Properties\<close>

text \<open>
  C10: every request that is sent for a decision is sound. Whatever the Chat's history, the compaction
  rows, the summarizer, the faults and the other transactions, a request that is prepared from a
  projected lane starts with the system prompt, continues with a conversation a provider accepts, ends
  with the one current Agent Status, and its estimated size is within the safe input limit.
\<close>

theorem prepared_request_is_sound:
  assumes "prepare_decision_request env (project_chat_lane f turns) trigger rows = (rows', Inr q)"
    and "cb_trigger (re_budgets env) \<le> cb_safe_input (re_budgets env)"
  shows "closed_request (re_system_prompt env) q
    \<and> (\<exists>t. estimate_request_tokens (re_cjk env) q = Some t \<and> t \<le> cb_safe_input (re_budgets env))"
proof -
  from assms(1) obtain us where us: "project_chat_lane f turns = Inr us"
    by (auto simp: prepare_decision_request_def split: sum.splits)
  then have "list_all unit_closed us"
    using project_turns_closed by (fastforce simp: project_chat_lane_def lane_unit_def list_all_iff)
  with assms us show ?thesis by (simp add: prepared_sound)
qed

text \<open>
  C28: concurrent attempts never fork the compactions of a Chat. In every reachable table the rows of a
  Chat form one chain: the first has no predecessor, each later one was built from the one before it,
  and the latest row is the last of the chain.
\<close>

theorem compactions_form_one_chain:
  assumes "compaction_rows rows"
  shows "compaction_chain (chat_rows chat rows)
    \<and> load_latest_context_compaction chat rows
        = (if chat_rows chat rows = [] then None else Some (cr_value (last (chat_rows chat rows))))"
proof -
  have c: "compaction_chain (chat_rows chat rows)" using assms by (rule compaction_rows_chain)
  then show ?thesis
    using chained_latest [of "chat_rows chat rows"]
    by (auto simp: compaction_chain_def load_latest_context_compaction_def chat_rows_def)
qed

definition sample_compaction :: context_compaction where
  "sample_compaction = \<lparr>co_id = ''cmp_1'', co_predecessor_id = [], co_summary = ''s'', co_summarized_through = ''a'',
     co_suffix_start = ''b'', co_trigger_reason = ''threshold'', co_before_tokens = 9, co_after_tokens = 3\<rparr>"

theorem compactions_form_one_chain_witness:
  "\<exists>rows. compaction_rows rows \<and> load_latest_context_compaction ''chat'' rows = Some sample_compaction"
proof -
  let ?r = "\<lparr>cr_chat = ''chat'', cr_created = 1, cr_value = sample_compaction\<rparr>"
  have "append_context_compaction ''chat'' 1 sample_compaction [] = ([?r], Inr sample_compaction)"
    by (simp add: append_context_compaction_def insert_compaction_def load_latest_context_compaction_def sample_compaction_def)
  then have "compaction_rows [?r]" by (rule more_rows [OF no_rows, rotated]) simp
  with compactions_form_one_chain [OF this, of "''chat''"] show ?thesis by (auto simp: chat_rows_def)
qed

definition sample_env :: "int \<Rightarrow> request_env" where
  "sample_env t = \<lparr>re_model = ''m'', re_chat = ''chat'', re_system_prompt = ''sys'', re_definitions = [], re_max_output = 8,
     re_budgets = \<lparr>cb_hard_input = t, cb_safe_input = t, cb_trigger = t\<rparr>, re_keep_recent = 20,
     re_policy_sha = [], re_aging = None, re_cjk = (\<lambda>_. False), re_status = (\<lambda>_. Inr ''ok''), re_summarizer = None,
     re_authority = (\<lambda>_. None), re_between = id, re_now = 1\<rparr>"

lemma plain_calls: "all_some (map envelope_message_json ms) \<noteq> None" if "\<forall>m \<in> set ms. mm_calls m = []"
  using that by (induction ms) (auto simp: envelope_message_json_def)

theorem prepared_request_is_sound_witness:
  "\<exists>t q. prepare_decision_request (sample_env t) (project_chat_lane None sample_lane) [] [] = ([], Inr q)
    \<and> estimate_request_tokens (\<lambda>_. False) q = Some t \<and> conversation [] (dr_messages q)"
proof -
  let ?us = "[user_unit (hd sample_lane),
     \<lparr>cu_kind = Unit_Agent_Step, cu_message_id = ''m'', cu_run_id = ''r'', cu_decision_no = 0,
      cu_messages = [plain_message Role_Assistant ''answer'']\<rparr>]"
  have p: "project_chat_lane None sample_lane = Inr ?us"
    using sample_lane_ok
    by (simp add: project_chat_lane_def sample_lane_def project_turns_Cons project_run_def run_prefix_def
        empty_prefix_loads empty_prefix_def final_units_def)
  let ?q = "finalize_decision_request ''ok'' ((build_projected_request ''m'' ''sys'' ?us [])\<lparr>dr_max_output := 8\<rparr>)"
  have "\<forall>m \<in> set (dr_messages ?q). mm_calls m = []"
    by (auto simp: finalize_decision_request_def build_projected_request_def user_unit_def)
  then have "all_some (map envelope_message_json (dr_messages ?q)) \<noteq> None" by (rule plain_calls)
  then obtain ms where "all_some (map envelope_message_json (dr_messages ?q)) = Some ms" by blast
  then have "request_json ?q \<noteq> None"
    by (simp add: request_json_def) (simp add: finalize_decision_request_def build_projected_request_def)
  then obtain t where t: "estimate_request_tokens (\<lambda>_. False) ?q = Some t"
    by (auto simp: estimate_request_tokens_def Let_def)
  have "sized_request (sample_env b) 0 ?us = Inr (?q, t)" for b
    using t by (simp add: sized_request_def sample_env_def aged_request_units_def)
  then have r: "prepare_decision_request (sample_env t) (project_chat_lane None sample_lane) [] [] = ([], Inr ?q)"
    by (simp add: prepare_decision_request_def p load_latest_context_compaction_def apply_latest_def)
      (simp add: sample_env_def)
  have "cb_trigger (re_budgets (sample_env t)) \<le> cb_safe_input (re_budgets (sample_env t))" by (simp add: sample_env_def)
  from prepared_request_is_sound [OF r this] have "conversation [] (dr_messages ?q)" by (simp add: closed_request_def)
  with r t show ?thesis by blast
qed

end
