(* ===== verification/Attempt_Disposition.thy ===== *)
theory Attempt_Disposition
  imports Controller
begin

text \<open>
  How an attempt at a Run ends (\<open>internal/agent/attempt_disposition.go\<close>): the error an executor returned
  becomes a disposition with a safe code, and a retryable one waits for a bounded, jittered backoff. The
  wait that a provider asks for comes from \<open>retryAfter\<close> of \<open>internal/models/bifrost.go\<close>. Durations are
  nanoseconds; \<open>http.ParseTime\<close> is a parameter.
\<close>

section \<open>Errors as trees\<close>

text \<open>
  \<open>errors.Is\<close> and \<open>errors.As\<close> walk an error and what it wraps, depth first. An error whose own \<open>Is\<close>
  method reports a sentinel counts as wrapping it.
\<close>

datatype sentinel =
    Sentinel_Lease_Lost | Sentinel_Canceled | Sentinel_Deadline | Sentinel_Run_Deadline
  | Sentinel_Checkpoint_Invalid | Sentinel_Research_Authority
  | Search_Timeout | Search_Rate_Limited | Search_Unavailable | Search_Not_Configured
  | Search_Invalid_Query | Search_Invalid_Response

datatype tool_error_kind = Tool_Authorization | Tool_Schema | Tool_Invariant | Tool_Infrastructure

datatype go_error =
    Sentinel sentinel
  | Model_Error model_error_kind int "go_error list"
  | Tool_Error tool_error_kind gostring "go_error list"
  | Wrapping "go_error list"

fun walk :: "go_error \<Rightarrow> go_error list" where
  "walk (Sentinel x) = [Sentinel x]"
| "walk (Model_Error k d es) = Model_Error k d es # concat (map walk es)"
| "walk (Tool_Error k c es) = Tool_Error k c es # concat (map walk es)"
| "walk (Wrapping es) = Wrapping es # concat (map walk es)"

definition errors_is :: "go_error option \<Rightarrow> sentinel \<Rightarrow> bool" where
  "errors_is e x \<longleftrightarrow> (case e of None \<Rightarrow> False | Some t \<Rightarrow> Sentinel x \<in> set (walk t))"

fun is_model_node :: "go_error \<Rightarrow> bool" where
  "is_model_node (Model_Error _ _ _) = True" | "is_model_node _ = False"

fun is_tool_node :: "go_error \<Rightarrow> bool" where
  "is_tool_node (Tool_Error _ _ _) = True" | "is_tool_node _ = False"

section \<open>Resolutions\<close>

definition attempt_completed :: gostring where "attempt_completed = ''completed''"
definition attempt_waiting :: gostring where "attempt_waiting = ''waiting''"
definition attempt_retryable :: gostring where "attempt_retryable = ''retryable''"
definition attempt_terminal :: gostring where "attempt_terminal = ''terminal''"
definition attempt_abandoned :: gostring where "attempt_abandoned = ''abandoned''"

lemmas dispositions =
  attempt_completed_def attempt_waiting_def attempt_retryable_def attempt_terminal_def attempt_abandoned_def

definition cause_lease_lost :: gostring where "cause_lease_lost = ''lease_lost''"
definition cause_cancelled :: gostring where "cause_cancelled = ''cancelled''"

record attempt_resolution =
  ars_disposition :: gostring
  ars_error_code :: gostring
  ars_backoff :: int

definition resolution :: "gostring \<Rightarrow> gostring \<Rightarrow> attempt_resolution" where
  "resolution d code = \<lparr>ars_disposition = d, ars_error_code = code, ars_backoff = 0\<rparr>"

text \<open>\<open>^[a-z][a-z0-9_]{1,63}$\<close>\<close>

definition safe_attempt_error_code :: "gostring \<Rightarrow> bool" where
  "safe_attempt_error_code = head_then lower (\<lambda>c. lower c \<or> decimal c \<or> c = CHR ''_'') 1 63"

definition resolution_valid :: "attempt_resolution \<Rightarrow> bool" where
  "resolution_valid r =
     (if ars_disposition r = attempt_completed \<or> ars_disposition r = attempt_waiting
      then ars_error_code r = [] \<and> ars_backoff r = 0
      else if ars_disposition r = attempt_retryable \<or> ars_disposition r = attempt_terminal
      then safe_attempt_error_code (ars_error_code r) \<and> ars_backoff r \<ge> 0
      else if ars_disposition r = attempt_abandoned
      then (ars_error_code r = cause_lease_lost \<or> ars_error_code r = cause_cancelled) \<and> ars_backoff r = 0
      else False)"

section \<open>Classification\<close>

definition classify_sentinel :: "go_error \<Rightarrow> attempt_resolution" where
  "classify_sentinel e =
     (let on = (\<lambda>x. errors_is (Some e) x) in
      if on Search_Timeout then resolution attempt_retryable ''discovery_timeout''
      else if on Search_Rate_Limited then resolution attempt_retryable ''discovery_rate_limited''
      else if on Search_Unavailable then resolution attempt_retryable ''discovery_unavailable''
      else if on Search_Not_Configured then resolution attempt_terminal ''discovery_not_configured''
      else if on Search_Invalid_Query then resolution attempt_terminal ''discovery_invalid_query''
      else if on Search_Invalid_Response then resolution attempt_terminal ''discovery_invalid_response''
      else if on Sentinel_Deadline then resolution attempt_retryable ''attempt_timeout''
      else if on Sentinel_Run_Deadline then resolution attempt_terminal ''run_deadline_exceeded''
      else if on Sentinel_Checkpoint_Invalid then resolution attempt_terminal ''checkpoint_invalid''
      else if on Sentinel_Research_Authority then resolution attempt_terminal ''research_authority_lost''
      else resolution attempt_terminal ''agent_execution_failed'')"

definition classify_model :: "model_error_kind \<Rightarrow> int \<Rightarrow> attempt_resolution" where
  "classify_model k wait =
     (if k = Model_Timeout \<or> k = Model_Unavailable
      then (resolution attempt_retryable (model_error_code k))\<lparr>ars_backoff := wait\<rparr>
      else resolution attempt_terminal (model_error_code k))"

definition classify_attempt :: "go_error option \<Rightarrow> go_error option \<Rightarrow> attempt_resolution" where
  "classify_attempt err cause =
     (case err of
        None \<Rightarrow> resolution attempt_completed []
      | Some e \<Rightarrow>
          if errors_is err Sentinel_Lease_Lost \<or> errors_is cause Sentinel_Lease_Lost
          then resolution attempt_abandoned cause_lease_lost
          else if errors_is err Sentinel_Canceled \<or> errors_is cause Sentinel_Canceled
          then resolution attempt_abandoned cause_cancelled
          else (case find is_model_node (walk e) of
              Some (Model_Error k wait _) \<Rightarrow> classify_model k wait
            | _ \<Rightarrow>
                (case find is_tool_node (walk e) of
                   Some (Tool_Error k code _) \<Rightarrow>
                     if safe_attempt_error_code code
                     then resolution (if k = Tool_Infrastructure then attempt_retryable else attempt_terminal) code
                     else classify_sentinel e
                 | _ \<Rightarrow> classify_sentinel e)))"

section \<open>Waiting\<close>

definition second :: int where "second = 1000000000"

text \<open>FNV-1a over 32 bits.\<close>

definition fnv32a :: "gostring \<Rightarrow> 32 word" where
  "fnv32a s = foldl (\<lambda>h c. (h XOR word_of_nat (byte c)) * 16777619) 2166136261 s"

definition jitter_permille :: "gostring \<Rightarrow> int" where
  "jitter_permille key = 750 + uint (fnv32a key mod 501)"

definition jittered :: "int \<Rightarrow> gostring \<Rightarrow> int" where
  "jittered backoff key =
     (let b = backoff * jitter_permille key div 1000 in if b > 30 * second then 30 * second else b)"

function backoff_loop :: "int \<Rightarrow> gostring \<Rightarrow> int \<Rightarrow> int \<Rightarrow> int" where
  "backoff_loop n key ordinal backoff =
     (if ordinal < n \<and> backoff < 30 * second
      then (if backoff * 2 > 30 * second then 30 * second
            else backoff_loop n key (ordinal + 1) (backoff * 2))
      else jittered backoff key)"
  by pat_completeness auto
termination
  by (relation "measure (\<lambda>(n, key, ordinal, backoff). nat (n - ordinal))") auto

declare backoff_loop.simps [simp del]

definition attempt_retry_backoff :: "int \<Rightarrow> gostring \<Rightarrow> int" where
  "attempt_retry_backoff n key = backoff_loop (max 1 n) key 1 second"

text \<open>The product of \<open>retryAfter\<close> is over \<open>int64\<close>.\<close>

definition int64 :: "int \<Rightarrow> int" where
  "int64 x = sint (word_of_int x :: 64 word)"

definition retry_after :: "(gostring \<Rightarrow> int option) \<Rightarrow> gostring \<Rightarrow> int \<Rightarrow> int" where
  "retry_after parse_time v now =
     (let wait =
        (case atoi (trim_space v) of
           Some n \<Rightarrow> if n < 2 ^ 63 \<and> n > 0 then Some (int64 (n * second)) else None
         | None \<Rightarrow> None);
        at = (case wait of
           Some d \<Rightarrow> d
         | None \<Rightarrow> (case parse_time v of
              Some t \<Rightarrow> if t > now then t - now else 15 * second
            | None \<Rightarrow> 15 * second))
      in min at (300 * second))"

section \<open>The codes are safe\<close>

lemma safe_model_code: "safe_attempt_error_code (model_error_code k)"
  by (cases k) (simp_all add: safe_attempt_error_code_def head_then_def go_eval)

lemma classify_sentinel_valid: "resolution_valid (classify_sentinel e)"
  by (simp add: classify_sentinel_def Let_def resolution_valid_def resolution_def dispositions
      safe_attempt_error_code_def head_then_def go_eval)

lemma find_node: "find P xs = Some x \<Longrightarrow> x \<in> set xs \<and> P x"
  by (induction xs) (auto split: if_splits)

fun transient :: "go_error \<Rightarrow> bool" where
  "transient (Model_Error k _ _) \<longleftrightarrow> k = Model_Timeout \<or> k = Model_Unavailable"
| "transient (Tool_Error k _ _) \<longleftrightarrow> k = Tool_Infrastructure"
| "transient (Sentinel x) \<longleftrightarrow> x \<in> {Search_Timeout, Search_Rate_Limited, Search_Unavailable, Sentinel_Deadline}"
| "transient (Wrapping _) \<longleftrightarrow> False"

fun wait_ok :: "go_error \<Rightarrow> bool" where
  "wait_ok (Model_Error _ d _) \<longleftrightarrow> 0 \<le> d"
| "wait_ok _ \<longleftrightarrow> True"

lemma classify_sentinel_transient:
  "ars_disposition (classify_sentinel e) = attempt_retryable \<Longrightarrow> \<exists>n \<in> set (walk e). transient n"
  by (auto simp: classify_sentinel_def Let_def resolution_def dispositions errors_is_def split: if_splits
      intro: rev_bexI)

text \<open>The three ways an error is classified once the lease and the context are not to blame.\<close>

lemma classify_cases:
  assumes "classify_attempt (Some e) cause = r"
  obtains (lost) "r = resolution attempt_abandoned cause_lease_lost"
      "errors_is (Some e) Sentinel_Lease_Lost \<or> errors_is cause Sentinel_Lease_Lost"
    | (cancelled) "r = resolution attempt_abandoned cause_cancelled"
      "errors_is (Some e) Sentinel_Canceled \<or> errors_is cause Sentinel_Canceled"
    | (model) k d es where "r = classify_model k d" "Model_Error k d es \<in> set (walk e)"
    | (tool) k c es where "Tool_Error k c es \<in> set (walk e)" "safe_attempt_error_code c"
        "r = resolution (if k = Tool_Infrastructure then attempt_retryable else attempt_terminal) c"
    | (sentinel) "r = classify_sentinel e"
proof -
  consider "errors_is (Some e) Sentinel_Lease_Lost \<or> errors_is cause Sentinel_Lease_Lost"
    | "\<not> (errors_is (Some e) Sentinel_Lease_Lost \<or> errors_is cause Sentinel_Lease_Lost)"
        "errors_is (Some e) Sentinel_Canceled \<or> errors_is cause Sentinel_Canceled"
    | "\<not> (errors_is (Some e) Sentinel_Lease_Lost \<or> errors_is cause Sentinel_Lease_Lost)"
        "\<not> (errors_is (Some e) Sentinel_Canceled \<or> errors_is cause Sentinel_Canceled)"
    by blast
  then show ?thesis
  proof cases
    case 1
    with assms show ?thesis by (intro lost) (simp_all add: classify_attempt_def)
  next
    case 2
    with assms show ?thesis by (intro cancelled) (simp_all add: classify_attempt_def)
  next
    case 3
    show ?thesis
    proof (cases "find is_model_node (walk e)")
      case (Some n)
      from find_node [OF Some] obtain k d es where n: "n = Model_Error k d es" "n \<in> set (walk e)"
        by (cases n) auto
      with 3 Some assms show ?thesis by (intro model [of k d es]) (simp_all add: classify_attempt_def)
    next
      case None
      show ?thesis
      proof (cases "find is_tool_node (walk e)")
        case None': None
        with 3 None assms show ?thesis by (intro sentinel) (simp add: classify_attempt_def)
      next
        case (Some n)
        from find_node [OF Some] obtain k c es where n: "n = Tool_Error k c es" "n \<in> set (walk e)"
          by (cases n) auto
        show ?thesis
        proof (cases "safe_attempt_error_code c")
          case True
          with 3 None Some n assms show ?thesis by (intro tool [of k c es]) (simp_all add: classify_attempt_def)
        next
          case False
          with 3 None Some n assms show ?thesis by (intro sentinel) (simp add: classify_attempt_def)
        qed
      qed
    qed
  qed
qed

lemma classify_model_valid: "0 \<le> d \<Longrightarrow> resolution_valid (classify_model k d)"
  by (simp add: classify_model_def resolution_valid_def resolution_def dispositions safe_model_code)

lemma classify_dispositions:
  "ars_disposition (classify_model k d) \<in> {attempt_retryable, attempt_terminal}"
  "ars_disposition (classify_sentinel e) \<in> {attempt_retryable, attempt_terminal}"
  by (simp_all add: classify_model_def classify_sentinel_def Let_def resolution_def)

lemma plain_resolutions:
  "resolution_valid (resolution attempt_completed [])"
  "resolution_valid (resolution attempt_abandoned cause_lease_lost)"
  "resolution_valid (resolution attempt_abandoned cause_cancelled)"
  "safe_attempt_error_code c \<Longrightarrow> resolution_valid (resolution attempt_retryable c)"
  "safe_attempt_error_code c \<Longrightarrow> resolution_valid (resolution attempt_terminal c)"
  by (simp_all add: resolution_valid_def resolution_def dispositions)

lemma ars_resolution [simp]: "ars_disposition (resolution d c) = d" "ars_error_code (resolution d c) = c"
  "ars_backoff (resolution d c) = 0"
  by (simp_all add: resolution_def)

lemma classify_attempt_ok:
  assumes "\<forall>e. err = Some e \<longrightarrow> list_all wait_ok (walk e)"
  shows "resolution_valid (classify_attempt err cause)"
proof (cases err)
  case None
  then show ?thesis by (simp add: classify_attempt_def plain_resolutions)
next
  case (Some e)
  from refl [of "classify_attempt (Some e) cause"]
  have "resolution_valid (classify_attempt (Some e) cause)"
  proof (cases rule: classify_cases)
    case (model k d es)
    with assms Some have "0 \<le> d" by (auto simp: list_all_iff)
    then show ?thesis by (simp only: model classify_model_valid)
  qed (simp_all only: classify_sentinel_valid plain_resolutions split: if_split, simp)
  with Some show ?thesis by simp
qed

lemma plain_error_terminal:
  "ars_disposition (classify_attempt (Some (Wrapping [])) cause) \<noteq> attempt_retryable"
  "ars_disposition (classify_attempt (Some (Wrapping [])) cause) \<noteq> attempt_completed"
  "ars_disposition (classify_attempt (Some (Wrapping [])) cause) \<noteq> attempt_waiting"
  by (simp_all add: classify_attempt_def errors_is_def classify_sentinel_def Let_def resolution_def dispositions
      split: option.split)



section \<open>The backoff in closed form\<close>

lemma jitter_range: "750 \<le> jitter_permille key" "jitter_permille key \<le> 1250"
proof -
  have "uint (fnv32a key mod 501) = uint (fnv32a key) mod 501" by (simp add: uint_mod)
  then show "750 \<le> jitter_permille key" "jitter_permille key \<le> 1250"
    by (simp_all add: jitter_permille_def) 
qed

lemma backoff_steps:
  "n \<le> 1 \<Longrightarrow> attempt_retry_backoff n key = jittered second key"
  "attempt_retry_backoff 2 key = jittered (2 * second) key"
  "attempt_retry_backoff 3 key = jittered (4 * second) key"
  "attempt_retry_backoff 4 key = jittered (8 * second) key"
  "attempt_retry_backoff 5 key = jittered (16 * second) key"
  "n > 5 \<Longrightarrow> attempt_retry_backoff n key = 30 * second"
  by (simp_all add: attempt_retry_backoff_def second_def backoff_loop.simps max_def)

lemma jittered_bounds:
  assumes "0 \<le> x" "x \<le> 16 * second"
  shows "x * 750 div 1000 \<le> jittered x key" "jittered x key \<le> x * 1250 div 1000"
proof -
  have lo: "x * 750 div 1000 \<le> x * jitter_permille key div 1000"
    using assms(1) jitter_range(1) [of key] by (intro zdiv_mono1 mult_left_mono) simp_all
  have hi: "x * jitter_permille key div 1000 \<le> x * 1250 div 1000"
    using assms(1) jitter_range(2) [of key] by (intro zdiv_mono1 mult_left_mono) simp_all
  have "x * 1250 div 1000 \<le> 30 * second" using assms by (simp add: second_def)
  with hi have "jittered x key = x * jitter_permille key div 1000" by (simp add: jittered_def Let_def)
  with lo hi show "x * 750 div 1000 \<le> jittered x key" "jittered x key \<le> x * 1250 div 1000" by simp_all
qed

lemma backoff_stages:
  assumes "1 \<le> n"
  obtains "n > 5" "attempt_retry_backoff n key = 30 * second"
  | k where "n = int k + 1" "k < 5" "attempt_retry_backoff n key = jittered (2 ^ k * second) key"
proof (cases "n > 5")
  case True
  then show ?thesis using backoff_steps(6) that(1) by blast
next
  case False
  with assms have "n = 1 \<or> n = 2 \<or> n = 3 \<or> n = 4 \<or> n = 5" by auto
  then show ?thesis
    using that(2) [of 0] that(2) [of 1] that(2) [of 2] that(2) [of 3] that(2) [of 4] backoff_steps(1) [of n key]
      backoff_steps(2-5) [of key]
    by auto
qed

lemma backoff_range:
  assumes "1 \<le> n" shows "750000000 \<le> attempt_retry_backoff n key" "attempt_retry_backoff n key \<le> 30 * second"
proof -
  have "750000000 \<le> attempt_retry_backoff n key \<and> attempt_retry_backoff n key \<le> 30 * second"
  proof (cases rule: backoff_stages [OF assms, of key])
    case 1
    then show ?thesis by (simp add: second_def)
  next
    case (2 k)
    then have k: "k = 0 \<or> k = 1 \<or> k = 2 \<or> k = 3 \<or> k = 4" by auto
    with jittered_bounds [of "2 ^ k * second" key] 2 show ?thesis by (auto simp: second_def)
  qed
  then show "750000000 \<le> attempt_retry_backoff n key" "attempt_retry_backoff n key \<le> 30 * second" by simp_all
qed

text \<open>
  The backoff before a retry is between 0.75 and 30 seconds whatever the Job, and it grows with the
  attempt: a later attempt of any Job waits longer than an earlier one of any other, until both wait the
  full 30 seconds, from the sixth attempt on.
\<close>

lemma backoff_grows_to_its_cap:
  assumes "1 \<le> m" and "m < n"
  shows "750000000 \<le> attempt_retry_backoff n key \<and> attempt_retry_backoff n key \<le> 30 * second
    \<and> (attempt_retry_backoff n key = 30 * second \<longleftrightarrow> 5 < n)
    \<and> (m \<le> 5 \<longrightarrow> attempt_retry_backoff m key' < attempt_retry_backoff n key)"
proof -
  from assms have n: "1 \<le> n" by simp
  have last: "attempt_retry_backoff i k \<le> 20 * second" if "1 \<le> i" "i \<le> 5" for i k
  proof (cases rule: backoff_stages [OF that(1), of k])
    case (2 j)
    then have "j = 0 \<or> j = 1 \<or> j = 2 \<or> j = 3 \<or> j = 4" by auto
    with jittered_bounds [of "2 ^ j * second" k] 2 show ?thesis by (auto simp: second_def)
  qed (use that in simp)
  have cap: "attempt_retry_backoff n key = 30 * second \<longleftrightarrow> 5 < n"
    using last [OF n, of key] backoff_steps(6) [of n key] by (cases "5 < n") (auto simp: second_def)
  have "attempt_retry_backoff m key' < attempt_retry_backoff n key" if "m \<le> 5"
  proof (cases rule: backoff_stages [OF n, of key])
    case 1
    with last [OF assms(1) that, of key'] show ?thesis by (simp add: second_def)
  next
    case (2 k)
    from \<open>m \<le> 5\<close> obtain j where j: "m = int j + 1" "attempt_retry_backoff m key' = jittered (2 ^ j * second) key'"
      by (cases rule: backoff_stages [OF assms(1), of key']) auto
    with 2 assms(2) have "j < k" by simp
    with 2(2) have "(j, k) \<in> {(0, 1), (0, 2), (0, 3), (0, 4), (1, 2), (1, 3), (1, 4), (2, 3), (2, 4), (3, 4)}"
      by (auto simp: less_Suc_eq numeral_eq_Suc)
    with 2 j jittered_bounds [of "2 ^ k * second" key] jittered_bounds [of "2 ^ j * second" key'] show ?thesis
      by (auto simp: second_def)
  qed
  with cap backoff_range [OF n, of key] show ?thesis by simp
qed

section \<open>The wait a provider asks for\<close>

lemma int64_small: "- (2 ^ 63) \<le> x \<Longrightarrow> x < 2 ^ 63 \<Longrightarrow> int64 x = x"
  by (simp add: int64_def sint_sbintrunc' signed_take_bit_int_eq_self)

lemma word_of_int_minus: "(word_of_int (x - 2 ^ 64) :: 64 word) = word_of_int x"
  using word_of_int_2p_len [where 'a = 64] by (simp only: wi_hom_sub [symmetric]) simp

lemma int64_wraps: "2 ^ 63 \<le> x \<Longrightarrow> x < 2 ^ 64 \<Longrightarrow> int64 x = x - 2 ^ 64"
  using int64_small [of "x - 2 ^ 64"] by (simp only: int64_def word_of_int_minus) simp

lemma retry_after_bounds:
  assumes "\<forall>n. atoi (trim_space v) = Some n \<longrightarrow> n \<le> 9223372036"
  shows "0 \<le> retry_after parse_time v now \<and> retry_after parse_time v now \<le> 300 * second"
proof (cases "\<exists>n. atoi (trim_space v) = Some n \<and> 0 < n")
  case True
  then obtain n where n: "atoi (trim_space v) = Some n" "0 < n" by blast
  with assms have "n \<le> 9223372036" by simp
  with n have "int64 (n * second) = n * second" by (intro int64_small) (simp_all add: second_def)
  with n \<open>n \<le> 9223372036\<close> show ?thesis by (simp add: retry_after_def second_def)
next
  case False
  then show ?thesis
    by (auto simp: retry_after_def Let_def second_def split: option.split)
qed



end
