(* ===== verification/Job_Store.thy ===== *)
theory Job_Store
  imports Attempt_Disposition Run_Publication
begin

text \<open>
  The rows that scheduling works on: Runs with their Jobs, delegations, subagents and their waits, and
  the research payloads, with the statements that move them (\<open>agent/attempt_terminal.go\<close>,
  \<open>agent/delegation_kernel.go\<close>, \<open>agent/store.go\<close>, \<open>agent/research_checkpoint.go\<close>, and the trigger of
  \<open>app/runtime_subagent_schema.go\<close>). \<open>agent_jobs.run_id\<close> is unique and references \<open>agent_runs\<close>, so a Run
  and its Job are one row here. A transaction holds its row locks, so it is one step, and one that
  returns an error changes nothing. Trace rows, notifications and metrics are left out.
\<close>

section \<open>Rows\<close>

definition queued :: gostring where "queued = ''queued''"
definition waiting :: gostring where "waiting = ''waiting''"
definition cancelled :: gostring where "cancelled = ''cancelled''"

lemmas statuses = queued_def running_def waiting_def completed_def succeeded_def failed_def cancelled_def

text \<open>
  The user of a Run is its own or the one of the Chat it answers; the user of its tree is the one of the
  Chat that the tree's root answers. The deadline is the Run's own or the one of its tree.
\<close>

record task =
  tk_run_id :: gostring
  tk_run_status :: gostring
  tk_error_code :: "gostring option"
  tk_deadline :: "int option"
  tk_max_attempts :: "int option"
  tk_runtime_kind :: gostring
  tk_role :: "gostring option"
  tk_executor :: "gostring option"
  tk_output_message :: "gostring option"
  tk_user :: "gostring option"
  tk_tree_user :: "gostring option"
  tk_parent :: "gostring option"
  tk_cancelled_attempt :: "int option"
  tk_job_id :: gostring
  tk_status :: gostring
  tk_attempt_no :: int
  tk_failed_attempts :: int
  tk_lease_token :: "gostring option"
  tk_lease_expires_at :: "int option"
  tk_available_at :: int
  tk_created_at :: int
  tk_last_error :: "gostring option"

record delegation =
  dl_parent_run :: gostring
  dl_child_run :: gostring
  dl_state :: gostring
  dl_error_code :: "gostring option"
  dl_consumed :: bool

text \<open>A wait is open until the Action that made it has a result in the log.\<close>

record subagent_wait =
  sw_parent_run :: gostring
  sw_action_id :: gostring
  sw_agents :: "gostring list"
  sw_deadline :: int
  sw_open :: bool

record discovery_session =
  ds_run_id :: gostring
  ds_research :: bool
  ds_status :: gostring
  ds_error_code :: "gostring option"

record research_session =
  rh_planning_run :: "gostring option"
  rh_execution_run :: "gostring option"
  rh_status :: gostring
  rh_error_code :: "gostring option"

record job_db =
  jd_tasks :: "task list"
  jd_delegations :: "delegation list"
  jd_waits :: "subagent_wait list"
  jd_discoveries :: "discovery_session list"
  jd_sessions :: "research_session list"
  jd_now :: int

datatype queue_error =
    Q_Lease_Lost
  | Q_Invalid_Terminalization
  | Q_Unsupported_Role
  | Q_No_Rows
  | Q_Null_Column
  | Q_Not_Together
  | Q_Invalid_Delegation
  | Q_Handoff_Lost
  | Q_Invalid_Payload
  | Q_Invalid_Disposition
  | Q_Not_Committed
  | Q_Leased_Abandoned
  | Q_Constraint
  | Q_Run_Not_Found
  | Q_Not_Cancellable
  | Q_Invalid_Parent_Failure

section \<open>Statements\<close>

definition affected :: "(task \<Rightarrow> bool) \<Rightarrow> job_db \<Rightarrow> nat" where
  "affected P d = length (filter P (jd_tasks d))"

definition update_tasks :: "(task \<Rightarrow> bool) \<Rightarrow> (task \<Rightarrow> task) \<Rightarrow> job_db \<Rightarrow> job_db" where
  "update_tasks P f d = d\<lparr>jd_tasks := map (\<lambda>t. if P t then f t else t) (jd_tasks d)\<rparr>"

definition find_run :: "gostring \<Rightarrow> job_db \<Rightarrow> task option" where
  "find_run r d = find (\<lambda>t. tk_run_id t = r) (jd_tasks d)"

text \<open>A comparison with a null is not true.\<close>

definition past :: "int option \<Rightarrow> int \<Rightarrow> bool" where
  "past t now = (case t of None \<Rightarrow> False | Some x \<Rightarrow> x \<le> now)"

definition ahead :: "int option \<Rightarrow> int \<Rightarrow> bool" where
  "ahead t now = (case t of None \<Rightarrow> False | Some x \<Rightarrow> x > now)"

definition terminal_run :: "gostring \<Rightarrow> bool" where
  "terminal_run s \<longleftrightarrow> s = completed \<or> s = failed \<or> s = cancelled"

definition active_run :: "gostring \<Rightarrow> bool" where
  "active_run s \<longleftrightarrow> s = queued \<or> s = running"

definition active_job :: "gostring \<Rightarrow> bool" where
  "active_job s \<longleftrightarrow> s = queued \<or> s = running \<or> s = waiting"

definition end_job :: "gostring \<Rightarrow> task \<Rightarrow> task" where
  "end_job status t = t\<lparr>tk_status := status, tk_lease_token := None, tk_lease_expires_at := None\<rparr>"

text \<open>
  The trigger \<open>nano_sync_runtime_subagents\<close> on a Run that has just ended: the parent that waits for it
  becomes runnable, and its own active subagents are cancelled. A subagent has no subagents
  (\<open>nano_validate_runtime_subagent\<close>), so the trigger does not cascade further.
\<close>

definition waits_for :: "job_db \<Rightarrow> gostring \<Rightarrow> task \<Rightarrow> bool" where
  "waits_for d r t \<longleftrightarrow>
     tk_run_status t = queued \<and> tk_status t = queued
     \<and> list_ex (\<lambda>c. tk_run_id c = r \<and> tk_parent c = Some (tk_run_id t)) (jd_tasks d)
     \<and> list_ex (\<lambda>w. sw_parent_run w = tk_run_id t \<and> r \<in> set (sw_agents w) \<and> sw_open w) (jd_waits d)"

definition cancel_child :: "gostring \<Rightarrow> task \<Rightarrow> task" where
  "cancel_child r t =
     (if tk_parent t \<noteq> Some r then t
      else let t1 = (if active_run (tk_run_status t)
                     then t\<lparr>tk_cancelled_attempt := Some (if tk_status t = running then tk_attempt_no t else 0),
                            tk_run_status := cancelled, tk_error_code := Some ''parent_terminal''\<rparr>
                     else t)
           in if tk_run_status t1 = cancelled \<and> active_job (tk_status t1) then end_job cancelled t1 else t1)"

definition sync_subagents :: "gostring \<Rightarrow> job_db \<Rightarrow> job_db" where
  "sync_subagents r d =
     (let woken = update_tasks (waits_for d r) (\<lambda>t. t\<lparr>tk_available_at := jd_now d\<rparr>) d
      in woken\<lparr>jd_tasks := map (cancel_child r) (jd_tasks woken)\<rparr>)"

definition update_runs :: "(task \<Rightarrow> bool) \<Rightarrow> (task \<Rightarrow> task) \<Rightarrow> job_db \<Rightarrow> job_db" where
  "update_runs P f d =
     fold sync_subagents
       (map tk_run_id (filter (\<lambda>t. P t \<and> \<not> terminal_run (tk_run_status t) \<and> terminal_run (tk_run_status (f t))) (jd_tasks d)))
       (update_tasks P f d)"

section \<open>Roles\<close>

definition kind_legacy :: gostring where "kind_legacy = ''legacy_role''"
definition kind_configured :: gostring where "kind_configured = ''configured''"
definition role_leader :: gostring where "role_leader = ''leader''"
definition role_research :: gostring where "role_research = ''research''"

lemmas kinds = kind_legacy_def kind_configured_def role_leader_def role_research_def

definition is_research :: "task \<Rightarrow> bool" where
  "is_research t \<longleftrightarrow>
     (tk_runtime_kind t = kind_legacy \<and> tk_role t = Some role_research)
     \<or> (tk_runtime_kind t = kind_configured \<and> tk_executor t = Some ''research'')"

definition is_chat_leader :: "task \<Rightarrow> bool" where
  "is_chat_leader t \<longleftrightarrow>
     (tk_runtime_kind t = kind_legacy \<and> tk_role t = Some role_leader)
     \<or> (tk_runtime_kind t = kind_configured \<and> tk_executor t = Some ''chat_leader'')"

definition is_studio :: "task \<Rightarrow> bool" where
  "is_studio t \<longleftrightarrow> tk_runtime_kind t = kind_configured \<and> tk_executor t = Some ''studio_structured_output''"

definition is_configured_research :: "task \<Rightarrow> bool" where
  "is_configured_research t \<longleftrightarrow>
     tk_runtime_kind t = kind_configured
     \<and> (tk_executor t = Some ''research_planner'' \<or> tk_executor t = Some ''research_root'')"

section \<open>Delegations\<close>

definition delegation_waiting :: gostring where "delegation_waiting = ''waiting''"
definition delegation_succeeded :: gostring where "delegation_succeeded = ''succeeded''"
definition delegation_failed :: gostring where "delegation_failed = ''failed''"
definition delegation_cancelled :: gostring where "delegation_cancelled = ''cancelled''"

lemmas delegation_states =
  delegation_waiting_def delegation_succeeded_def delegation_failed_def delegation_cancelled_def

record delegation_lifecycle =
  dlc_state :: gostring
  dlc_error_code :: gostring
  dlc_consumed :: bool

definition terminalize_lifecycle :: "gostring \<Rightarrow> gostring \<Rightarrow> delegation_lifecycle \<Rightarrow> delegation_lifecycle option" where
  "terminalize_lifecycle state code d =
     (if dlc_state d \<noteq> delegation_waiting
        \<or> (state \<noteq> delegation_succeeded \<and> state \<noteq> delegation_failed \<and> state \<noteq> delegation_cancelled)
      then None
      else let c = trim_space code in
        if (state = delegation_succeeded \<and> c \<noteq> []) \<or> (state \<noteq> delegation_succeeded \<and> c = []) then None
        else Some (d\<lparr>dlc_state := state, dlc_error_code := c\<rparr>))"

definition consume_lifecycle :: "delegation_lifecycle \<Rightarrow> delegation_lifecycle option" where
  "consume_lifecycle d =
     (if dlc_state d = delegation_waiting \<or> dlc_consumed d then None else Some (d\<lparr>dlc_consumed := True\<rparr>))"

text \<open>\<open>nullif($3,'')\<close>\<close>

definition nullif :: "gostring \<Rightarrow> gostring option" where
  "nullif s = (if s = [] then None else Some s)"

definition waiting_child :: "gostring \<Rightarrow> delegation \<Rightarrow> bool" where
  "waiting_child r x \<longleftrightarrow> dl_child_run x = r \<and> dl_state x = delegation_waiting"

definition end_delegations :: "(delegation \<Rightarrow> bool) \<Rightarrow> gostring \<Rightarrow> gostring \<Rightarrow> job_db \<Rightarrow> job_db" where
  "end_delegations P state code d =
     d\<lparr>jd_delegations := map (\<lambda>x. if P x then x\<lparr>dl_state := state, dl_error_code := nullif code\<rparr> else x) (jd_delegations d)\<rparr>"

definition delegates_to :: "job_db \<Rightarrow> gostring \<Rightarrow> task \<Rightarrow> bool" where
  "delegates_to d child t \<longleftrightarrow> list_ex (\<lambda>x. dl_child_run x = child \<and> dl_parent_run x = tk_run_id t) (jd_delegations d)"

definition resume_parent :: "gostring \<Rightarrow> job_db \<Rightarrow> job_db" where
  "resume_parent child d =
     (let d1 = update_runs (\<lambda>t. delegates_to d child t \<and> tk_run_status t = running \<and> ahead (tk_deadline t) (jd_now d))
                 (\<lambda>t. t\<lparr>tk_run_status := queued\<rparr>) d
      in update_tasks (\<lambda>t. delegates_to d1 child t \<and> tk_status t = waiting \<and> tk_run_status t = queued
                          \<and> ahead (tk_deadline t) (jd_now d1)) (\<lambda>t. t\<lparr>tk_status := queued\<rparr>) d1)"

definition owns_lease :: "attempt \<Rightarrow> task \<Rightarrow> bool" where
  "owns_lease a t \<longleftrightarrow>
     tk_job_id t = at_job_id a \<and> tk_run_id t = at_run_id a \<and> tk_status t = running
     \<and> tk_lease_token t = Some (at_lease_token a)"

definition terminalize_delegation :: "attempt \<Rightarrow> gostring \<Rightarrow> gostring \<Rightarrow> job_db \<Rightarrow> (queue_error, job_db) result" where
  "terminalize_delegation a state code d =
     (let r = at_run_id a;
          run_status = (if state = delegation_succeeded then completed
                        else if state = delegation_cancelled then cancelled else failed);
          job_status = (if state = delegation_succeeded then succeeded
                        else if state = delegation_cancelled then cancelled else failed);
          ends_run = (\<lambda>t. tk_run_id t = r \<and> tk_run_status t = running \<and> list_ex (waiting_child r) (jd_delegations d))
      in if terminalize_lifecycle state code \<lparr>dlc_state = delegation_waiting, dlc_error_code = [], dlc_consumed = False\<rparr> = None
         then Inl Q_Invalid_Delegation
         else if \<not> list_ex (waiting_child r) (jd_delegations d) then Inl Q_No_Rows
         else
           let runs = affected ends_run d;
               d1 = update_runs ends_run (\<lambda>t. t\<lparr>tk_run_status := run_status, tk_error_code := nullif code\<rparr>) d;
               jobs = affected (owns_lease a) d1;
               d2 = update_tasks (owns_lease a) (end_job job_status) d1
           in if runs \<noteq> 1 \<or> jobs \<noteq> 1 then Inl Q_Lease_Lost
              else if length (filter (waiting_child r) (jd_delegations d2)) \<noteq> 1 then Inl Q_Handoff_Lost
              else Inr (resume_parent r (end_delegations (waiting_child r) state code d2)))"

section \<open>Failing an attempt\<close>

definition fail_research_payload :: "gostring \<Rightarrow> gostring \<Rightarrow> job_db \<Rightarrow> (queue_error, job_db) result" where
  "fail_research_payload r code d =
     (if blank r \<or> \<not> safe_attempt_error_code code then Inl Q_Invalid_Payload
      else Inr (d\<lparr>jd_discoveries := map (\<lambda>x.
          if ds_run_id x = r \<and> ds_research x \<and> ds_status x = ''searching''
          then x\<lparr>ds_status := failed, ds_error_code := Some code\<rparr> else x) (jd_discoveries d)\<rparr>))"

definition session_of :: "gostring \<Rightarrow> research_session \<Rightarrow> bool" where
  "session_of r x \<longleftrightarrow>
     (rh_planning_run x = Some r \<and> (rh_status x = ''planning'' \<or> rh_status x = ''awaiting_input''))
     \<or> (rh_execution_run x = Some r \<and> (rh_status x = queued \<or> rh_status x = running \<or> rh_status x = ''publishing''))"

definition fail_session :: "gostring \<Rightarrow> gostring \<Rightarrow> job_db \<Rightarrow> (queue_error, job_db) result" where
  "fail_session r code d =
     (if length (filter (session_of r) (jd_sessions d)) \<noteq> 1 then Inl Q_Lease_Lost
      else Inr (d\<lparr>jd_sessions := map (\<lambda>x.
          if session_of r x then x\<lparr>rh_status := failed, rh_error_code := Some code\<rparr> else x) (jd_sessions d)\<rparr>))"

definition fail_leased :: "attempt \<Rightarrow> gostring \<Rightarrow> job_db \<Rightarrow> (queue_error, job_db) result" where
  "fail_leased a code d =
     (let jobs = affected (owns_lease a) d;
          d1 = update_tasks (owns_lease a) (\<lambda>t. (end_job failed t)\<lparr>tk_last_error := Some code\<rparr>) d;
          ends_run = (\<lambda>t. tk_run_id t = at_run_id a \<and> tk_run_status t = running \<and> tk_output_message t = None);
          runs = affected ends_run d1;
          d2 = update_runs ends_run (\<lambda>t. t\<lparr>tk_run_status := failed, tk_error_code := Some code\<rparr>) d1
      in if jobs \<noteq> 1 \<or> runs \<noteq> 1 then Inl Q_Lease_Lost else Inr d2)"

definition terminalize_attempt_state :: "attempt \<Rightarrow> gostring \<Rightarrow> job_db \<Rightarrow> (queue_error, job_db) result" where
  "terminalize_attempt_state a code d =
     (if at_job_id a = [] \<or> at_run_id a = [] \<or> at_lease_token a = [] \<or> at_attempt_no a < 1
         \<or> \<not> safe_attempt_error_code code
      then Inl Q_Invalid_Terminalization
      else case find_run (at_run_id a) d of
        None \<Rightarrow> Inl Q_No_Rows
      | Some t \<Rightarrow>
          bind_result
            (if is_research t
             then bind_result (fail_research_payload (at_run_id a) code d) (terminalize_delegation a delegation_failed code)
             else if is_chat_leader t \<or> is_studio t \<or> is_configured_research t
             then bind_result (fail_leased a code d) (\<lambda>d1.
               if is_configured_research t \<and> tk_parent t = None then fail_session (at_run_id a) code d1 else Inr d1)
             else Inl Q_Unsupported_Role)
            (\<lambda>d1. Inr (update_tasks (\<lambda>t. tk_job_id t = at_job_id a) (\<lambda>t. t\<lparr>tk_last_error := Some code\<rparr>) d1)))"

section \<open>The kernel of delegation\<close>

text \<open>The child's row takes its columns from the leader's and from the profile of its role.\<close>

record child_profile =
  cp_max_attempts :: "int option"

definition child_task :: "gostring \<Rightarrow> gostring \<Rightarrow> child_profile \<Rightarrow> task \<Rightarrow> int \<Rightarrow> task" where
  "child_task run job profile parent now =
     parent\<lparr>tk_run_id := run, tk_run_status := queued, tk_error_code := None, tk_max_attempts := cp_max_attempts profile,
            tk_runtime_kind := kind_legacy, tk_role := Some role_research, tk_executor := None,
            tk_output_message := None, tk_parent := None, tk_cancelled_attempt := None, tk_job_id := job,
            tk_status := queued, tk_attempt_no := 0, tk_failed_attempts := 0, tk_lease_token := None,
            tk_lease_expires_at := None, tk_available_at := now, tk_created_at := now, tk_last_error := None\<rparr>"

definition create_delegation ::
  "attempt \<Rightarrow> gostring \<Rightarrow> gostring \<Rightarrow> gostring \<Rightarrow> gostring \<Rightarrow> child_profile \<Rightarrow> job_db \<Rightarrow> (queue_error, job_db) result" where
  "create_delegation a run job role prompt profile d =
     (if role \<noteq> role_research \<or> run = [] \<or> job = [] \<or> prompt = [] then Inl Q_Invalid_Delegation
      else case find (\<lambda>t. tk_run_id t = at_run_id a \<and> tk_role t = Some role_leader \<and> tk_run_status t = running
                          \<and> ahead (tk_deadline t) (jd_now d)) (jd_tasks d) of
        None \<Rightarrow> Inl Q_Constraint
      | Some parent \<Rightarrow>
          if list_ex (\<lambda>t. tk_run_id t = run \<or> tk_job_id t = job) (jd_tasks d)
             \<or> list_ex (\<lambda>x. dl_child_run x = run \<or> dl_parent_run x = at_run_id a) (jd_delegations d)
          then Inl Q_Constraint
          else
            let d1 = d\<lparr>jd_tasks := jd_tasks d @ [child_task run job profile parent (jd_now d)],
                       jd_delegations := jd_delegations d @ [\<lparr>dl_parent_run = at_run_id a, dl_child_run = run,
                         dl_state = delegation_waiting, dl_error_code = None, dl_consumed = False\<rparr>]\<rparr>
            in if affected (owns_lease a) d1 \<noteq> 1 then Inl Q_Lease_Lost
               else Inr (update_tasks (owns_lease a) (end_job waiting) d1))"

definition consume_delegation :: "gostring \<Rightarrow> gostring \<Rightarrow> job_db \<Rightarrow> (queue_error, job_db) result" where
  "consume_delegation parent terminal d =
     (let mine = (\<lambda>x. dl_parent_run x = parent \<and> dl_state x = terminal \<and> \<not> dl_consumed x)
      in if terminal \<noteq> delegation_succeeded \<and> terminal \<noteq> delegation_failed \<and> terminal \<noteq> delegation_cancelled
         then Inl Q_Invalid_Delegation
         else if \<not> list_ex mine (jd_delegations d) then Inl Q_No_Rows
         else if length (filter mine (jd_delegations d)) \<noteq> 1 then Inl Q_Handoff_Lost
         else Inr (d\<lparr>jd_delegations := map (\<lambda>x. if mine x then x\<lparr>dl_consumed := True\<rparr> else x) (jd_delegations d)\<rparr>))"

definition is_delegating :: "job_db \<Rightarrow> gostring \<Rightarrow> bool" where
  "is_delegating d r \<longleftrightarrow> list_ex (\<lambda>x. dl_parent_run x = r) (jd_delegations d)"

definition complete_parent_job :: "attempt \<Rightarrow> job_db \<Rightarrow> (queue_error, job_db) result" where
  "complete_parent_job a d =
     (let mine = (\<lambda>t. owns_lease a t \<and> tk_run_status t = completed \<and> is_delegating d (at_run_id a))
      in if affected mine d \<noteq> 1 then Inl Q_Lease_Lost else Inr (update_tasks mine (end_job succeeded) d))"

definition fail_parent :: "attempt \<Rightarrow> gostring \<Rightarrow> job_db \<Rightarrow> (queue_error, job_db) result" where
  "fail_parent a code d =
     (let ends_run = (\<lambda>t. tk_run_id t = at_run_id a \<and> tk_run_status t = running \<and> tk_output_message t = None
                        \<and> is_delegating d (at_run_id a));
          runs = affected ends_run d;
          d1 = update_runs ends_run (\<lambda>t. t\<lparr>tk_run_status := failed, tk_error_code := Some code\<rparr>) d;
          jobs = affected (owns_lease a) d1;
          d2 = update_tasks (owns_lease a) (\<lambda>t. (end_job failed t)\<lparr>tk_last_error := Some code\<rparr>) d1
      in if \<not> safe_attempt_error_code code then Inl Q_Invalid_Parent_Failure
         else if runs \<noteq> 1 \<or> jobs \<noteq> 1 then Inl Q_Lease_Lost else Inr d2)"

text \<open>
  One statement with common table expressions: every part reads the rows as they were before it, so
  the Jobs are those of the Runs that it cancels.
\<close>

definition cancel_tree :: "gostring \<Rightarrow> gostring \<Rightarrow> job_db \<Rightarrow> (queue_error, job_db) result" where
  "cancel_tree parent code d =
     (let mine = (\<lambda>x. dl_parent_run x = parent \<and> dl_state x = delegation_waiting);
          child = (\<lambda>t. list_ex (\<lambda>x. mine x \<and> dl_child_run x = tk_run_id t) (jd_delegations d)
                       \<and> active_run (tk_run_status t));
          jobs = affected (\<lambda>t. child t \<and> active_run (tk_status t)) d;
          d1 = update_tasks (\<lambda>t. child t \<and> active_run (tk_status t)) (end_job cancelled) d;
          d2 = update_runs child (\<lambda>t. t\<lparr>tk_run_status := cancelled, tk_error_code := Some code\<rparr>) d1
      in if parent = [] \<or> blank code then Inl Q_Invalid_Delegation
         else if \<not> list_ex mine (jd_delegations d) then Inl Q_No_Rows
         else if jobs \<noteq> 1 then Inl Q_Handoff_Lost
         else Inr (end_delegations mine delegation_cancelled code d2))"

section \<open>Deadlines\<close>

definition expiry_filter :: "gostring \<Rightarrow> gostring \<Rightarrow> job_db \<Rightarrow> task \<Rightarrow> bool" where
  "expiry_filter user run d t \<longleftrightarrow>
     (user = [] \<or> tk_tree_user t = Some user)
     \<and> (run = [] \<or> tk_run_id t = run
        \<or> list_ex (\<lambda>x. dl_parent_run x = run \<and> dl_child_run x = tk_run_id t) (jd_delegations d)
        \<or> tk_parent t = Some run)"

definition is_overdue :: "job_db \<Rightarrow> task \<Rightarrow> bool" where
  "is_overdue d t \<longleftrightarrow> active_run (tk_run_status t) \<and> active_job (tk_status t) \<and> past (tk_deadline t) (jd_now d)"

text \<open>Subagents come before the Runs that own them.\<close>

definition overdue :: "gostring \<Rightarrow> gostring \<Rightarrow> job_db \<Rightarrow> task list" where
  "overdue user run d =
     (let rows = sort_key tk_run_id (filter (\<lambda>t. is_overdue d t \<and> expiry_filter user run d t) (jd_tasks d))
      in filter (\<lambda>t. tk_parent t \<noteq> None) rows @ filter (\<lambda>t. tk_parent t = None) rows)"

definition run_deadline_exceeded :: gostring where "run_deadline_exceeded = ''run_deadline_exceeded''"

definition expire_run :: "job_db \<Rightarrow> task \<Rightarrow> (queue_error, job_db) result" where
  "expire_run d item =
     (let ends_run = (\<lambda>t. tk_run_id t = tk_run_id item \<and> active_run (tk_run_status t) \<and> past (tk_deadline t) (jd_now d));
          runs = affected ends_run d;
          d1 = update_runs ends_run (\<lambda>t. t\<lparr>tk_run_status := failed, tk_error_code := Some run_deadline_exceeded\<rparr>) d;
          ends_job = (\<lambda>t. tk_job_id t = tk_job_id item \<and> active_job (tk_status t));
          jobs = affected ends_job d1;
          d2 = update_tasks ends_job (end_job failed) d1
      in if runs \<noteq> 1 \<or> jobs \<noteq> 1 then Inl Q_Not_Together
         else fail_research_payload (tk_run_id item) ''research_deadline_exceeded''
                (end_delegations (waiting_child (tk_run_id item)) delegation_failed run_deadline_exceeded d2))"

definition expire_if_overdue :: "gostring \<Rightarrow> gostring \<Rightarrow> job_db \<Rightarrow> (queue_error, job_db \<times> nat) result" where
  "expire_if_overdue user run d =
     bind_result (fold_result expire_run d (overdue user run d)) (\<lambda>d1. Inr (d1, length (overdue user run d)))"

section \<open>Cancellation\<close>

definition research_child_of :: "gostring \<Rightarrow> job_db \<Rightarrow> task option" where
  "research_child_of parent d =
     find (\<lambda>t. is_research t \<and> list_ex (\<lambda>x. dl_parent_run x = parent \<and> dl_child_run x = tk_run_id t) (jd_delegations d))
       (jd_tasks d)"

definition cancel_run :: "gostring \<Rightarrow> gostring \<Rightarrow> job_db \<Rightarrow> (queue_error, job_db) result" where
  "cancel_run user run d =
     (case find (\<lambda>t. tk_run_id t = run \<and> tk_user t = Some user
                     \<and> ((tk_runtime_kind t = kind_legacy \<and> tk_role t = Some role_leader) \<or> tk_runtime_kind t = kind_configured))
             (jd_tasks d) of
        None \<Rightarrow> Inl Q_Run_Not_Found
      | Some t \<Rightarrow>
          if tk_run_status t = cancelled then Inr d
          else if tk_run_status t = completed \<or> tk_run_status t = failed then Inl Q_Not_Cancellable
          else bind_result
            (case research_child_of run d of
               None \<Rightarrow> Inr d
             | Some child \<Rightarrow>
                 bind_result (cancel_tree run ''research_cancelled'' d)
                   (fail_research_payload (tk_run_id child) ''research_cancelled''))
            (\<lambda>d1.
               let ends_run = (\<lambda>x. tk_run_id x = run \<and> active_run (tk_run_status x));
                   runs = affected ends_run d1;
                   d2 = update_runs ends_run (\<lambda>x. x\<lparr>tk_run_status := cancelled, tk_error_code := None\<rparr>) d1;
                   ends_job = (\<lambda>x. tk_job_id x = tk_job_id t \<and> active_job (tk_status x));
                   jobs = affected ends_job d2
               in if runs \<noteq> 1 \<or> jobs \<noteq> 1 then Inl Q_Not_Cancellable
                  else Inr (update_tasks ends_job (end_job cancelled) d2)))"

end
