(* ===== verification/Job_Queue.thy ===== *)
theory Job_Queue
  imports Job_Store
begin

text \<open>
  The queue of Agent Jobs (\<open>internal/jobs/queue.go\<close>): a worker claims the first runnable Job under a
  lease, keeps it alive, and resolves the attempt. A Job whose lease ran out can be claimed again until
  its attempts are used up. The token of a lease, the rows other transactions hold, and the worker's own
  clock are parameters; trace rows, notifications and metrics are left out.
\<close>

section \<open>Claiming\<close>

definition max_agent_leases :: int where "max_agent_leases = 100"

record claimed_job =
  cj_id :: gostring
  cj_run_id :: gostring
  cj_attempt_no :: int
  cj_lease_token :: gostring
  cj_max_attempts :: int
  cj_failed_attempts :: int
  cj_deadline :: int

definition claimable :: "int \<Rightarrow> task \<Rightarrow> bool" where
  "claimable now t \<longleftrightarrow>
     (tk_status t = queued \<and> tk_available_at t \<le> now \<and> tk_run_status t = queued)
     \<or> (tk_status t = running \<and> tk_run_status t = running \<and> past (tk_lease_expires_at t) now)"

definition claim_order :: "gostring list \<Rightarrow> job_db \<Rightarrow> task list" where
  "claim_order locked d =
     sort_key tk_available_at (sort_key tk_created_at (sort_key tk_job_id
       (filter (\<lambda>t. claimable (jd_now d) t \<and> tk_job_id t \<notin> set locked) (jd_tasks d))))"

text \<open>\<open>coalesce(lease_token::text,'')\<close>\<close>

definition scan_job :: "task \<Rightarrow> (queue_error, claimed_job) result" where
  "scan_job t =
     (case (tk_max_attempts t, tk_deadline t) of
        (Some m, Some dl) \<Rightarrow>
          Inr \<lparr>cj_id = tk_job_id t, cj_run_id = tk_run_id t, cj_attempt_no = tk_attempt_no t,
               cj_lease_token = (case tk_lease_token t of None \<Rightarrow> [] | Some x \<Rightarrow> x),
               cj_max_attempts = m, cj_failed_attempts = tk_failed_attempts t, cj_deadline = dl\<rparr>
      | _ \<Rightarrow> Inl Q_Null_Column)"

definition job_attempt :: "claimed_job \<Rightarrow> attempt" where
  "job_attempt j =
     \<lparr>at_job_id = cj_id j, at_run_id = cj_run_id j, at_attempt_no = cj_attempt_no j, at_lease_token = cj_lease_token j\<rparr>"

definition recovery_exhausted :: gostring where "recovery_exhausted = ''recovery_exhausted''"

definition exhaust_recovery :: "claimed_job \<Rightarrow> job_db \<Rightarrow> (queue_error, job_db) result" where
  "exhaust_recovery j d = terminalize_attempt_state (job_attempt j) recovery_exhausted d"

datatype claim_step = No_Job | Exhausted_Job gostring | Claimed_Job claimed_job

definition lease_task :: "gostring \<Rightarrow> int \<Rightarrow> bool \<Rightarrow> job_db \<Rightarrow> task \<Rightarrow> task" where
  "lease_task token lease lost d t =
     t\<lparr>tk_status := running, tk_attempt_no := tk_attempt_no t + 1,
       tk_failed_attempts := tk_failed_attempts t + (if lost then 1 else 0),
       tk_lease_token := Some token, tk_lease_expires_at := Some (jd_now d + lease)\<rparr>"

definition claim_leased :: "gostring \<Rightarrow> int \<Rightarrow> bool \<Rightarrow> claimed_job \<Rightarrow> job_db \<Rightarrow> (queue_error, claim_step \<times> job_db) result" where
  "claim_leased token lease lost j d =
     (let mine = (\<lambda>t. tk_job_id t = cj_id j);
          jobs = affected mine d;
          d1 = update_tasks mine (lease_task token lease lost d) d;
          starts = (\<lambda>t. tk_run_id t = cj_run_id j \<and> active_run (tk_run_status t));
          runs = affected starts d1;
          d2 = update_runs starts (\<lambda>t. t\<lparr>tk_run_status := running\<rparr>) d1
      in if jobs \<noteq> 1 \<or> runs \<noteq> 1 then Inl Q_Not_Together
         else Inr (Claimed_Job (j\<lparr>cj_attempt_no := cj_attempt_no j + 1,
                                  cj_failed_attempts := cj_failed_attempts j + (if lost then 1 else 0),
                                  cj_lease_token := token\<rparr>), d2))"

definition claim_tx :: "gostring \<Rightarrow> int \<Rightarrow> gostring list \<Rightarrow> job_db \<Rightarrow> (queue_error, claim_step \<times> job_db) result" where
  "claim_tx token lease locked d0 =
     bind_result (expire_if_overdue [] [] d0) (\<lambda>(d, n).
       case claim_order locked d of
         [] \<Rightarrow> Inr (No_Job, d)
       | t # _ \<Rightarrow>
           bind_result (scan_job t) (\<lambda>j.
             let lost = (tk_status t = running)
             in if (lost \<and> (cj_failed_attempts j + 1 \<ge> cj_max_attempts j \<or> cj_attempt_no j \<ge> max_agent_leases))
                   \<or> (\<not> lost \<and> cj_attempt_no j \<ge> max_agent_leases)
                then bind_result (exhaust_recovery j d) (\<lambda>d1. Inr (Exhausted_Job (cj_id j), d1))
                else claim_leased token lease lost j d))"

text \<open>Before each transaction of the loop other transactions may run and time passes.\<close>

record claim_env =
  ce_token :: gostring
  ce_locked :: "gostring list"
  ce_before :: "job_db \<Rightarrow> job_db"

fun claim_next :: "int \<Rightarrow> claim_env list \<Rightarrow> job_db \<Rightarrow> (queue_error, claimed_job option) result option \<times> job_db" where
  "claim_next lease [] d = (None, d)"
| "claim_next lease (e # es) d0 =
     (let d = ce_before e d0
      in case claim_tx (ce_token e) lease (ce_locked e) d of
           Inl err \<Rightarrow> (Some (Inl err), d)
         | Inr (No_Job, d1) \<Rightarrow> (Some (Inr None), d1)
         | Inr (Claimed_Job j, d1) \<Rightarrow> (Some (Inr (Some j)), d1)
         | Inr (Exhausted_Job _, d1) \<Rightarrow> claim_next lease es d1)"

section \<open>Keeping and giving up a lease\<close>

definition heartbeat :: "gostring \<Rightarrow> gostring \<Rightarrow> int \<Rightarrow> int \<Rightarrow> job_db \<Rightarrow> bool \<times> job_db" where
  "heartbeat job token lease standard d =
     (let l = (if lease \<le> 0 then standard else lease);
          mine = (\<lambda>t. tk_job_id t = job \<and> tk_status t = running \<and> tk_lease_token t = Some token
                      \<and> ahead (tk_lease_expires_at t) (jd_now d))
      in (affected mine d = 1, update_tasks mine (\<lambda>t. t\<lparr>tk_lease_expires_at := Some (jd_now d + l)\<rparr>) d))"

definition release_lease :: "gostring \<Rightarrow> gostring \<Rightarrow> job_db \<Rightarrow> bool \<times> job_db" where
  "release_lease job token d =
     (let mine = (\<lambda>t. tk_job_id t = job \<and> tk_status t = running \<and> tk_lease_token t = Some token)
      in (affected mine d = 1, update_tasks mine (\<lambda>t. t\<lparr>tk_lease_expires_at := Some (jd_now d)\<rparr>) d))"

section \<open>Resolving an attempt\<close>

definition already_terminal :: gostring where "already_terminal = ''already_terminal''"

definition terminal_job_disposition :: "gostring \<Rightarrow> gostring \<Rightarrow> attempt_resolution option" where
  "terminal_job_disposition status code =
     (if status = succeeded then Some (resolution attempt_completed [])
      else if status = waiting then Some (resolution attempt_waiting [])
      else if status = failed then
        Some (resolution attempt_terminal
          (if resolution_valid (resolution attempt_terminal code) then code else already_terminal))
      else if status = cancelled then Some (resolution attempt_abandoned cause_cancelled)
      else None)"

definition stored_error_code :: "task \<Rightarrow> gostring" where
  "stored_error_code t =
     (case tk_last_error t of Some c \<Rightarrow> c
      | None \<Rightarrow> (case tk_error_code t of Some c \<Rightarrow> c | None \<Rightarrow> already_terminal))"

definition requeue :: "claimed_job \<Rightarrow> attempt_resolution \<Rightarrow> job_db \<Rightarrow> (queue_error, job_db) result" where
  "requeue j r d =
     (let mine = owns_lease (job_attempt j);
          jobs = affected mine d;
          d1 = update_tasks mine (\<lambda>t. (end_job queued t)\<lparr>tk_failed_attempts := tk_failed_attempts t + 1,
                 tk_available_at := jd_now d + ars_backoff r, tk_last_error := Some (ars_error_code r)\<rparr>) d;
          stops = (\<lambda>t. tk_run_id t = cj_run_id j \<and> tk_run_status t = running);
          runs = affected stops d1;
          d2 = update_runs stops (\<lambda>t. t\<lparr>tk_run_status := queued\<rparr>) d1
      in if jobs \<noteq> 1 \<or> runs \<noteq> 1 then Inl Q_Lease_Lost else Inr d2)"

definition resolve_attempt ::
  "int \<Rightarrow> claimed_job \<Rightarrow> attempt_resolution \<Rightarrow> job_db \<Rightarrow> (queue_error, attempt_resolution \<times> job_db) result" where
  "resolve_attempt clock j requested d =
     (if \<not> resolution_valid requested then Inl Q_Invalid_Disposition
      else case find (\<lambda>t. tk_job_id t = cj_id j \<and> tk_run_id t = cj_run_id j) (jd_tasks d) of
        None \<Rightarrow> Inl Q_No_Rows
      | Some t \<Rightarrow>
          (case (tk_max_attempts t, tk_deadline t) of
             (Some max_attempts, Some deadline) \<Rightarrow>
               if tk_status t \<noteq> running \<or> tk_lease_token t \<noteq> Some (cj_lease_token j)
               then (case terminal_job_disposition (tk_status t) (stored_error_code t) of
                       None \<Rightarrow> Inl Q_Lease_Lost
                     | Some actual \<Rightarrow> Inr (actual, d))
               else if ars_disposition requested = attempt_completed \<or> ars_disposition requested = attempt_waiting
               then Inl Q_Not_Committed
               else if ars_disposition requested = attempt_abandoned then Inl Q_Leased_Abandoned
               else
                 let exhausted = tk_failed_attempts t + 1 \<ge> max_attempts \<or> cj_attempt_no j \<ge> max_agent_leases;
                     late = \<not> clock + ars_backoff requested < deadline
                 in if ars_disposition requested = attempt_retryable \<and> \<not> exhausted \<and> \<not> late
                    then bind_result (requeue j requested d) (\<lambda>d1. Inr (requested, d1))
                    else
                      let actual = (if ars_disposition requested \<noteq> attempt_retryable then requested
                                    else if exhausted then resolution attempt_terminal ''retry_exhausted''
                                    else resolution attempt_terminal run_deadline_exceeded)
                      in bind_result (terminalize_attempt_state (job_attempt j) (ars_error_code actual) d)
                           (\<lambda>d1. Inr (actual, d1))
           | _ \<Rightarrow> Inl Q_Null_Column))"

end
