(* ===== verification/Job_Rows.thy ===== *)
theory Job_Rows
  imports Job_Queue
begin

text \<open>
  What one statement does to the rows of the queue: the invariant of a row (\<open>task_ok\<close>: the states of Run
  and Job agree, the check constraints of \<open>agent_jobs\<close> hold, the attempts are within their limit), and the
  effect of a status update with its trigger on the updated row and on every other row.
\<close>

section \<open>The invariant of a row\<close>

definition pair_ok :: "gostring \<Rightarrow> gostring \<Rightarrow> bool" where
  "pair_ok run job \<longleftrightarrow>
     (run = queued \<and> job = queued) \<or> (run = running \<and> (job = running \<or> job = waiting))
     \<or> (run = completed \<and> job = succeeded) \<or> (run = failed \<and> job = failed) \<or> (run = cancelled \<and> job = cancelled)"

text \<open>The constraint \<open>agent_jobs_execution_state_check\<close>.\<close>

definition execution_state_ok :: "task \<Rightarrow> bool" where
  "execution_state_ok t \<longleftrightarrow>
     (if tk_status t = running
      then 1 \<le> tk_attempt_no t \<and> tk_attempt_no t \<le> 100 \<and> tk_lease_token t \<noteq> None \<and> tk_lease_expires_at t \<noteq> None
      else tk_lease_token t = None \<and> tk_lease_expires_at t = None \<and> tk_attempt_no t \<le> 100
        \<and> (if tk_status t = waiting then 1 \<le> tk_attempt_no t
           else tk_status t \<in> {queued, succeeded, failed, cancelled} \<and> 0 \<le> tk_attempt_no t))"

definition attempts_ok :: "task \<Rightarrow> bool" where
  "attempts_ok t \<longleftrightarrow>
     0 \<le> tk_failed_attempts t \<and> (\<forall>m. tk_max_attempts t = Some m \<longrightarrow> tk_failed_attempts t < m)"

definition task_ok :: "task \<Rightarrow> bool" where
  "task_ok t \<longleftrightarrow>
     pair_ok (tk_run_status t) (tk_status t) \<and> execution_state_ok t \<and> attempts_ok t
     \<and> tk_lease_token t \<noteq> Some [] \<and> tk_parent t \<noteq> Some (tk_run_id t)"

lemmas row_defs = pair_ok_def execution_state_ok_def attempts_ok_def task_ok_def

lemma statuses_distinct [simp]:
  "queued \<noteq> running" "queued \<noteq> waiting" "queued \<noteq> succeeded" "queued \<noteq> failed" "queued \<noteq> cancelled" "queued \<noteq> completed"
  "running \<noteq> queued" "running \<noteq> waiting" "running \<noteq> succeeded" "running \<noteq> failed" "running \<noteq> cancelled" "running \<noteq> completed"
  "waiting \<noteq> queued" "waiting \<noteq> running" "waiting \<noteq> succeeded" "waiting \<noteq> failed" "waiting \<noteq> cancelled" "waiting \<noteq> completed"
  "succeeded \<noteq> queued" "succeeded \<noteq> running" "succeeded \<noteq> waiting" "succeeded \<noteq> failed" "succeeded \<noteq> cancelled" "succeeded \<noteq> completed"
  "failed \<noteq> queued" "failed \<noteq> running" "failed \<noteq> waiting" "failed \<noteq> succeeded" "failed \<noteq> cancelled" "failed \<noteq> completed"
  "cancelled \<noteq> queued" "cancelled \<noteq> running" "cancelled \<noteq> waiting" "cancelled \<noteq> succeeded" "cancelled \<noteq> failed" "cancelled \<noteq> completed"
  "completed \<noteq> queued" "completed \<noteq> running" "completed \<noteq> waiting" "completed \<noteq> succeeded" "completed \<noteq> failed" "completed \<noteq> cancelled"
  by (simp_all add: statuses)

lemma terminal_run_simps [simp]:
  "terminal_run completed" "terminal_run failed" "terminal_run cancelled" "\<not> terminal_run queued" "\<not> terminal_run running"
  by (simp_all add: terminal_run_def)

lemma active_run_simps [simp]:
  "active_run queued" "active_run running" "\<not> active_run completed" "\<not> active_run failed" "\<not> active_run cancelled"
  by (simp_all add: active_run_def)

lemma active_job_simps [simp]:
  "active_job queued" "active_job running" "active_job waiting"
  "\<not> active_job succeeded" "\<not> active_job failed" "\<not> active_job cancelled"
  by (simp_all add: active_job_def)

lemma pair_ok_active: "pair_ok r j \<Longrightarrow> active_run r \<longleftrightarrow> active_job j"
  by (auto simp: pair_ok_def)

lemma pair_ok_terminal: "pair_ok r j \<Longrightarrow> terminal_run r \<longleftrightarrow> \<not> active_run r"
  by (auto simp: pair_ok_def)

section \<open>Rows that a statement does not name\<close>

definition cancelled_child :: "task \<Rightarrow> task" where
  "cancelled_child t =
     end_job cancelled (t\<lparr>tk_cancelled_attempt := Some (if tk_status t = running then tk_attempt_no t else 0),
                          tk_run_status := cancelled, tk_error_code := Some ''parent_terminal''\<rparr>)"

text \<open>A bystander of a statement: unchanged, woken, or cancelled with its parent.\<close>

definition bystander :: "task \<Rightarrow> task \<Rightarrow> bool" where
  "bystander t t' \<longleftrightarrow>
     (\<exists>a. t' = t\<lparr>tk_available_at := a\<rparr>
        \<or> (tk_parent t \<noteq> None \<and> active_run (tk_run_status t) \<and> t' = cancelled_child (t\<lparr>tk_available_at := a\<rparr>)))"

lemma bystander_refl: "bystander t t"
  unfolding bystander_def by (rule exI [of _ "tk_available_at t"]) simp

lemma cancel_child_cases:
  assumes "pair_ok (tk_run_status t) (tk_status t)"
  shows "cancel_child r t = t
    \<or> (tk_parent t \<noteq> None \<and> active_run (tk_run_status t) \<and> cancel_child r t = cancelled_child t)"
proof (cases "tk_parent t = Some r \<and> active_run (tk_run_status t)")
  case True
  then have "active_job (tk_status t)" using pair_ok_active [OF assms] by simp
  with True show ?thesis by (simp add: cancel_child_def Let_def cancelled_child_def)
next
  case False
  then have "\<not> (tk_run_status t = cancelled \<and> active_job (tk_status t))"
    using pair_ok_active [OF assms] by auto
  with False show ?thesis by (auto simp: cancel_child_def Let_def)
qed

lemma cancel_child_bystander:
  assumes "pair_ok (tk_run_status t) (tk_status t)"
  shows "bystander t (cancel_child r (if w then t\<lparr>tk_available_at := a\<rparr> else t))"
proof -
  obtain b where b: "(if w then t\<lparr>tk_available_at := a\<rparr> else t) = t\<lparr>tk_available_at := b\<rparr>"
    by (cases w) (auto intro: that [of "tk_available_at t"])
  let ?t = "t\<lparr>tk_available_at := b\<rparr>"
  have "cancel_child r ?t = ?t
      \<or> (tk_parent t \<noteq> None \<and> active_run (tk_run_status t) \<and> cancel_child r ?t = cancelled_child ?t)"
    using cancel_child_cases [of ?t r] assms by simp
  then show ?thesis unfolding b bystander_def by blast
qed

lemma bystander_keys:
  assumes "bystander t t'"
  shows "tk_run_id t' = tk_run_id t" "tk_job_id t' = tk_job_id t" "tk_parent t' = tk_parent t"
    "tk_max_attempts t' = tk_max_attempts t" "tk_deadline t' = tk_deadline t" "tk_attempt_no t' = tk_attempt_no t"
    "tk_failed_attempts t' = tk_failed_attempts t"
  using assms by (auto simp: bystander_def cancelled_child_def end_job_def)

lemma cancelled_child_ok: "task_ok t \<Longrightarrow> task_ok (cancelled_child t)"
  by (cases "tk_status t = running"; cases "tk_status t = waiting") (auto simp: cancelled_child_def end_job_def row_defs)

lemma available_ok [simp]: "task_ok (t\<lparr>tk_available_at := a\<rparr>) = task_ok t"
  by (simp add: row_defs)

lemma bystander_ok:
  assumes "bystander t t'" "task_ok t" shows "task_ok t'"
proof -
  from assms(1) consider a where "t' = t\<lparr>tk_available_at := a\<rparr>" | a where "t' = cancelled_child (t\<lparr>tk_available_at := a\<rparr>)"
    unfolding bystander_def by blast
  then show ?thesis by cases (use assms(2) in \<open>simp_all add: cancelled_child_ok\<close>)
qed

lemma bystander_status:
  assumes "bystander t t'"
  shows "(tk_run_status t' = tk_run_status t \<and> tk_status t' = tk_status t)
    \<or> (tk_run_status t' = cancelled \<and> tk_status t' = cancelled \<and> active_run (tk_run_status t))"
  using assms by (auto simp: bystander_def cancelled_child_def end_job_def)

section \<open>Statements on one Run\<close>

lemma update_tasks_sel [simp]:
  "jd_tasks (update_tasks P f d) = map (\<lambda>t. if P t then f t else t) (jd_tasks d)"
  "jd_delegations (update_tasks P f d) = jd_delegations d" "jd_waits (update_tasks P f d) = jd_waits d"
  "jd_discoveries (update_tasks P f d) = jd_discoveries d" "jd_sessions (update_tasks P f d) = jd_sessions d"
  "jd_now (update_tasks P f d) = jd_now d"
  by (simp_all add: update_tasks_def)

lemma sync_sel [simp]:
  "jd_tasks (sync_subagents r d) =
     map (\<lambda>t. cancel_child r (if waits_for d r t then t\<lparr>tk_available_at := jd_now d\<rparr> else t)) (jd_tasks d)"
  "jd_delegations (sync_subagents r d) = jd_delegations d" "jd_waits (sync_subagents r d) = jd_waits d"
  "jd_discoveries (sync_subagents r d) = jd_discoveries d" "jd_sessions (sync_subagents r d) = jd_sessions d"
  "jd_now (sync_subagents r d) = jd_now d"
  by (simp_all add: sync_subagents_def Let_def)

lemma fold_sync_sel [simp]:
  "jd_delegations (fold sync_subagents rs d) = jd_delegations d" "jd_waits (fold sync_subagents rs d) = jd_waits d"
  "jd_discoveries (fold sync_subagents rs d) = jd_discoveries d" "jd_sessions (fold sync_subagents rs d) = jd_sessions d"
  "jd_now (fold sync_subagents rs d) = jd_now d"
  by (induction rs arbitrary: d) simp_all

lemma update_runs_sel [simp]:
  "jd_delegations (update_runs P f d) = jd_delegations d" "jd_waits (update_runs P f d) = jd_waits d"
  "jd_discoveries (update_runs P f d) = jd_discoveries d" "jd_sessions (update_runs P f d) = jd_sessions d"
  "jd_now (update_runs P f d) = jd_now d"
  by (simp_all add: update_runs_def)

lemma distinct_filter_one:
  assumes "distinct (map k xs)" "\<And>x. x \<in> set xs \<Longrightarrow> P x \<Longrightarrow> k x = r"
  shows "filter P xs = [] \<or> (\<exists>x. filter P xs = [x] \<and> x \<in> set xs \<and> P x)"
  using assms
proof (induction xs)
  case (Cons x xs)
  show ?case
  proof (cases "P x")
    case True
    with Cons.prems have "filter P xs = []" by (auto simp: filter_empty_conv)
    with True show ?thesis by simp
  next
    case False
    with Cons show ?thesis by fastforce
  qed
qed simp

definition keeps_keys :: "(task \<Rightarrow> task) \<Rightarrow> bool" where
  "keeps_keys f \<longleftrightarrow>
     (\<forall>t. tk_run_id (f t) = tk_run_id t \<and> tk_job_id (f t) = tk_job_id t \<and> tk_parent (f t) = tk_parent t)"

lemma update_runs_rows:
  assumes dist: "distinct (map tk_run_id (jd_tasks d))"
    and own: "\<And>t. t \<in> set (jd_tasks d) \<Longrightarrow> P t \<Longrightarrow> tk_run_id t = r \<and> tk_parent t \<noteq> Some r"
    and keep: "keeps_keys f"
    and pairs: "\<And>t. t \<in> set (jd_tasks d) \<Longrightarrow> \<not> P t \<Longrightarrow> pair_ok (tk_run_status t) (tk_status t)"
  obtains h where "jd_tasks (update_runs P f d) = map h (jd_tasks d)"
    "\<And>t. t \<in> set (jd_tasks d) \<Longrightarrow> P t \<Longrightarrow> h t = f t"
    "\<And>t. t \<in> set (jd_tasks d) \<Longrightarrow> \<not> P t \<Longrightarrow> bystander t (h t)"
proof -
  let ?E = "\<lambda>t. P t \<and> \<not> terminal_run (tk_run_status t) \<and> terminal_run (tk_run_status (f t))"
  let ?d = "update_tasks P f d"
  from distinct_filter_one [OF dist, of ?E r] own consider
      "filter ?E (jd_tasks d) = []"
    | x where "filter ?E (jd_tasks d) = [x]" "x \<in> set (jd_tasks d)" "?E x"
    by blast
  then show ?thesis
  proof cases
    case 1
    then have "jd_tasks (update_runs P f d) = map (\<lambda>t. if P t then f t else t) (jd_tasks d)"
      by (simp add: update_runs_def)
    then show ?thesis by (rule that) (simp_all add: bystander_refl)
  next
    case (2 x)
    with own have r: "tk_run_id x = r" by blast
    let ?h = "\<lambda>t. cancel_child r (if waits_for ?d r (if P t then f t else t)
      then (if P t then f t else t)\<lparr>tk_available_at := jd_now d\<rparr> else (if P t then f t else t))"
    have "jd_tasks (update_runs P f d) = map ?h (jd_tasks d)"
      using 2(1) r by (simp add: update_runs_def comp_def)
    then show ?thesis
    proof (rule that)
      fix t assume t: "t \<in> set (jd_tasks d)" "P t"
      with own have own_t: "tk_run_id t = r" "tk_parent t \<noteq> Some r" by auto
      with 2 r t dist have "t = x" by (auto simp: distinct_map dest: inj_onD)
      with 2(3) have "tk_run_status (f t) \<noteq> queued" by auto
      moreover have "tk_parent (f t) \<noteq> Some r" using own_t keep by (simp add: keeps_keys_def)
      ultimately show "?h t = f t" using t by (simp add: waits_for_def cancel_child_def)
    next
      fix t assume t: "t \<in> set (jd_tasks d)" "\<not> P t"
      show "bystander t (?h t)"
        unfolding if_not_P [OF t(2)] by (rule cancel_child_bystander [OF pairs [OF t]])
    qed
  qed
qed

section \<open>Moving one Run and its Job together\<close>

definition rows_ok :: "job_db \<Rightarrow> bool" where
  "rows_ok d \<longleftrightarrow>
     distinct (map tk_run_id (jd_tasks d)) \<and> distinct (map tk_job_id (jd_tasks d)) \<and> (\<forall>t \<in> set (jd_tasks d). task_ok t)"

lemma rows_okD:
  assumes "rows_ok d"
  shows "distinct (map tk_run_id (jd_tasks d))" "distinct (map tk_job_id (jd_tasks d))"
    "t \<in> set (jd_tasks d) \<Longrightarrow> task_ok t"
    "t \<in> set (jd_tasks d) \<Longrightarrow> pair_ok (tk_run_status t) (tk_status t)"
    "t \<in> set (jd_tasks d) \<Longrightarrow> tk_parent t \<noteq> Some (tk_run_id t)"
  using assms by (auto simp: rows_ok_def task_ok_def)

lemma same_row:
  assumes "rows_ok d" "t \<in> set (jd_tasks d)" "t' \<in> set (jd_tasks d)"
  shows "tk_run_id t = tk_run_id t' \<Longrightarrow> t = t'" "tk_job_id t = tk_job_id t' \<Longrightarrow> t = t'"
  using assms by (auto simp: rows_ok_def distinct_map dest: inj_onD)

text \<open>The row \<open>t\<close> becomes \<open>u\<close>, and every other row is a bystander.\<close>

definition moved :: "job_db \<Rightarrow> task \<Rightarrow> task \<Rightarrow> job_db \<Rightarrow> bool" where
  "moved d t u d' \<longleftrightarrow>
     t \<in> set (jd_tasks d)
     \<and> (\<exists>h. jd_tasks d' = map h (jd_tasks d) \<and> h t = u \<and> (\<forall>x \<in> set (jd_tasks d). x \<noteq> t \<longrightarrow> bystander x (h x)))"

lemma rows_ok_map:
  assumes "rows_ok d" "jd_tasks d' = map h (jd_tasks d)"
    and row: "\<And>t. t \<in> set (jd_tasks d) \<Longrightarrow> tk_run_id (h t) = tk_run_id t \<and> tk_job_id (h t) = tk_job_id t \<and> task_ok (h t)"
  shows "rows_ok d'"
proof -
  from row have "map tk_run_id (jd_tasks d') = map tk_run_id (jd_tasks d)"
      "map tk_job_id (jd_tasks d') = map tk_job_id (jd_tasks d)"
    by (simp_all add: assms(2))
  with assms(1) row show ?thesis by (simp only: rows_ok_def) (simp add: assms(2))
qed

lemma moved_ok:
  assumes "rows_ok d" "moved d t u d'" "task_ok u" "tk_run_id u = tk_run_id t" "tk_job_id u = tk_job_id t"
  shows "rows_ok d'"
proof -
  from assms(2) obtain h where h: "jd_tasks d' = map h (jd_tasks d)" "h t = u"
      "\<And>x. x \<in> set (jd_tasks d) \<Longrightarrow> x \<noteq> t \<Longrightarrow> bystander x (h x)"
    unfolding moved_def by blast
  have "tk_run_id (h x) = tk_run_id x \<and> tk_job_id (h x) = tk_job_id x \<and> task_ok (h x)"
    if x: "x \<in> set (jd_tasks d)" for x
  proof (cases "x = t")
    case False
    with h(3) x have b: "bystander x (h x)" by blast
    with bystander_keys [OF b] bystander_ok [OF b rows_okD(3) [OF assms(1) x]] show ?thesis by simp
  qed (use h(2) assms in simp)
  then show ?thesis by (rule rows_ok_map [OF assms(1) h(1)])
qed

lemma affected_one:
  assumes "affected P d = 1"
  obtains t where "t \<in> set (jd_tasks d)" "P t" "\<And>x. x \<in> set (jd_tasks d) \<Longrightarrow> P x \<Longrightarrow> x = t"
proof -
  from assms obtain t where "filter P (jd_tasks d) = [t]" by (auto simp: affected_def length_Suc_conv)
  then have "{x \<in> set (jd_tasks d). P x} = {t}" by (metis set_filter list.set(1) list.simps(15))
  then show ?thesis using that by blast
qed

lemma affected_none: "affected P d \<noteq> 0 \<longleftrightarrow> (\<exists>t \<in> set (jd_tasks d). P t)"
  by (auto simp: affected_def filter_empty_conv)

lemma affected_unique:
  assumes "distinct (map k (jd_tasks d))" "t \<in> set (jd_tasks d)" "P t"
    "\<And>x. x \<in> set (jd_tasks d) \<Longrightarrow> P x \<Longrightarrow> k x = k t"
  shows "affected P d = 1"
proof -
  have "filter P (jd_tasks d) \<noteq> []" using assms(2,3) by (auto simp: filter_empty_conv)
  with distinct_filter_one [OF assms(1), of P "k t"] assms(4) show ?thesis by (auto simp: affected_def)
qed

lemma run_moved:
  assumes ok: "rows_ok d" and one: "affected P d = 1" and keep: "keeps_keys f"
  obtains t where "t \<in> set (jd_tasks d)" "P t" "\<And>x. x \<in> set (jd_tasks d) \<Longrightarrow> P x \<Longrightarrow> x = t"
    "moved d t (f t) (update_runs P f d)"
proof -
  from affected_one [OF one] obtain t where t: "t \<in> set (jd_tasks d)" "P t"
      "\<And>x. x \<in> set (jd_tasks d) \<Longrightarrow> P x \<Longrightarrow> x = t"
    by metis
  obtain h where "jd_tasks (update_runs P f d) = map h (jd_tasks d)"
      "\<And>x. x \<in> set (jd_tasks d) \<Longrightarrow> P x \<Longrightarrow> h x = f x" "\<And>x. x \<in> set (jd_tasks d) \<Longrightarrow> \<not> P x \<Longrightarrow> bystander x (h x)"
    by (rule update_runs_rows [OF rows_okD(1) [OF ok] _ keep rows_okD(4) [OF ok], of P "tk_run_id t"])
      (use t rows_okD(5) [OF ok] in blast)+
  then have "moved d t (f t) (update_runs P f d)"
    using t unfolding moved_def by (metis (no_types, lifting))
  with t show ?thesis by (rule that)
qed

lemma run_then_job:
  assumes ok: "rows_ok d" and runs: "affected P d = 1" and f: "keeps_keys f"
    and jobs: "affected J (update_runs P f d) = 1" and g: "keeps_keys g"
    and same: "\<And>t x. t \<in> set (jd_tasks d) \<Longrightarrow> P t \<Longrightarrow> x \<in> set (jd_tasks (update_runs P f d)) \<Longrightarrow> J x
      \<Longrightarrow> tk_run_id x = tk_run_id t"
  obtains t where "t \<in> set (jd_tasks d)" "P t" "J (f t)"
    "moved d t (g (f t)) (update_tasks J g (update_runs P f d))"
proof -
  from run_moved [OF ok runs f] obtain t where t: "t \<in> set (jd_tasks d)" "P t"
      and m: "moved d t (f t) (update_runs P f d)" by metis
  then obtain h where h: "jd_tasks (update_runs P f d) = map h (jd_tasks d)" "h t = f t"
      "\<And>x. x \<in> set (jd_tasks d) \<Longrightarrow> x \<noteq> t \<Longrightarrow> bystander x (h x)"
    unfolding moved_def by blast
  have other: "\<not> J (h x)" if x: "x \<in> set (jd_tasks d)" "x \<noteq> t" for x
  proof
    assume "J (h x)"
    moreover have "h x \<in> set (jd_tasks (update_runs P f d))" unfolding h(1) using x(1) by simp
    ultimately have "tk_run_id (h x) = tk_run_id t" by (intro same [OF t])
    with bystander_keys(1) [OF h(3) [OF x]] have "tk_run_id x = tk_run_id t" by simp
    with same_row(1) [OF ok x(1) t(1)] x(2) show False by blast
  qed
  from affected_one [OF jobs] obtain y where y: "y \<in> set (jd_tasks (update_runs P f d))" "J y" by metis
  from y(1) obtain x where x: "x \<in> set (jd_tasks d)" "y = h x" unfolding h(1) by auto
  with y(2) have x: "x \<in> set (jd_tasks d)" "J (h x)" by simp_all
  with other have "x = t" by blast
  with x h(2) have J: "J (f t)" by simp
  have "moved d t (g (f t)) (update_tasks J g (update_runs P f d))"
    unfolding moved_def
  proof (intro conjI exI [of _ "\<lambda>x. if J (h x) then g (h x) else h x"] ballI impI)
    show "t \<in> set (jd_tasks d)" by (rule t(1))
    show "jd_tasks (update_tasks J g (update_runs P f d)) = map (\<lambda>x. if J (h x) then g (h x) else h x) (jd_tasks d)"
      by (simp add: h(1))
    show "(if J (h t) then g (h t) else h t) = g (f t)" unfolding h(2) using J by (rule if_P)
    fix x assume x: "x \<in> set (jd_tasks d)" "x \<noteq> t"
    show "bystander x (if J (h x) then g (h x) else h x)"
      unfolding if_not_P [OF other [OF x]] by (rule h(3) [OF x])
  qed
  with t J show ?thesis by (rule that)
qed

lemma job_then_run:
  assumes ok: "rows_ok d" and jobs: "affected J d = 1" and g: "keeps_keys g"
    and runs: "affected P (update_tasks J g d) = 1" and f: "keeps_keys f"
    and same: "\<And>t x. t \<in> set (jd_tasks d) \<Longrightarrow> J t \<Longrightarrow> x \<in> set (jd_tasks (update_tasks J g d)) \<Longrightarrow> P x
      \<Longrightarrow> tk_run_id x = tk_run_id t"
  obtains t where "t \<in> set (jd_tasks d)" "J t" "P (g t)"
    "moved d t (f (g t)) (update_runs P f (update_tasks J g d))"
proof -
  let ?d = "update_tasks J g d"
  from affected_one [OF jobs] obtain t where t: "t \<in> set (jd_tasks d)" "J t"
      "\<And>x. x \<in> set (jd_tasks d) \<Longrightarrow> J x \<Longrightarrow> x = t"
    by metis
  let ?k = "\<lambda>x. if J x then g x else x"
  have keys: "tk_run_id (?k x) = tk_run_id x" "tk_parent (?k x) = tk_parent x" for x
    using g by (simp_all add: keeps_keys_def)
  have P_t: "x = t" if "x \<in> set (jd_tasks d)" "P (?k x)" for x
    using same [OF t(1,2), of "?k x"] that keys(1) [of x] same_row(1) [OF ok that(1) t(1)] by simp
  from affected_one [OF runs] obtain y where "y \<in> set (jd_tasks ?d)" "P y" by metis
  with P_t t(2) have P: "P (g t)" by auto
  have dist: "distinct (map tk_run_id (jd_tasks ?d))"
    using rows_okD(1) [OF ok] keys(1) by (simp add: comp_def)
  have own: "tk_run_id x = tk_run_id t \<and> tk_parent x \<noteq> Some (tk_run_id t)" if "x \<in> set (jd_tasks ?d)" "P x" for x
  proof -
    from that obtain z where z: "z \<in> set (jd_tasks d)" "x = ?k z" by auto
    with that P_t have "z = t" by blast
    with z keys [of t] rows_okD(5) [OF ok t(1)] show ?thesis by metis
  qed
  have pairs: "pair_ok (tk_run_status x) (tk_status x)" if "x \<in> set (jd_tasks ?d)" "\<not> P x" for x
  proof -
    from that obtain z where z: "z \<in> set (jd_tasks d)" "x = ?k z" by auto
    with that P t have "\<not> J z" by metis
    with z rows_okD(4) [OF ok] show ?thesis by simp
  qed
  obtain h where h: "jd_tasks (update_runs P f ?d) = map h (jd_tasks ?d)"
      "\<And>x. x \<in> set (jd_tasks ?d) \<Longrightarrow> P x \<Longrightarrow> h x = f x"
      "\<And>x. x \<in> set (jd_tasks ?d) \<Longrightarrow> \<not> P x \<Longrightarrow> bystander x (h x)"
    by (rule update_runs_rows [OF dist _ f, of P "tk_run_id t"]) (use own pairs in blast)+
  have row: "?k x \<in> set (jd_tasks ?d)" if "x \<in> set (jd_tasks d)" for x using that by simp
  have "moved d t (f (g t)) (update_runs P f ?d)"
    unfolding moved_def
  proof (intro conjI exI [of _ "\<lambda>x. h (?k x)"] ballI impI)
    show "t \<in> set (jd_tasks d)" by (rule t(1))
    show "jd_tasks (update_runs P f ?d) = map (\<lambda>x. h (?k x)) (jd_tasks d)" using h(1) by simp
    show "h (?k t) = f (g t)" using h(2) [OF row [OF t(1)]] t(2) P by simp
    fix x assume x: "x \<in> set (jd_tasks d)" "x \<noteq> t"
    with P_t have "\<not> P (?k x)" by blast
    with h(3) [OF row [OF x(1)]] t(3) x show "bystander x (h (?k x))" by metis
  qed
  with t P show ?thesis using that by blast
qed

end
