(* ===== verification/Job_Moves.thy ===== *)
theory Job_Moves
  imports Job_Rows
begin

text \<open>
  The invariant of the queue (\<open>jobs_ok\<close>) and its preservation by every transaction of the theories
  \<open>Job_Store\<close> and \<open>Job_Queue\<close>: each moves one Run with its Job, and at most the parent that waits for it.
\<close>

section \<open>Keys never change\<close>

abbreviation row_key :: "task \<Rightarrow> gostring \<times> gostring \<times> gostring option" where
  "row_key t \<equiv> (tk_run_id t, tk_job_id t, tk_parent t)"

lemma row_key_child [simp]: "row_key (cancel_child r t) = row_key t"
  by (simp add: cancel_child_def Let_def end_job_def)

lemma sync_keys [simp]: "map row_key (jd_tasks (sync_subagents r d)) = map row_key (jd_tasks d)"
  by simp

lemma fold_sync_keys: "map row_key (jd_tasks (fold sync_subagents rs d)) = map row_key (jd_tasks d)"
proof (induction rs arbitrary: d)
  case (Cons r rs)
  then show ?case using sync_keys [of r d] by (simp del: sync_sel(1))
qed simp

lemma update_tasks_keys:
  "keeps_keys f \<Longrightarrow> map row_key (jd_tasks (update_tasks P f d)) = map row_key (jd_tasks d)"
  by (simp add: keeps_keys_def)

lemma update_runs_keys:
  "keeps_keys f \<Longrightarrow> map row_key (jd_tasks (update_runs P f d)) = map row_key (jd_tasks d)"
  by (simp only: update_runs_def fold_sync_keys update_tasks_keys)

lemma key_row:
  assumes "map row_key (jd_tasks d') = map row_key (jd_tasks d)" "x \<in> set (jd_tasks d')"
  obtains z where "z \<in> set (jd_tasks d)" "row_key z = row_key x"
proof -
  have "row_key x \<in> set (map row_key (jd_tasks d'))" using assms(2) by simp
  with assms(1) have "row_key x \<in> set (map row_key (jd_tasks d))" by simp
  then show ?thesis using that by (auto simp del: prod.inject)
qed

lemma keeps_keys_simps [simp]:
  "keeps_keys (end_job s)" "keeps_keys (\<lambda>t. t\<lparr>tk_run_status := s, tk_error_code := e\<rparr>)"
  "keeps_keys (\<lambda>t. t\<lparr>tk_run_status := s\<rparr>)" "keeps_keys (\<lambda>t. t\<lparr>tk_status := s\<rparr>)"
  "keeps_keys (\<lambda>t. (end_job s t)\<lparr>tk_last_error := e\<rparr>)" "keeps_keys (\<lambda>t. t\<lparr>tk_last_error := e\<rparr>)"
  "keeps_keys (lease_task token lease lost d)"
  by (simp_all add: keeps_keys_def end_job_def lease_task_def)

section \<open>The invariant\<close>

text \<open>A Run that waits for its child: it has ended meanwhile, or it runs and its Job waits.\<close>

definition parent_ok :: "task \<Rightarrow> bool" where
  "parent_ok t \<longleftrightarrow> terminal_run (tk_run_status t) \<or> (tk_run_status t = running \<and> tk_status t = waiting)"

definition delegation_ok :: "job_db \<Rightarrow> delegation \<Rightarrow> bool" where
  "delegation_ok d x \<longleftrightarrow>
     dl_parent_run x \<in> tk_run_id ` set (jd_tasks d) \<and> dl_child_run x \<in> tk_run_id ` set (jd_tasks d)
     \<and> (dl_state x = delegation_waiting \<longrightarrow> (\<forall>t \<in> set (jd_tasks d). tk_run_id t = dl_parent_run x \<longrightarrow> parent_ok t))"

definition delegations_ok :: "job_db \<Rightarrow> bool" where
  "delegations_ok d \<longleftrightarrow>
     distinct (map dl_parent_run (jd_delegations d)) \<and> distinct (map dl_child_run (jd_delegations d))
     \<and> (\<forall>x \<in> set (jd_delegations d). delegation_ok d x)"

definition jobs_ok :: "job_db \<Rightarrow> bool" where
  "jobs_ok d \<longleftrightarrow> rows_ok d \<and> delegations_ok d"

lemma jobs_ok_cong:
  "jd_tasks d = jd_tasks d' \<Longrightarrow> jd_delegations d = jd_delegations d' \<Longrightarrow> jobs_ok d = jobs_ok d'"
  by (simp add: jobs_ok_def rows_ok_def delegations_ok_def delegation_ok_def)

lemma bystander_parent_ok: "bystander t t' \<Longrightarrow> parent_ok t \<Longrightarrow> parent_ok t'"
  by (drule bystander_status) (auto simp: parent_ok_def)

lemma moved_row:
  assumes "moved d t u d'" "x' \<in> set (jd_tasks d')"
  obtains x where "x \<in> set (jd_tasks d)" "x = t \<and> x' = u \<or> x \<noteq> t \<and> bystander x x'"
proof -
  from assms obtain h x where "x \<in> set (jd_tasks d)" "x' = h x" "h t = u" "x \<noteq> t \<longrightarrow> bystander x (h x)"
    unfolding moved_def by auto
  then show ?thesis using that by (cases "x = t") auto
qed

lemma moved_tasks: "jd_tasks d' = jd_tasks d'' \<Longrightarrow> moved d t u d' = moved d t u d''"
  by (simp add: moved_def)

text \<open>Delegations may only leave the waiting state, keeping who delegates to whom.\<close>

definition delegations_end :: "job_db \<Rightarrow> job_db \<Rightarrow> bool" where
  "delegations_end d d' \<longleftrightarrow>
     (\<exists>k. jd_delegations d' = map k (jd_delegations d)
        \<and> (\<forall>x. dl_parent_run (k x) = dl_parent_run x \<and> dl_child_run (k x) = dl_child_run x
             \<and> (dl_state (k x) = delegation_waiting \<longrightarrow> dl_state x = delegation_waiting)))"

lemma delegations_end_refl: "jd_delegations d' = jd_delegations d \<Longrightarrow> delegations_end d d'"
  unfolding delegations_end_def by (rule exI [of _ id]) simp

lemma delegations_end_end:
  "s \<noteq> delegation_waiting \<Longrightarrow> jd_delegations d' = jd_delegations d \<Longrightarrow> delegations_end d (end_delegations P s c d')"
  unfolding delegations_end_def
  by (rule exI [of _ "\<lambda>x. if P x then x\<lparr>dl_state := s, dl_error_code := nullif c\<rparr> else x"]) (simp add: end_delegations_def)

lemma moved_jobs_ok:
  assumes ok: "jobs_ok d" and m: "moved d t u d'" and dl: "delegations_end d d'"
    and u: "task_ok u" "tk_run_id u = tk_run_id t" "tk_job_id u = tk_job_id t" and p: "parent_ok t \<Longrightarrow> parent_ok u"
  shows "jobs_ok d'"
proof -
  have rows: "rows_ok d" using ok by (simp add: jobs_ok_def)
  have rows': "rows_ok d'" using rows m u by (rule moved_ok)
  from m have ids: "tk_run_id ` set (jd_tasks d') = tk_run_id ` set (jd_tasks d)"
    using u(2) bystander_keys(1) unfolding moved_def by (auto simp: image_iff) metis+
  from dl obtain k where k: "jd_delegations d' = map k (jd_delegations d)" "\<And>x. dl_parent_run (k x) = dl_parent_run x"
      "\<And>x. dl_child_run (k x) = dl_child_run x"
      "\<And>x. dl_state (k x) = delegation_waiting \<Longrightarrow> dl_state x = delegation_waiting"
    unfolding delegations_end_def by blast
  have "delegation_ok d' (k x)" if x: "x \<in> set (jd_delegations d)" for x
    unfolding delegation_ok_def ids k(2,3)
  proof (intro conjI impI ballI)
    from ok x have x_ok: "delegation_ok d x" by (simp add: jobs_ok_def delegations_ok_def)
    then show "dl_parent_run x \<in> tk_run_id ` set (jd_tasks d)" "dl_child_run x \<in> tk_run_id ` set (jd_tasks d)"
      by (simp_all add: delegation_ok_def)
    fix y' assume w: "dl_state (k x) = delegation_waiting" and y': "y' \<in> set (jd_tasks d')" "tk_run_id y' = dl_parent_run x"
    from moved_row [OF m y'(1)] obtain y where y: "y \<in> set (jd_tasks d)"
        "y = t \<and> y' = u \<or> y \<noteq> t \<and> bystander y y'" by blast
    with y'(2) u(2) bystander_keys(1) have "tk_run_id y = dl_parent_run x" by metis
    with x_ok k(4) [OF w] y(1) have "parent_ok y" by (simp add: delegation_ok_def)
    with y(2) p bystander_parent_ok show "parent_ok y'" by blast
  qed
  with ok rows' k show ?thesis by (auto simp: jobs_ok_def delegations_ok_def comp_def)
qed

section \<open>Ending a Run\<close>

text \<open>Both halves of a Run that ends, in either order.\<close>

definition ended :: "gostring \<Rightarrow> gostring \<Rightarrow> task \<Rightarrow> task \<Rightarrow> bool" where
  "ended run_status job_status t u \<longleftrightarrow>
     row_key u = row_key t \<and> tk_run_status u = run_status \<and> tk_status u = job_status
     \<and> tk_lease_token u = None \<and> tk_lease_expires_at u = None \<and> tk_attempt_no u = tk_attempt_no t
     \<and> tk_failed_attempts u = tk_failed_attempts t \<and> tk_max_attempts u = tk_max_attempts t"

lemma ended_ok:
  assumes "ended r j t u" "task_ok t" "pair_ok r j" "terminal_run r"
  shows "task_ok u" "parent_ok u"
proof -
  from assms have j: "j = succeeded \<or> j = failed \<or> j = cancelled" by (auto simp: pair_ok_def)
  have n: "tk_attempt_no t \<le> 100" "0 \<le> tk_attempt_no t"
    using assms(2) by (auto simp: task_ok_def execution_state_ok_def split: if_splits)
  from assms(1,2) show "task_ok u"
    using j n assms(3) by (auto simp: ended_def task_ok_def execution_state_ok_def attempts_ok_def)
  from assms show "parent_ok u" by (simp add: ended_def parent_ok_def)
qed

lemma moved_ended_ok:
  assumes ok: "jobs_ok d" and m: "moved d t u d'" and dl: "delegations_end d d'"
    and e: "ended r j t u" "pair_ok r j" "terminal_run r"
  shows "jobs_ok d'"
proof -
  from m have "t \<in> set (jd_tasks d)" by (simp add: moved_def)
  with ok have "task_ok t" by (auto simp: jobs_ok_def dest: rows_okD(3))
  with ended_ok [OF e(1) _ e(2,3)] have "task_ok u" "parent_ok u" by simp_all
  with ok m dl e(1) show ?thesis by (auto intro: moved_jobs_ok simp: ended_def)
qed

lemma same_run_by_job:
  assumes ok: "rows_ok d" and keys: "map row_key (jd_tasks d') = map row_key (jd_tasks d)"
    and t: "t \<in> set (jd_tasks d)" "x \<in> set (jd_tasks d')" "tk_job_id x = tk_job_id t"
  shows "tk_run_id x = tk_run_id t"
proof -
  from key_row [OF keys t(2)] obtain z where z: "z \<in> set (jd_tasks d)" "row_key z = row_key x" by blast
  with t(3) have "tk_job_id z = tk_job_id t" by simp
  with same_row(2) [OF ok z(1) t(1)] z(2) show ?thesis by simp
qed

lemma fail_research_payload_sel:
  assumes "fail_research_payload r c d = Inr d'"
  shows "jd_tasks d' = jd_tasks d" "jd_delegations d' = jd_delegations d" "jd_waits d' = jd_waits d" "jd_now d' = jd_now d"
  using assms by (auto simp: fail_research_payload_def split: if_splits)

lemma end_delegations_sel [simp]:
  "jd_tasks (end_delegations P s c d) = jd_tasks d" "jd_waits (end_delegations P s c d) = jd_waits d"
  "jd_discoveries (end_delegations P s c d) = jd_discoveries d" "jd_sessions (end_delegations P s c d) = jd_sessions d"
  "jd_now (end_delegations P s c d) = jd_now d"
  by (simp_all add: end_delegations_def)

lemma delegations_end_cong:
  "jd_delegations d' = jd_delegations d'' \<Longrightarrow> delegations_end d d' = delegations_end d d''"
  by (simp add: delegations_end_def)

section \<open>Deadlines and cancellation\<close>

lemma expire_run_moves:
  assumes ok: "jobs_ok d" and run: "expire_run d item = Inr d'" and item: "row_key item \<in> row_key ` set (jd_tasks d)"
  obtains t u where "moved d t u d'" "ended failed failed t u" "tk_run_id t = tk_run_id item"
    "active_run (tk_run_status t)" "past (tk_deadline t) (jd_now d)" "tk_error_code u = Some run_deadline_exceeded"
    "delegations_end d d'" "jd_now d' = jd_now d"
proof -
  have rows: "rows_ok d" using ok by (simp add: jobs_ok_def)
  let ?P = "\<lambda>t. tk_run_id t = tk_run_id item \<and> active_run (tk_run_status t) \<and> past (tk_deadline t) (jd_now d)"
  let ?f = "\<lambda>t::task. t\<lparr>tk_run_status := failed, tk_error_code := Some run_deadline_exceeded\<rparr>"
  let ?J = "\<lambda>t. tk_job_id t = tk_job_id item \<and> active_job (tk_status t)"
  let ?d = "update_tasks ?J (end_job failed) (update_runs ?P ?f d)"
  from run have runs: "affected ?P d = 1" and jobs: "affected ?J (update_runs ?P ?f d) = 1"
    and last: "fail_research_payload (tk_run_id item) ''research_deadline_exceeded''
      (end_delegations (waiting_child (tk_run_id item)) delegation_failed run_deadline_exceeded ?d) = Inr d'"
    by (auto simp: expire_run_def Let_def split: if_splits)
  from item obtain i where i: "i \<in> set (jd_tasks d)" "row_key i = row_key item" by auto
  have f: "keeps_keys ?f" by simp
  have same: "tk_run_id x = tk_run_id t"
    if "?P t" "x \<in> set (jd_tasks (update_runs ?P ?f d))" "?J x" for t x
    using same_run_by_job [OF rows update_runs_keys [OF f] i(1) that(2)] that(1,3) i(2) by simp
  obtain t where t: "t \<in> set (jd_tasks d)" "?P t" "moved d t (end_job failed (?f t)) ?d"
    by (rule run_then_job [OF rows runs f jobs keeps_keys_simps(1)]) (use same in blast)+
  note sel = fail_research_payload_sel [OF last]
  have m: "moved d t (end_job failed (?f t)) d'"
    using t(3) moved_tasks [of d' ?d] sel(1) by simp
  have "ended failed failed t (end_job failed (?f t))" by (simp add: ended_def end_job_def)
  moreover have "delegations_end d d'"
    unfolding delegations_end_cong [OF sel(2)] by (rule delegations_end_end) (simp_all add: delegation_states)
  ultimately show ?thesis using m t sel(4) by (intro that [of t "end_job failed (?f t)"]) (simp_all add: end_job_def)
qed

lemma expire_run_ok:
  assumes "jobs_ok d" "expire_run d item = Inr d'" "row_key item \<in> row_key ` set (jd_tasks d)"
  shows "jobs_ok d'"
  using expire_run_moves [OF assms] moved_ended_ok [OF assms(1)] by (metis pair_ok_def terminal_run_simps(2))

lemma bystander_row_key: "bystander t t' \<Longrightarrow> row_key t' = row_key t"
  by (simp add: bystander_keys)

lemma moved_keys:
  assumes "moved d t u d'" "row_key u = row_key t"
  shows "map row_key (jd_tasks d') = map row_key (jd_tasks d)"
proof -
  from assms(1) obtain h where h: "jd_tasks d' = map h (jd_tasks d)" "h t = u"
      "\<And>x. x \<in> set (jd_tasks d) \<Longrightarrow> x \<noteq> t \<Longrightarrow> bystander x (h x)"
    unfolding moved_def by blast
  have "row_key (h x) = row_key x" if "x \<in> set (jd_tasks d)" for x
    using assms(2) h(2,3) bystander_row_key that by (cases "x = t") simp_all
  then show ?thesis by (simp add: h(1))
qed

lemma same_keys_image:
  "map row_key (jd_tasks d') = map row_key (jd_tasks d) \<Longrightarrow> row_key ` set (jd_tasks d') = row_key ` set (jd_tasks d)"
  by (drule arg_cong [of _ _ set]) (simp only: set_map)

text \<open>What holds through the expiry of several Runs.\<close>

definition expiring :: "job_db \<Rightarrow> job_db \<Rightarrow> bool" where
  "expiring d0 d \<longleftrightarrow> jobs_ok d \<and> map row_key (jd_tasks d) = map row_key (jd_tasks d0) \<and> jd_now d = jd_now d0"

lemma expire_run_expiring:
  assumes "expiring d0 d" "expire_run d item = Inr d'" "item \<in> set (jd_tasks d0)"
  shows "expiring d0 d'"
proof -
  have ok: "jobs_ok d" and keys: "map row_key (jd_tasks d) = map row_key (jd_tasks d0)" and now: "jd_now d = jd_now d0"
    using assms(1) by (simp_all add: expiring_def)
  have item: "row_key item \<in> row_key ` set (jd_tasks d)"
    unfolding same_keys_image [OF keys] using assms(3) by (rule imageI)
  from expire_run_moves [OF ok assms(2) item] obtain t u where m: "moved d t u d'" "ended failed failed t u" "jd_now d' = jd_now d"
    by blast
  from m(2) have "row_key u = row_key t" by (simp add: ended_def)
  then have "map row_key (jd_tasks d') = map row_key (jd_tasks d0)"
    by (rule trans [OF moved_keys [OF m(1)] keys])
  with trans [OF m(3) now] expire_run_ok [OF ok assms(2) item] show ?thesis unfolding expiring_def by blast
qed

lemma overdue_rows: "set (overdue user run d) \<subseteq> set (jd_tasks d)"
  by (auto simp: overdue_def Let_def)

lemma expire_if_overdue_ok:
  assumes "jobs_ok d" "expire_if_overdue user run d = Inr (d', n)"
  shows "jobs_ok d'" "map row_key (jd_tasks d') = map row_key (jd_tasks d)" "jd_now d' = jd_now d"
proof -
  from assms(2) have "fold_result expire_run d (overdue user run d) = Inr d'"
    by (auto simp: expire_if_overdue_def result_simps)
  then have "expiring d d'"
  proof (rule fold_result_invariant)
    show "expiring d d" using assms(1) by (simp only: expiring_def)
    fix s x s' assume "expiring d s" "x \<in> set (overdue user run d)" "expire_run s x = Inr s'"
    with overdue_rows show "expiring d s'" by (blast intro: expire_run_expiring)
  qed
  then show "jobs_ok d'" "map row_key (jd_tasks d') = map row_key (jd_tasks d)" "jd_now d' = jd_now d"
    unfolding expiring_def by blast+
qed

section \<open>Failing an attempt\<close>

lemma owns_leaseD:
  "owns_lease a t \<Longrightarrow> tk_run_id t = at_run_id a \<and> tk_job_id t = at_job_id a \<and> tk_status t = running
     \<and> tk_lease_token t = Some (at_lease_token a)"
  by (simp add: owns_lease_def)

lemma fail_leased_moves:
  assumes rows: "rows_ok d" and run: "fail_leased a c d = Inr d'"
  obtains t u where "moved d t u d'" "ended failed failed t u" "owns_lease a t" "jd_delegations d' = jd_delegations d"
    "jd_now d' = jd_now d" "tk_last_error u = Some c" "tk_error_code u = Some c"
proof -
  let ?J = "owns_lease a" and ?g = "\<lambda>t. (end_job failed t)\<lparr>tk_last_error := Some c\<rparr>"
  let ?P = "\<lambda>t. tk_run_id t = at_run_id a \<and> tk_run_status t = running \<and> tk_output_message t = None"
  let ?f = "\<lambda>t::task. t\<lparr>tk_run_status := failed, tk_error_code := Some c\<rparr>"
  from run have jobs: "affected ?J d = 1" and runs: "affected ?P (update_tasks ?J ?g d) = 1"
    and d': "d' = update_runs ?P ?f (update_tasks ?J ?g d)"
    by (auto simp: fail_leased_def Let_def split: if_splits)
  have g: "keeps_keys ?g" and f: "keeps_keys ?f" by simp_all
  obtain t where t: "t \<in> set (jd_tasks d)" "?J t" "moved d t (?f (?g t)) (update_runs ?P ?f (update_tasks ?J ?g d))"
    by (rule job_then_run [OF rows jobs g runs f]) (simp_all add: owns_leaseD)
  then show ?thesis by (intro that [of t "?f (?g t)"]) (simp_all add: d' ended_def end_job_def)
qed

section \<open>Handing a result to the parent\<close>

definition resumes :: "gostring \<Rightarrow> job_db \<Rightarrow> task \<Rightarrow> bool" where
  "resumes child d t \<longleftrightarrow> delegates_to d child t \<and> tk_run_status t = running \<and> ahead (tk_deadline t) (jd_now d)"

lemma update_runs_active:
  "(\<And>t. \<not> terminal_run (tk_run_status (f t))) \<Longrightarrow> update_runs P f d = update_tasks P f d"
  by (simp add: update_runs_def)

lemma resume_parent_tasks:
  assumes rows: "rows_ok d" and parents: "\<And>t. t \<in> set (jd_tasks d) \<Longrightarrow> delegates_to d child t \<Longrightarrow> parent_ok t"
  shows "jd_tasks (resume_parent child d) =
    map (\<lambda>t. if resumes child d t then t\<lparr>tk_run_status := queued, tk_status := queued\<rparr> else t) (jd_tasks d)"
proof -
  let ?f = "\<lambda>t::task. t\<lparr>tk_run_status := queued\<rparr>"
  have first: "update_runs (resumes child d) ?f d = update_tasks (resumes child d) ?f d"
    by (rule update_runs_active) simp
  have row: "(let t1 = (if resumes child d t then ?f t else t) in
      if delegates_to (update_tasks (resumes child d) ?f d) child t1 \<and> tk_status t1 = waiting \<and> tk_run_status t1 = queued
         \<and> ahead (tk_deadline t1) (jd_now d) then t1\<lparr>tk_status := queued\<rparr> else t1)
    = (if resumes child d t then t\<lparr>tk_run_status := queued, tk_status := queued\<rparr> else t)"
    if t: "t \<in> set (jd_tasks d)" for t
  proof (cases "resumes child d t")
    case True
    with parents [OF t] have "tk_status t = waiting" by (auto simp: resumes_def parent_ok_def)
    with True show ?thesis by (simp add: resumes_def delegates_to_def)
  next
    case False
    have "\<not> (tk_status t = waiting \<and> tk_run_status t = queued)"
      using rows_okD(4) [OF rows t] by (auto simp: pair_ok_def)
    with False show ?thesis by auto
  qed
  have "resume_parent child d = update_tasks (\<lambda>t. delegates_to (update_tasks (resumes child d) ?f d) child t
      \<and> tk_status t = waiting \<and> tk_run_status t = queued \<and> ahead (tk_deadline t) (jd_now d)) (\<lambda>t. t\<lparr>tk_status := queued\<rparr>)
      (update_tasks (resumes child d) ?f d)"
    using first by (simp add: resume_parent_def Let_def resumes_def [abs_def])
  then have "jd_tasks (resume_parent child d) = map (\<lambda>t. let t1 = (if resumes child d t then ?f t else t) in
      if delegates_to (update_tasks (resumes child d) ?f d) child t1 \<and> tk_status t1 = waiting \<and> tk_run_status t1 = queued
         \<and> ahead (tk_deadline t1) (jd_now d) then t1\<lparr>tk_status := queued\<rparr> else t1) (jd_tasks d)"
    by (simp add: Let_def comp_def)
  with row show ?thesis by (simp only: cong: map_cong)
qed

lemma resume_parent_sel [simp]:
  "jd_delegations (resume_parent child d) = jd_delegations d" "jd_now (resume_parent child d) = jd_now d"
  by (simp_all add: resume_parent_def Let_def)

lemma resumed_ok:
  assumes "task_ok t" "parent_ok t" "tk_run_status t = running"
  shows "task_ok (t\<lparr>tk_run_status := queued, tk_status := queued\<rparr>)"
proof -
  from assms have "tk_status t = waiting" by (auto simp: parent_ok_def)
  with assms(1) show ?thesis by (auto simp: task_ok_def pair_ok_def execution_state_ok_def attempts_ok_def)
qed

lemma delegates_to_iff:
  "delegates_to d child t \<longleftrightarrow> (\<exists>x \<in> set (jd_delegations d). dl_child_run x = child \<and> dl_parent_run x = tk_run_id t)"
  by (simp add: delegates_to_def list_ex_iff)

lemma same_delegation:
  assumes "delegations_ok d" "x \<in> set (jd_delegations d)" "y \<in> set (jd_delegations d)"
  shows "dl_parent_run x = dl_parent_run y \<Longrightarrow> x = y" "dl_child_run x = dl_child_run y \<Longrightarrow> x = y"
  using assms by (auto simp: delegations_ok_def distinct_map dest: inj_onD)

lemma resume_parent_ok:
  assumes ok: "jobs_ok d" and parents: "\<And>t. t \<in> set (jd_tasks d) \<Longrightarrow> delegates_to d child t \<Longrightarrow> parent_ok t"
    and over: "\<And>x. x \<in> set (jd_delegations d) \<Longrightarrow> dl_child_run x = child \<Longrightarrow> dl_state x \<noteq> delegation_waiting"
  shows "jobs_ok (resume_parent child d)"
proof -
  from ok have rows: "rows_ok d" and dls: "delegations_ok d" by (simp_all add: jobs_ok_def)
  let ?u = "\<lambda>t::task. t\<lparr>tk_run_status := queued, tk_status := queued\<rparr>"
  let ?h = "\<lambda>t. if resumes child d t then ?u t else t"
  have tasks: "jd_tasks (resume_parent child d) = map ?h (jd_tasks d)"
    using rows parents by (rule resume_parent_tasks)
  have keys: "tk_run_id (?h t) = tk_run_id t" "tk_job_id (?h t) = tk_job_id t" for t by simp_all
  have rows': "rows_ok (resume_parent child d)"
  proof (rule rows_ok_map [OF rows tasks])
    fix t assume t: "t \<in> set (jd_tasks d)"
    show "tk_run_id (?h t) = tk_run_id t \<and> tk_job_id (?h t) = tk_job_id t \<and> task_ok (?h t)"
    proof (cases "resumes child d t")
      case True
      with parents [OF t] have "parent_ok t" "tk_run_status t = running" by (simp_all add: resumes_def)
      with resumed_ok [OF rows_okD(3) [OF rows t]] True show ?thesis by simp
    qed (simp add: rows_okD(3) [OF rows t])
  qed
  have "delegation_ok (resume_parent child d) x" if x: "x \<in> set (jd_delegations d)" for x
    unfolding delegation_ok_def tasks
  proof (intro conjI impI ballI)
    from dls x have x_ok: "delegation_ok d x" by (simp add: delegations_ok_def)
    have ids: "tk_run_id ` set (map ?h (jd_tasks d)) = tk_run_id ` set (jd_tasks d)"
      by (simp only: set_map image_image keys)
    show "dl_parent_run x \<in> tk_run_id ` set (map ?h (jd_tasks d))" "dl_child_run x \<in> tk_run_id ` set (map ?h (jd_tasks d))"
      unfolding ids using x_ok by (simp_all add: delegation_ok_def)
    fix t' assume w: "dl_state x = delegation_waiting" and t': "t' \<in> set (map ?h (jd_tasks d))" "tk_run_id t' = dl_parent_run x"
    from t'(1) obtain t where t: "t \<in> set (jd_tasks d)" "t' = ?h t" by auto
    with t'(2) keys(1) [of t] have tx: "tk_run_id t = dl_parent_run x" by simp
    have "\<not> resumes child d t"
    proof
      assume "resumes child d t"
      then obtain y where y: "y \<in> set (jd_delegations d)" "dl_child_run y = child" "dl_parent_run y = tk_run_id t"
        by (auto simp: resumes_def delegates_to_iff)
      with same_delegation(1) [OF dls y(1) x] tx have "y = x" by simp
      with over [OF y(1,2)] w show False by simp
    qed
    with t(2) have "t' = t" by simp
    with x_ok w t(1) tx show "parent_ok t'" by (simp add: delegation_ok_def)
  qed
  with dls rows' show ?thesis by (simp add: jobs_ok_def delegations_ok_def)
qed

text \<open>A terminalized delegation ends the child and resumes its parent, which has been waiting.\<close>

lemma terminalize_delegation_moves:
  assumes ok: "jobs_ok d" and run: "terminalize_delegation a state c d = Inr d'"
  obtains t u d2 where "moved d t u d2" "owns_lease a t" "tk_run_status t = running"
    "d' = resume_parent (at_run_id a) (end_delegations (waiting_child (at_run_id a)) state c d2)"
    "jd_delegations d2 = jd_delegations d" "jd_now d2 = jd_now d" "list_ex (waiting_child (at_run_id a)) (jd_delegations d)"
    "\<exists>r j. ended r j t u \<and> pair_ok r j \<and> terminal_run r" "state \<noteq> delegation_waiting"
proof -
  from ok have rows: "rows_ok d" by (simp add: jobs_ok_def)
  define r where "r = (if state = delegation_succeeded then completed else if state = delegation_cancelled then cancelled else failed)"
  define j where "j = (if state = delegation_succeeded then succeeded else if state = delegation_cancelled then cancelled else failed)"
  let ?P = "\<lambda>t. tk_run_id t = at_run_id a \<and> tk_run_status t = running \<and> list_ex (waiting_child (at_run_id a)) (jd_delegations d)"
  let ?f = "\<lambda>t::task. t\<lparr>tk_run_status := r, tk_error_code := nullif c\<rparr>"
  let ?J = "owns_lease a"
  let ?d2 = "update_tasks ?J (end_job j) (update_runs ?P ?f d)"
  from run have life: "terminalize_lifecycle state c \<lparr>dlc_state = delegation_waiting, dlc_error_code = [], dlc_consumed = False\<rparr> \<noteq> None"
    and w: "list_ex (waiting_child (at_run_id a)) (jd_delegations d)"
    and runs: "affected ?P d = 1" and jobs: "affected ?J (update_runs ?P ?f d) = 1"
    and d': "d' = resume_parent (at_run_id a) (end_delegations (waiting_child (at_run_id a)) state c ?d2)"
    unfolding terminalize_delegation_def Let_def r_def j_def by (auto split: if_splits)
  from life have state: "state \<noteq> delegation_waiting"
    by (auto simp: terminalize_lifecycle_def delegation_states)
  have f: "keeps_keys ?f" by simp
  obtain t where t: "t \<in> set (jd_tasks d)" "?P t" "?J (?f t)" "moved d t (end_job j (?f t)) ?d2"
    by (rule run_then_job [OF rows runs f jobs keeps_keys_simps(1) [of j]]) (metis owns_leaseD, blast)
  have "ended r j t (end_job j (?f t))" by (simp add: ended_def end_job_def)
  moreover have "pair_ok r j" "terminal_run r" by (simp_all add: r_def j_def pair_ok_def)
  ultimately have e: "\<exists>r j'. ended r j' t (end_job j (?f t)) \<and> pair_ok r j' \<and> terminal_run r" by blast
  from t(3) have "owns_lease a t" by (simp add: owns_lease_def)
  with t e w state show ?thesis by (intro that [OF t(4) _ _ d']) simp_all
qed

lemma waiting_parent_ok:
  assumes "jobs_ok d" "x \<in> set (jd_delegations d)" "dl_state x = delegation_waiting"
    "t \<in> set (jd_tasks d)" "tk_run_id t = dl_parent_run x"
  shows "parent_ok t"
  using assms by (auto simp: jobs_ok_def delegations_ok_def delegation_ok_def)

lemma terminalize_delegation_ok:
  assumes ok: "jobs_ok d" and run: "terminalize_delegation a state c d = Inr d'"
  shows "jobs_ok d'"
proof -
  let ?r = "at_run_id a"
  from terminalize_delegation_moves [OF ok run] obtain t u d2 where m: "moved d t u d2"
      and d': "d' = resume_parent ?r (end_delegations (waiting_child ?r) state c d2)"
      and dl: "jd_delegations d2 = jd_delegations d" and w: "list_ex (waiting_child ?r) (jd_delegations d)"
      and e: "\<exists>r j. ended r j t u \<and> pair_ok r j \<and> terminal_run r" and state: "state \<noteq> delegation_waiting"
    by metis
  let ?d3 = "end_delegations (waiting_child ?r) state c d2"
  from e obtain r j where e: "ended r j t u" "pair_ok r j" "terminal_run r" by blast
  have dls: "delegations_ok d" using ok by (simp add: jobs_ok_def)
  from m have m3: "moved d t u ?d3" using moved_tasks [of ?d3 d2] by simp
  have ok3: "jobs_ok ?d3" by (rule moved_ended_ok [OF ok m3 delegations_end_end [OF state dl] e])
  from w obtain x where x: "x \<in> set (jd_delegations d)" "dl_child_run x = ?r" "dl_state x = delegation_waiting"
    by (auto simp: list_ex_iff waiting_child_def)
  show ?thesis unfolding d'
  proof (rule resume_parent_ok [OF ok3])
    fix y assume "y \<in> set (jd_delegations ?d3)" "dl_child_run y = ?r"
    with state show "dl_state y \<noteq> delegation_waiting"
      by (auto simp: end_delegations_def waiting_child_def)
  next
    fix y' assume y': "y' \<in> set (jd_tasks ?d3)" "delegates_to ?d3 ?r y'"
    from y'(2) obtain z where z: "z \<in> set (jd_delegations d)" "dl_child_run z = ?r" "dl_parent_run z = tk_run_id y'"
      by (auto simp: delegates_to_iff end_delegations_def dl split: if_splits)
    with x same_delegation(2) [OF dls] have p: "tk_run_id y' = dl_parent_run x" by metis
    from moved_row [OF m3 y'(1)] obtain y where y: "y \<in> set (jd_tasks d)" "y = t \<and> y' = u \<or> y \<noteq> t \<and> bystander y y'"
      by blast
    from y(2) e(1) have "tk_run_id y' = tk_run_id y" using bystander_keys(1) by (auto simp: ended_def)
    with p have "parent_ok y" using waiting_parent_ok [OF ok x(1,3) y(1)] by simp
    moreover have "parent_ok u" using e by (simp add: parent_ok_def ended_def)
    ultimately show "parent_ok y'" using y(2) bystander_parent_ok by blast
  qed
qed

text \<open>A statement that changes only what no part of the invariant reads of a row.\<close>

lemma touch_ok:
  assumes ok: "jobs_ok d"
    and f: "\<And>t. t \<in> set (jd_tasks d) \<Longrightarrow> P t \<Longrightarrow> task_ok (f t) \<and> row_key (f t) = row_key t
      \<and> tk_run_status (f t) = tk_run_status t \<and> tk_status (f t) = tk_status t"
  shows "jobs_ok (update_tasks P f d)"
proof -
  from ok have rows: "rows_ok d" by (simp add: jobs_ok_def)
  let ?h = "\<lambda>t. if P t then f t else t"
  have h: "row_key (?h t) = row_key t \<and> tk_run_status (?h t) = tk_run_status t \<and> tk_status (?h t) = tk_status t"
    if "t \<in> set (jd_tasks d)" for t using f that by simp
  have rows': "rows_ok (update_tasks P f d)"
    by (rule rows_ok_map [OF rows, of _ ?h]) (use f rows_okD(3) [OF rows] in auto)
  have ids: "tk_run_id ` set (jd_tasks (update_tasks P f d)) = tk_run_id ` set (jd_tasks d)"
    using h by (simp only: update_tasks_sel set_map image_image) (rule image_cong, simp_all)
  have "delegation_ok (update_tasks P f d) x" if x: "delegation_ok d x" for x
    unfolding delegation_ok_def ids
  proof (intro conjI impI ballI)
    show "dl_parent_run x \<in> tk_run_id ` set (jd_tasks d)" "dl_child_run x \<in> tk_run_id ` set (jd_tasks d)"
      using x by (simp_all add: delegation_ok_def)
    fix t' assume w: "dl_state x = delegation_waiting" and t': "t' \<in> set (jd_tasks (update_tasks P f d))" "tk_run_id t' = dl_parent_run x"
    from t'(1) obtain t where t: "t \<in> set (jd_tasks d)" "t' = ?h t" by auto
    with t'(2) h [OF t(1)] have "tk_run_id t = dl_parent_run x" by simp
    with x w t(1) have "parent_ok t" by (simp add: delegation_ok_def)
    with h [OF t(1)] show "parent_ok t'" unfolding t(2) parent_ok_def by simp
  qed
  with ok rows' show ?thesis by (auto simp: jobs_ok_def delegations_ok_def)
qed

lemma last_error_ok: "jobs_ok d \<Longrightarrow> jobs_ok (update_tasks P (\<lambda>t. t\<lparr>tk_last_error := e\<rparr>) d)"
  by (rule touch_ok) (auto simp: jobs_ok_def row_defs dest!: rows_okD(3))

lemma terminalize_attempt_state_steps:
  assumes "terminalize_attempt_state a c d = Inr d'"
  obtains t d1 where "find_run (at_run_id a) d = Some t" "at_lease_token a \<noteq> []"
    "d' = update_tasks (\<lambda>t. tk_job_id t = at_job_id a) (\<lambda>t. t\<lparr>tk_last_error := Some c\<rparr>) d1"
    "(if is_research t
             then bind_result (fail_research_payload (at_run_id a) c d) (terminalize_delegation a delegation_failed c)
             else if is_chat_leader t \<or> is_studio t \<or> is_configured_research t
             then bind_result (fail_leased a c d) (\<lambda>d1.
               if is_configured_research t \<and> tk_parent t = None then fail_session (at_run_id a) c d1 else Inr d1)
             else Inl Q_Unsupported_Role) = Inr d1"
  using assms unfolding terminalize_attempt_state_def by (auto simp: result_simps split: if_splits option.splits)

lemma terminalize_attempt_state_ok:
  assumes ok: "jobs_ok d" and run: "terminalize_attempt_state a c d = Inr d'"
  shows "jobs_ok d'" "at_lease_token a \<noteq> []" "\<exists>t \<in> set (jd_tasks d). owns_lease a t"
proof -
  from terminalize_attempt_state_steps [OF run] obtain t d1 where t: "find_run (at_run_id a) d = Some t" and tok: "at_lease_token a \<noteq> []"
    and d': "d' = update_tasks (\<lambda>t. tk_job_id t = at_job_id a) (\<lambda>t. t\<lparr>tk_last_error := Some c\<rparr>) d1"
    and step: "(if is_research t
             then bind_result (fail_research_payload (at_run_id a) c d) (terminalize_delegation a delegation_failed c)
             else if is_chat_leader t \<or> is_studio t \<or> is_configured_research t
             then bind_result (fail_leased a c d) (\<lambda>d1.
               if is_configured_research t \<and> tk_parent t = None then fail_session (at_run_id a) c d1 else Inr d1)
             else Inl Q_Unsupported_Role) = Inr d1"
    by blast
  show "at_lease_token a \<noteq> []" by (rule tok)
  have "jobs_ok d1 \<and> (\<exists>t \<in> set (jd_tasks d). owns_lease a t)"
  proof (cases "is_research t")
    case True
    with step obtain d0 where d0: "fail_research_payload (at_run_id a) c d = Inr d0"
        "terminalize_delegation a delegation_failed c d0 = Inr d1"
      by (auto simp: result_simps)
    note sel = fail_research_payload_sel [OF d0(1)]
    from ok jobs_ok_cong [OF sel(1,2)] have ok0: "jobs_ok d0" by simp
    from terminalize_delegation_moves [OF ok0 d0(2)] obtain x u d2 where "moved d0 x u d2" "owns_lease a x" by metis
    with sel(1) have "\<exists>t \<in> set (jd_tasks d). owns_lease a t" by (auto simp: moved_def)
    with terminalize_delegation_ok [OF ok0 d0(2)] show ?thesis by blast
  next
    case False
    with step obtain d0 where d0: "fail_leased a c d = Inr d0"
      and d1: "(if is_configured_research t \<and> tk_parent t = None then fail_session (at_run_id a) c d0 else Inr d0) = Inr d1"
      by (auto simp: result_simps split: if_splits)
    have "rows_ok d" using ok by (simp add: jobs_ok_def)
    from fail_leased_moves [OF this d0] obtain x u where m: "moved d x u d0" "ended failed failed x u" "owns_lease a x"
        "jd_delegations d0 = jd_delegations d" by metis
    have "jobs_ok d0" by (rule moved_ended_ok [OF ok m(1) delegations_end_refl [OF m(4)] m(2)]) (simp_all add: pair_ok_def)
    moreover have "jd_tasks d1 = jd_tasks d0 \<and> jd_delegations d1 = jd_delegations d0"
      using d1 by (auto simp: fail_session_def split: if_splits)
    ultimately have "jobs_ok d1" using jobs_ok_cong [of d1 d0] by simp
    with m(1,3) show ?thesis by (auto simp: moved_def)
  qed
  then show "\<exists>t \<in> set (jd_tasks d). owns_lease a t" "jobs_ok d'"
    unfolding d' by (auto intro: last_error_ok)
qed

section \<open>Claiming\<close>

lemma claimable_status:
  "claimable now t \<Longrightarrow> (tk_run_status t = queued \<and> tk_status t = queued) \<or> (tk_run_status t = running \<and> tk_status t = running)"
  by (auto simp: claimable_def)

lemma claimable_not_parent: "claimable now t \<Longrightarrow> \<not> parent_ok t"
  by (auto simp: claimable_def parent_ok_def)

lemma claim_order_rows: "set (claim_order locked d) = {t \<in> set (jd_tasks d). claimable (jd_now d) t \<and> tk_job_id t \<notin> set locked}"
  by (auto simp: claim_order_def)

lemma scan_jobD:
  assumes "scan_job t = Inr j"
  shows "cj_id j = tk_job_id t" "cj_run_id j = tk_run_id t" "cj_attempt_no j = tk_attempt_no t"
    "cj_failed_attempts j = tk_failed_attempts t" "tk_max_attempts t = Some (cj_max_attempts j)"
    "tk_deadline t = Some (cj_deadline j)" "cj_lease_token j = (case tk_lease_token t of None \<Rightarrow> [] | Some x \<Rightarrow> x)"
  using assms by (auto simp: scan_job_def split: option.splits)

definition claimed_row :: "gostring \<Rightarrow> int \<Rightarrow> job_db \<Rightarrow> task \<Rightarrow> task" where
  "claimed_row token lease d t = (lease_task token lease (tk_status t = running) d t)\<lparr>tk_run_status := running\<rparr>"

lemma claim_leased_moves:
  assumes ok: "jobs_ok d" and t: "t \<in> set (jd_tasks d)" "scan_job t = Inr j"
    and run: "claim_leased token lease (tk_status t = running) j d = Inr (step, d')"
  shows "moved d t (claimed_row token lease d t) d'" "jd_delegations d' = jd_delegations d" "jd_now d' = jd_now d"
    "step = Claimed_Job (j\<lparr>cj_attempt_no := tk_attempt_no t + 1,
       cj_failed_attempts := tk_failed_attempts t + (if tk_status t = running then 1 else 0), cj_lease_token := token\<rparr>)"
proof -
  from ok have rows: "rows_ok d" by (simp add: jobs_ok_def)
  let ?J = "\<lambda>t. tk_job_id t = cj_id j" and ?g = "lease_task token lease (tk_status t = running) d"
  let ?P = "\<lambda>t. tk_run_id t = cj_run_id j \<and> active_run (tk_run_status t)"
  let ?f = "\<lambda>t::task. t\<lparr>tk_run_status := running\<rparr>"
  note j = scan_jobD [OF t(2)]
  from run have jobs: "affected ?J d = 1" and runs: "affected ?P (update_tasks ?J ?g d) = 1"
    and d': "d' = update_runs ?P ?f (update_tasks ?J ?g d)"
    and step: "step = Claimed_Job (j\<lparr>cj_attempt_no := cj_attempt_no j + 1,
       cj_failed_attempts := cj_failed_attempts j + (if tk_status t = running then 1 else 0), cj_lease_token := token\<rparr>)"
    by (auto simp: claim_leased_def Let_def split: if_splits)
  have g: "keeps_keys ?g" and f: "keeps_keys ?f" by simp_all
  have same: "tk_run_id x = tk_run_id y" if "y \<in> set (jd_tasks d)" "?J y" "?P x" for x y
    using same_row(2) [OF rows that(1) t(1)] that(2,3) j(1,2) by simp
  obtain y where y: "y \<in> set (jd_tasks d)" "?J y" "moved d y (?f (?g y)) (update_runs ?P ?f (update_tasks ?J ?g d))"
    by (rule job_then_run [OF rows jobs g runs f]) (use same in blast)+
  with same_row(2) [OF rows y(1) t(1)] j(1) have "y = t" by simp
  with y(3) show "moved d t (claimed_row token lease d t) d'" by (simp add: claimed_row_def d')
  show "jd_delegations d' = jd_delegations d" "jd_now d' = jd_now d" by (simp_all add: d')
  show "step = Claimed_Job (j\<lparr>cj_attempt_no := tk_attempt_no t + 1,
       cj_failed_attempts := tk_failed_attempts t + (if tk_status t = running then 1 else 0), cj_lease_token := token\<rparr>)"
    using step j(3,4) by simp
qed

text \<open>A Job that may still be leased.\<close>

definition leasable :: "task \<Rightarrow> bool" where
  "leasable t \<longleftrightarrow> tk_attempt_no t < max_agent_leases
     \<and> (tk_status t = running \<longrightarrow> (\<forall>m. tk_max_attempts t = Some m \<longrightarrow> tk_failed_attempts t + 1 < m))"

lemma claimed_row_ok:
  assumes "task_ok t" "claimable now t" "leasable t" "token \<noteq> []"
  shows "task_ok (claimed_row token lease d t)"
  using claimable_status [OF assms(2)] assms(1,3,4)
  by (auto simp: claimed_row_def lease_task_def row_defs leasable_def max_agent_leases_def)

lemma claim_leased_ok:
  assumes ok: "jobs_ok d" and t: "t \<in> set (jd_tasks d)" "claimable now t" "leasable t" "scan_job t = Inr j"
    and run: "claim_leased token lease (tk_status t = running) j d = Inr (step, d')" and token: "token \<noteq> []"
  shows "jobs_ok d'"
proof -
  note m = claim_leased_moves [OF ok t(1,4) run]
  have "task_ok t" using ok t(1) by (auto simp: jobs_ok_def dest: rows_okD(3))
  then have u: "task_ok (claimed_row token lease d t)" using t(2,3) token by (rule claimed_row_ok)
  show ?thesis
    by (rule moved_jobs_ok [OF ok m(1) delegations_end_refl [OF m(2)] u])
      (use claimable_not_parent [OF t(2)] in \<open>simp_all add: claimed_row_def lease_task_def\<close>)
qed

text \<open>One transaction of \<open>ClaimNext\<close>: what it found, and what it did with it.\<close>

lemma claim_tx_cases:
  assumes "claim_tx token lease locked d0 = Inr (step, d')"
  obtains (none) d n where "expire_if_overdue [] [] d0 = Inr (d, n)" "claim_order locked d = []" "step = No_Job" "d' = d"
  | (exhausted) d n t rest j where "expire_if_overdue [] [] d0 = Inr (d, n)" "claim_order locked d = t # rest"
      "scan_job t = Inr j" "\<not> leasable t" "exhaust_recovery j d = Inr d'" "step = Exhausted_Job (cj_id j)"
  | (claimed) d n t rest j where "expire_if_overdue [] [] d0 = Inr (d, n)" "claim_order locked d = t # rest"
      "scan_job t = Inr j" "leasable t" "claim_leased token lease (tk_status t = running) j d = Inr (step, d')"
proof -
  from assms obtain d n where e: "expire_if_overdue [] [] d0 = Inr (d, n)"
    and step: "(case claim_order locked d of
         [] \<Rightarrow> Inr (No_Job, d)
       | t # _ \<Rightarrow>
           bind_result (scan_job t) (\<lambda>j.
             let lost = (tk_status t = running)
             in if (lost \<and> (cj_failed_attempts j + 1 \<ge> cj_max_attempts j \<or> cj_attempt_no j \<ge> max_agent_leases))
                   \<or> (\<not> lost \<and> cj_attempt_no j \<ge> max_agent_leases)
                then bind_result (exhaust_recovery j d) (\<lambda>d1. Inr (Exhausted_Job (cj_id j), d1))
                else claim_leased token lease lost j d)) = Inr (step, d')"
    by (auto simp: claim_tx_def result_simps)
  show ?thesis
  proof (cases "claim_order locked d")
    case Nil
    with step show ?thesis by (intro none [OF e]) simp_all
  next
    case (Cons t rest)
    with step obtain j where j: "scan_job t = Inr j" by (auto simp: result_simps)
    note js = scan_jobD [OF j]
    show ?thesis
    proof (cases "leasable t")
      case True
      then have "\<not> ((tk_status t = running \<and> (cj_failed_attempts j + 1 \<ge> cj_max_attempts j \<or> cj_attempt_no j \<ge> max_agent_leases))
                   \<or> (tk_status t \<noteq> running \<and> cj_attempt_no j \<ge> max_agent_leases))"
        using js by (auto simp: leasable_def)
      with step True j Cons show ?thesis by (intro claimed [OF e Cons j True]) (simp add: Let_def)
    next
      case False
      then have "(tk_status t = running \<and> (cj_failed_attempts j + 1 \<ge> cj_max_attempts j \<or> cj_attempt_no j \<ge> max_agent_leases))
                   \<or> (tk_status t \<noteq> running \<and> cj_attempt_no j \<ge> max_agent_leases)"
        using js by (auto simp: leasable_def not_less)
      with step False j Cons show ?thesis by (intro exhausted [OF e Cons j False]) (auto simp: Let_def result_simps)
    qed
  qed
qed

end
