(* ===== verification/Job_Lifecycle.thy ===== *)
theory Job_Lifecycle
  imports Job_Moves
begin

text \<open>
  The queue as a state machine: every transaction of workers, of the Agent runtime and of users is one
  step. Its properties: Run and Job stay together, leases are exclusive, claiming ends, and what blocks.
\<close>

section \<open>Every transaction keeps the invariant\<close>

lemma claim_tx_ok:
  assumes ok: "jobs_ok d0" and run: "claim_tx token lease locked d0 = Inr (step, d')" and token: "token \<noteq> []"
  shows "jobs_ok d'"
  using run
proof (cases rule: claim_tx_cases)
  case (none d n)
  with expire_if_overdue_ok(1) [OF ok] show ?thesis by simp
next
  case (exhausted d n t rest j)
  from expire_if_overdue_ok(1) [OF ok exhausted(1)] exhausted(5) show ?thesis
    unfolding exhaust_recovery_def by (rule terminalize_attempt_state_ok(1))
next
  case (claimed d n t rest j)
  have "t \<in> set (claim_order locked d)" using claimed(2) by simp
  then have t: "t \<in> set (jd_tasks d)" "claimable (jd_now d) t" by (simp_all add: claim_order_rows)
  show ?thesis
    by (rule claim_leased_ok [OF expire_if_overdue_ok(1) [OF ok claimed(1)] t claimed(4,3,5) token])
qed

lemma heartbeat_ok: "jobs_ok d \<Longrightarrow> jobs_ok (snd (heartbeat job token lease std d))"
  unfolding heartbeat_def Let_def snd_conv
  by (rule touch_ok) (auto simp: jobs_ok_def row_defs dest!: rows_okD(3))

lemma release_lease_ok: "jobs_ok d \<Longrightarrow> jobs_ok (snd (release_lease job token d))"
  unfolding release_lease_def Let_def snd_conv
  by (rule touch_ok) (auto simp: jobs_ok_def row_defs dest!: rows_okD(3))

definition requeued_row :: "attempt_resolution \<Rightarrow> job_db \<Rightarrow> task \<Rightarrow> task" where
  "requeued_row r d t =
     (end_job queued t)\<lparr>tk_failed_attempts := tk_failed_attempts t + 1, tk_available_at := jd_now d + ars_backoff r,
        tk_last_error := Some (ars_error_code r), tk_run_status := queued\<rparr>"

lemma requeue_moves:
  assumes rows: "rows_ok d" and run: "requeue j r d = Inr d'"
  obtains t where "moved d t (requeued_row r d t) d'" "owns_lease (job_attempt j) t"
    "jd_delegations d' = jd_delegations d" "jd_now d' = jd_now d"
proof -
  let ?J = "owns_lease (job_attempt j)"
  let ?g = "\<lambda>t. (end_job queued t)\<lparr>tk_failed_attempts := tk_failed_attempts t + 1,
                 tk_available_at := jd_now d + ars_backoff r, tk_last_error := Some (ars_error_code r)\<rparr>"
  let ?P = "\<lambda>t. tk_run_id t = cj_run_id j \<and> tk_run_status t = running"
  let ?f = "\<lambda>t::task. t\<lparr>tk_run_status := queued\<rparr>"
  from run have jobs: "affected ?J d = 1" and runs: "affected ?P (update_tasks ?J ?g d) = 1"
    and d': "d' = update_runs ?P ?f (update_tasks ?J ?g d)"
    by (auto simp: requeue_def Let_def split: if_splits)
  have g: "keeps_keys ?g" and f: "keeps_keys ?f" by (simp_all add: keeps_keys_def end_job_def)
  have same: "tk_run_id x = tk_run_id y" if "?J y" "?P x" for x y
    using owns_leaseD [OF that(1)] that(2) by (simp add: job_attempt_def)
  obtain t where t: "t \<in> set (jd_tasks d)" "?J t" "moved d t (?f (?g t)) (update_runs ?P ?f (update_tasks ?J ?g d))"
    by (rule job_then_run [OF rows jobs g runs f]) (use same in blast)+
  from t(3) have "moved d t (requeued_row r d t) d'" by (simp add: requeued_row_def d')
  with t(2) show ?thesis by (intro that) (simp_all add: d')
qed

lemma owns_lease_not_parent: "owns_lease a t \<Longrightarrow> task_ok t \<Longrightarrow> \<not> parent_ok t"
  by (auto simp: owns_lease_def parent_ok_def row_defs)

lemma requeued_row_ok:
  assumes "task_ok t" "owns_lease a t" "\<And>m. tk_max_attempts t = Some m \<Longrightarrow> tk_failed_attempts t + 1 < m"
  shows "task_ok (requeued_row r d t)"
  using assms by (auto simp: requeued_row_def end_job_def row_defs owns_lease_def)

lemma requeue_ok:
  assumes ok: "jobs_ok d" and run: "requeue j r d = Inr d'"
    and more: "\<And>t m. t \<in> set (jd_tasks d) \<Longrightarrow> tk_run_id t = cj_run_id j \<Longrightarrow> tk_max_attempts t = Some m \<Longrightarrow> tk_failed_attempts t + 1 < m"
  shows "jobs_ok d'"
proof -
  from ok have rows: "rows_ok d" by (simp add: jobs_ok_def)
  from requeue_moves [OF rows run] obtain t where m: "moved d t (requeued_row r d t) d'"
      and own: "owns_lease (job_attempt j) t" and dl: "jd_delegations d' = jd_delegations d" by metis
  from m have t: "t \<in> set (jd_tasks d)" by (simp add: moved_def)
  have "tk_run_id t = cj_run_id j" using owns_leaseD [OF own] by (simp add: job_attempt_def)
  with more t have u: "task_ok (requeued_row r d t)" by (intro requeued_row_ok [OF rows_okD(3) [OF rows t] own]) blast
  show ?thesis
    by (rule moved_jobs_ok [OF ok m delegations_end_refl [OF dl] u])
      (use owns_lease_not_parent [OF own rows_okD(3) [OF rows t]] in \<open>simp_all add: requeued_row_def end_job_def\<close>)
qed

lemma resolve_attempt_cases:
  assumes "resolve_attempt clock j requested d = Inr (actual, d')"
  obtains (settled) t where "find (\<lambda>t. tk_job_id t = cj_id j \<and> tk_run_id t = cj_run_id j) (jd_tasks d) = Some t" "d' = d"
      "tk_status t \<noteq> running \<or> tk_lease_token t \<noteq> Some (cj_lease_token j)"
      "terminal_job_disposition (tk_status t) (stored_error_code t) = Some actual"
  | (retried) t m where "find (\<lambda>t. tk_job_id t = cj_id j \<and> tk_run_id t = cj_run_id j) (jd_tasks d) = Some t"
      "tk_max_attempts t = Some m" "tk_failed_attempts t + 1 < m" "cj_attempt_no j < max_agent_leases"
      "requeue j requested d = Inr d'" "actual = requested" "resolution_valid requested"
      "ars_disposition requested = attempt_retryable"
  | (ended) c where "terminalize_attempt_state (job_attempt j) c d = Inr d'" "ars_error_code actual = c"
      "ars_disposition actual = attempt_terminal"
proof -
  from assms obtain t m dl where req: "resolution_valid requested"
    and t: "find (\<lambda>t. tk_job_id t = cj_id j \<and> tk_run_id t = cj_run_id j) (jd_tasks d) = Some t"
    and m: "tk_max_attempts t = Some m" "tk_deadline t = Some dl"
    by (auto simp: resolve_attempt_def split: if_splits option.splits)
  show ?thesis
  proof (cases "tk_status t \<noteq> running \<or> tk_lease_token t \<noteq> Some (cj_lease_token j)")
    case True
    with assms req t m show ?thesis
      by (intro settled [OF t]) (auto simp: resolve_attempt_def split: option.splits)
  next
    case False
    let ?over = "tk_failed_attempts t + 1 \<ge> m \<or> cj_attempt_no j \<ge> max_agent_leases"
    let ?late = "\<not> clock + ars_backoff requested < dl"
    let ?again = "ars_disposition requested = attempt_retryable \<and> \<not> ?over \<and> \<not> ?late"
    let ?actual = "if ars_disposition requested \<noteq> attempt_retryable then requested
      else if ?over then resolution attempt_terminal ''retry_exhausted'' else resolution attempt_terminal run_deadline_exceeded"
    have kinds: "ars_disposition requested \<in> {attempt_retryable, attempt_terminal}"
      using assms req t m False by (auto simp: resolve_attempt_def resolution_valid_def split: if_splits)
    then have step: "(if ?again then bind_result (requeue j requested d) (\<lambda>d1. Inr (requested, d1))
        else bind_result (terminalize_attempt_state (job_attempt j) (ars_error_code ?actual) d) (\<lambda>d1. Inr (?actual, d1)))
      = Inr (actual, d')"
      using assms req t m False by (auto simp: resolve_attempt_def Let_def dispositions split: if_splits)
    show ?thesis
    proof (cases ?again)
      case True
      with step req show ?thesis by (intro retried [OF t m(1)]) (auto simp: result_simps not_le)
    next
      case False
      with step have r: "terminalize_attempt_state (job_attempt j) (ars_error_code ?actual) d = Inr d'" "actual = ?actual"
        unfolding if_not_P [OF False] by (simp_all only: bind_result_Inr_conv) (auto simp only: sum.inject prod.inject)
      have "ars_disposition ?actual = attempt_terminal" using kinds by (auto simp: resolution_def)
      with r show ?thesis by (intro ended [OF r(1)]) (simp_all only:)
    qed
  qed
qed

lemma find_Some: "find P xs = Some x \<Longrightarrow> x \<in> set xs \<and> P x"
  by (induction xs) (auto split: if_splits)

lemma resolve_attempt_ok:
  assumes ok: "jobs_ok d" and run: "resolve_attempt clock j requested d = Inr (actual, d')"
  shows "jobs_ok d'"
  using run
proof (cases rule: resolve_attempt_cases)
  case (settled t)
  with ok show ?thesis by simp
next
  case (retried t m)
  from find_Some [OF retried(1)] have t: "t \<in> set (jd_tasks d)" "tk_run_id t = cj_run_id j" by auto
  have rows: "rows_ok d" using ok by (simp add: jobs_ok_def)
  show ?thesis
  proof (rule requeue_ok [OF ok retried(5)])
    fix x n assume x: "x \<in> set (jd_tasks d)" "tk_run_id x = cj_run_id j" "tk_max_attempts x = Some n"
    with same_row(1) [OF rows x(1) t(1)] t(2) retried(2,3) show "tk_failed_attempts x + 1 < n" by simp
  qed
next
  case (ended c)
  from ok ended(1) show ?thesis by (rule terminalize_attempt_state_ok(1))
qed

section \<open>Cancelling\<close>

lemma cancel_tree_moves:
  assumes ok: "jobs_ok d" and run: "cancel_tree parent c d = Inr d'"
  obtains t u where "moved d t u d'" "ended cancelled cancelled t u" "delegations_end d d'" "jd_now d' = jd_now d"
    "\<exists>x \<in> set (jd_delegations d). dl_parent_run x = parent \<and> dl_child_run x = tk_run_id t"
proof -
  from ok have rows: "rows_ok d" and dls: "delegations_ok d" by (simp_all add: jobs_ok_def)
  let ?m = "\<lambda>x. dl_parent_run x = parent \<and> dl_state x = delegation_waiting"
  let ?P = "\<lambda>t. list_ex (\<lambda>x. ?m x \<and> dl_child_run x = tk_run_id t) (jd_delegations d) \<and> active_run (tk_run_status t)"
  let ?J = "\<lambda>t. ?P t \<and> active_run (tk_status t)"
  let ?f = "\<lambda>t::task. t\<lparr>tk_run_status := cancelled, tk_error_code := Some c\<rparr>"
  let ?d = "update_runs ?P ?f (update_tasks ?J (end_job cancelled) d)"
  from run have jobs: "affected ?J d = 1" and d': "d' = end_delegations ?m delegation_cancelled c ?d"
    by (auto simp: cancel_tree_def Let_def split: if_splits)
  have same: "tk_run_id x = tk_run_id y" if xy: "?P x" "?P y" for x y
  proof -
    from xy obtain a b where "a \<in> set (jd_delegations d)" "?m a" "dl_child_run a = tk_run_id x"
        "b \<in> set (jd_delegations d)" "?m b" "dl_child_run b = tk_run_id y"
      by (auto simp: list_ex_iff)
    with same_delegation(1) [OF dls, of a b] show ?thesis by simp
  qed
  obtain y where y: "y \<in> set (jd_tasks d)" "?J y" by (rule affected_one [OF jobs]) blast
  let ?d1 = "update_tasks ?J (end_job cancelled) d"
  have runs: "affected ?P ?d1 = 1"
  proof (rule affected_unique)
    have "map tk_run_id (jd_tasks ?d1) = map tk_run_id (jd_tasks d)" by (simp add: end_job_def)
    then show "distinct (map tk_run_id (jd_tasks ?d1))" using rows_okD(1) [OF rows] by (simp only:)
    show "end_job cancelled y \<in> set (jd_tasks ?d1)" using y by (auto intro!: image_eqI [of _ _ y])
    show Py: "?P (end_job cancelled y)" using y(2) by (simp add: end_job_def)
    show "tk_run_id x = tk_run_id (end_job cancelled y)" if "?P x" for x using same that Py by blast
  qed
  have f: "keeps_keys ?f" by simp
  obtain t where t: "t \<in> set (jd_tasks d)" "?J t" "moved d t (?f (end_job cancelled t)) ?d"
    by (rule job_then_run [OF rows jobs keeps_keys_simps(1) runs f]) (use same in blast)+
  from t(3) have m: "moved d t (?f (end_job cancelled t)) d'" using moved_tasks [of d' ?d] by (simp add: d')
  have dl: "delegations_end d d'" unfolding d' by (rule delegations_end_end) (simp_all add: delegation_states)
  have e: "ended cancelled cancelled t (?f (end_job cancelled t))" by (simp add: ended_def end_job_def)
  have now: "jd_now d' = jd_now d" by (simp add: d')
  have "\<exists>x \<in> set (jd_delegations d). dl_parent_run x = parent \<and> dl_child_run x = tk_run_id t"
    using t(2) unfolding list_ex_iff by blast
  then show ?thesis by (rule that [OF m e dl now])
qed

lemma ended_key: "ended r j t u \<Longrightarrow> row_key u = row_key t"
  by (simp add: ended_def)

lemma cancel_run_ok:
  assumes ok: "jobs_ok d" and run: "cancel_run user r d = Inr d'"
  shows "jobs_ok d'"
proof -
  from run obtain t where t: "t \<in> set (jd_tasks d)" "tk_run_id t = r"
    and step: "tk_run_status t = cancelled \<and> d' = d \<or>
      bind_result (case research_child_of r d of
               None \<Rightarrow> Inr d
             | Some child \<Rightarrow>
                 bind_result (cancel_tree r ''research_cancelled'' d)
                   (fail_research_payload (tk_run_id child) ''research_cancelled''))
        (\<lambda>d1.
               let ends_run = (\<lambda>x. tk_run_id x = r \<and> active_run (tk_run_status x));
                   runs = affected ends_run d1;
                   d2 = update_runs ends_run (\<lambda>x. x\<lparr>tk_run_status := cancelled, tk_error_code := None\<rparr>) d1;
                   ends_job = (\<lambda>x. tk_job_id x = tk_job_id t \<and> active_job (tk_status x));
                   jobs = affected ends_job d2
               in if runs \<noteq> 1 \<or> jobs \<noteq> 1 then Inl Q_Not_Cancellable
                  else Inr (update_tasks ends_job (end_job cancelled) d2)) = Inr d'"
    unfolding cancel_run_def by (auto split: option.splits if_splits dest!: find_Some)
  show ?thesis
  proof (cases "tk_run_status t = cancelled \<and> d' = d")
    case False
    with step obtain d1 where d1: "(case research_child_of r d of
               None \<Rightarrow> Inr d
             | Some child \<Rightarrow>
                 bind_result (cancel_tree r ''research_cancelled'' d)
                   (fail_research_payload (tk_run_id child) ''research_cancelled'')) = Inr d1"
      and last: "(let ends_run = (\<lambda>x. tk_run_id x = r \<and> active_run (tk_run_status x));
                   runs = affected ends_run d1;
                   d2 = update_runs ends_run (\<lambda>x. x\<lparr>tk_run_status := cancelled, tk_error_code := None\<rparr>) d1;
                   ends_job = (\<lambda>x. tk_job_id x = tk_job_id t \<and> active_job (tk_status x));
                   jobs = affected ends_job d2
               in if runs \<noteq> 1 \<or> jobs \<noteq> 1 then Inl Q_Not_Cancellable
                  else Inr (update_tasks ends_job (end_job cancelled) d2)) = Inr d'"
      by (auto simp only: bind_result_Inr_conv)
    have mid: "jobs_ok d1 \<and> map row_key (jd_tasks d1) = map row_key (jd_tasks d)"
    proof (cases "research_child_of r d")
      case None
      with d1 ok show ?thesis by simp
    next
      case (Some child)
      with d1 obtain d0 where d0: "cancel_tree r ''research_cancelled'' d = Inr d0"
          "fail_research_payload (tk_run_id child) ''research_cancelled'' d0 = Inr d1"
        by (auto simp: result_simps)
      from cancel_tree_moves [OF ok d0(1)] obtain x u where m: "moved d x u d0" "ended cancelled cancelled x u" "delegations_end d d0"
        by metis
      have "jobs_ok d0" by (rule moved_ended_ok [OF ok m(1,3,2)]) (simp_all add: pair_ok_def)
      with fail_research_payload_sel(1,2) [OF d0(2)] jobs_ok_cong [of d1 d0] moved_keys [OF m(1) ended_key [OF m(2)]]
      show ?thesis by simp
    qed
    then have ok1: "jobs_ok d1" and keys1: "map row_key (jd_tasks d1) = map row_key (jd_tasks d)" by blast+
    from ok1 have rows1: "rows_ok d1" by (simp add: jobs_ok_def)
    let ?P = "\<lambda>x. tk_run_id x = r \<and> active_run (tk_run_status x)"
    let ?f = "\<lambda>x::task. x\<lparr>tk_run_status := cancelled, tk_error_code := None\<rparr>"
    let ?J = "\<lambda>x. tk_job_id x = tk_job_id t \<and> active_job (tk_status x)"
    from last have runs: "affected ?P d1 = 1" and jobs: "affected ?J (update_runs ?P ?f d1) = 1"
      and d': "d' = update_tasks ?J (end_job cancelled) (update_runs ?P ?f d1)"
      by (auto simp: Let_def split: if_splits)
    have f: "keeps_keys ?f" by simp
    have keys: "map row_key (jd_tasks (update_runs ?P ?f d1)) = map row_key (jd_tasks d)"
      by (rule trans [OF update_runs_keys [OF f] keys1])
    have rows: "rows_ok d" using ok by (simp add: jobs_ok_def)
    have same: "tk_run_id x = tk_run_id y" if "?P y" "x \<in> set (jd_tasks (update_runs ?P ?f d1))" "?J x" for x y
      using same_run_by_job [OF rows keys t(1) that(2)] that(1,3) t(2) by simp
    obtain y where "moved d1 y (end_job cancelled (?f y)) (update_tasks ?J (end_job cancelled) (update_runs ?P ?f d1))"
      by (rule run_then_job [OF rows1 runs f jobs keeps_keys_simps(1)]) (use same in blast)+
    then have m: "moved d1 y (end_job cancelled (?f y)) d'" by (simp only: d')
    have e: "ended cancelled cancelled y (end_job cancelled (?f y))" by (simp add: ended_def end_job_def)
    have "jd_delegations d' = jd_delegations d1" by (simp add: d')
    then show ?thesis
      by (rule moved_ended_ok [OF ok1 m delegations_end_refl e]) (simp_all add: pair_ok_def)
  qed (use ok in simp)
qed

end
