(* ===== verification/Run_Handoff.thy ===== *)
theory Run_Handoff
  imports Job_Lifecycle
begin

text \<open>
  How attempts hand over: publication of a Chat or Studio Run, a leader that resumes after its delegation
  (\<open>agent/leader_executor.go\<close>), subagents that are spawned and waited for (\<open>agent/runtime_subagent.go\<close>),
  and the admission of a Run (\<open>agent/store.go\<close>). What a transaction writes beside the rows of the queue
  is left out.
\<close>

section \<open>Authority of an attempt\<close>

definition require_lease :: "attempt \<Rightarrow> gostring \<Rightarrow> job_db \<Rightarrow> bool" where
  "require_lease a role d \<longleftrightarrow>
     list_ex (\<lambda>t. owns_lease a t
        \<and> ((tk_runtime_kind t = kind_legacy \<and> tk_role t = Some role) \<or> (tk_runtime_kind t = kind_configured \<and> tk_executor t = Some role))
        \<and> tk_run_status t = running \<and> ahead (tk_deadline t) (jd_now d) \<and> ahead (tk_lease_expires_at t) (jd_now d))
       (jd_tasks d)"

text \<open>
  \<open>lockCheckpointAuthority\<close> on the rows of the queue (theory \<open>Checkpoint_Store\<close> models it on one Run);
  the membership of the user in the Notebook is a parameter.
\<close>

definition holds_authority :: "(gostring \<Rightarrow> bool) \<Rightarrow> attempt \<Rightarrow> job_db \<Rightarrow> bool" where
  "holds_authority member a d \<longleftrightarrow>
     list_ex (\<lambda>t. owns_lease a t \<and> tk_attempt_no t = at_attempt_no a \<and> tk_run_status t = running
        \<and> tk_output_message t = None \<and> ahead (tk_lease_expires_at t) (jd_now d) \<and> ahead (tk_deadline t) (jd_now d))
       (jd_tasks d)
     \<and> member (at_run_id a)"

section \<open>Publication\<close>

definition job_lease_held :: "attempt \<Rightarrow> task \<Rightarrow> bool" where
  "job_lease_held a t \<longleftrightarrow> tk_job_id t = at_job_id a \<and> tk_status t = running \<and> tk_lease_token t = Some (at_lease_token a)"

definition publish_run :: "(gostring \<Rightarrow> bool) \<Rightarrow> attempt \<Rightarrow> gostring \<Rightarrow> job_db \<Rightarrow> (queue_error, job_db) result" where
  "publish_run member a message d =
     (let ends_run = (\<lambda>t. tk_run_id t = at_run_id a \<and> tk_run_status t = running \<and> tk_output_message t = None);
          runs = affected ends_run d;
          d1 = update_runs ends_run (\<lambda>t. t\<lparr>tk_run_status := completed, tk_output_message := Some message, tk_error_code := None\<rparr>) d;
          jobs = affected (job_lease_held a) d1
      in if \<not> holds_authority member a d then Inl Q_Lease_Lost
         else if runs \<noteq> 1 \<or> jobs \<noteq> 1 then Inl Q_Not_Together
         else Inr (update_tasks (job_lease_held a) (end_job succeeded) d1))"

definition publish_studio_run :: "(gostring \<Rightarrow> bool) \<Rightarrow> attempt \<Rightarrow> job_db \<Rightarrow> (queue_error, job_db) result" where
  "publish_studio_run member a d =
     (let ends_run = (\<lambda>t. tk_run_id t = at_run_id a \<and> tk_run_status t = running);
          runs = affected ends_run d;
          d1 = update_runs ends_run (\<lambda>t. t\<lparr>tk_run_status := completed, tk_error_code := None\<rparr>) d;
          jobs = affected (job_lease_held a) d1
      in if \<not> holds_authority member a d then Inl Q_Lease_Lost
         else if runs \<noteq> 1 \<or> jobs \<noteq> 1 then Inl Q_Not_Together
         else Inr (update_tasks (job_lease_held a) (end_job succeeded) d1))"

section \<open>A leader after its delegation\<close>

definition fail_leader :: "attempt \<Rightarrow> gostring \<Rightarrow> job_db \<Rightarrow> (queue_error, job_db) result" where
  "fail_leader a code d =
     (case find (\<lambda>x. dl_parent_run x = at_run_id a) (jd_delegations d) of
        None \<Rightarrow> Inl Q_No_Rows
      | Some x \<Rightarrow>
          bind_result (fail_research_payload (dl_child_run x) code d) (\<lambda>d1.
          bind_result (fail_parent a code d1) (\<lambda>d2.
            consume_delegation (at_run_id a) (dl_state x) d2)))"

text \<open>The outcome of the delegation is the discovery session it found, if any.\<close>

definition resume_delegated ::
  "(gostring \<Rightarrow> gostring option) \<Rightarrow> attempt \<Rightarrow> gostring \<Rightarrow> gostring \<Rightarrow> job_db \<Rightarrow> (queue_error, job_db) result" where
  "resume_delegated outcome a role message d =
     (if \<not> require_lease a role d then Inl Q_Lease_Lost
      else case find (\<lambda>x. dl_parent_run x = at_run_id a) (jd_delegations d) of
        None \<Rightarrow> Inl Q_No_Rows
      | Some x \<Rightarrow>
          if dl_state x = delegation_failed \<or> dl_state x = delegation_cancelled
          then fail_leader a (case dl_error_code x of Some c \<Rightarrow> c | None \<Rightarrow> ''research_failed'') d
          else if dl_state x \<noteq> delegation_succeeded \<or> outcome (dl_child_run x) = None then Inl Q_Not_Committed
          else
            let ends_run = (\<lambda>t. tk_run_id t = at_run_id a \<and> tk_run_status t = running);
                d1 = update_runs ends_run (\<lambda>t. t\<lparr>tk_run_status := completed, tk_output_message := Some message\<rparr>) d
            in if affected ends_run d \<noteq> 1 then Inl Q_Lease_Lost
               else bind_result (complete_parent_job a d1) (consume_delegation (at_run_id a) delegation_succeeded))"

definition fail_research :: "attempt \<Rightarrow> gostring \<Rightarrow> job_db \<Rightarrow> (queue_error, job_db) result" where
  "fail_research a code d =
     (if \<not> require_lease a role_research d then Inl Q_Lease_Lost
      else terminalize_delegation a delegation_failed code d)"

section \<open>Admission and subagents\<close>

definition new_task :: "gostring \<Rightarrow> gostring \<Rightarrow> gostring \<Rightarrow> int \<Rightarrow> int option \<Rightarrow> gostring \<Rightarrow> int \<Rightarrow> task" where
  "new_task run job user deadline max_attempts executor now =
     \<lparr>tk_run_id = run, tk_run_status = queued, tk_error_code = None, tk_deadline = Some deadline,
      tk_max_attempts = max_attempts, tk_runtime_kind = kind_configured, tk_role = None, tk_executor = Some executor,
      tk_output_message = None, tk_user = Some user, tk_tree_user = Some user, tk_parent = None, tk_cancelled_attempt = None, tk_job_id = job,
      tk_status = queued, tk_attempt_no = 0, tk_failed_attempts = 0, tk_lease_token = None, tk_lease_expires_at = None,
      tk_available_at = now, tk_created_at = now, tk_last_error = None\<rparr>"

definition has_key_of :: "task \<Rightarrow> job_db \<Rightarrow> bool" where
  "has_key_of t d \<longleftrightarrow> list_ex (\<lambda>x. tk_run_id x = tk_run_id t \<or> tk_job_id x = tk_job_id t) (jd_tasks d)"

definition admit_run :: "gostring \<Rightarrow> gostring \<Rightarrow> gostring \<Rightarrow> int \<Rightarrow> int option \<Rightarrow> gostring \<Rightarrow> job_db \<Rightarrow> (queue_error, job_db) result" where
  "admit_run run job user deadline max_attempts executor d =
     (let t = new_task run job user deadline max_attempts executor (jd_now d)
      in if has_key_of t d \<or> (case max_attempts of Some m \<Rightarrow> m < 1 | None \<Rightarrow> False) then Inl Q_Constraint
         else Inr (d\<lparr>jd_tasks := jd_tasks d @ [t]\<rparr>))"

definition subagents_of :: "gostring \<Rightarrow> job_db \<Rightarrow> task list" where
  "subagents_of parent d = filter (\<lambda>t. tk_parent t = Some parent) (jd_tasks d)"

definition count_runtime_subagents :: "gostring \<Rightarrow> job_db \<Rightarrow> nat \<times> nat" where
  "count_runtime_subagents parent d =
     (length (filter (\<lambda>t. active_run (tk_run_status t)) (subagents_of parent d)), length (subagents_of parent d))"

definition subagent_max_active :: nat where "subagent_max_active = 4"
definition subagent_max_total :: nat where "subagent_max_total = 16"

text \<open>The child's Run copies the pins of its parent's; \<open>agent_subagents\<close> names the parent.\<close>

definition subagent_task :: "gostring \<Rightarrow> gostring \<Rightarrow> task \<Rightarrow> int \<Rightarrow> task" where
  "subagent_task run job parent now =
     parent\<lparr>tk_run_id := run, tk_run_status := queued, tk_error_code := None, tk_role := None, tk_output_message := None,
            tk_user := None, tk_parent := Some (tk_run_id parent), tk_cancelled_attempt := None, tk_job_id := job,
            tk_status := queued, tk_attempt_no := 0, tk_failed_attempts := 0, tk_lease_token := None,
            tk_lease_expires_at := None, tk_available_at := now, tk_created_at := now, tk_last_error := None\<rparr>"

text \<open>
  \<open>spawn\<close> for an Action that has no child yet, of a task that no reader has. The trigger
  \<open>nano_validate_runtime_subagent\<close> refuses a parent that is not an active root, or is itself a child.
\<close>

definition valid_subagent_parent :: "task \<Rightarrow> bool" where
  "valid_subagent_parent t \<longleftrightarrow>
     tk_run_status t = running \<and> tk_runtime_kind t = kind_configured \<and> tk_executor t = Some ''research_root''
     \<and> tk_parent t = None"

definition spawn_subagent ::
  "(gostring \<Rightarrow> bool) \<Rightarrow> attempt \<Rightarrow> gostring \<Rightarrow> gostring \<Rightarrow> job_db \<Rightarrow> (queue_error, job_db \<times> gostring option) result" where
  "spawn_subagent member a run job d =
     (if \<not> holds_authority member a d then Inl Q_Lease_Lost
      else case find_run (at_run_id a) d of
        None \<Rightarrow> Inl Q_No_Rows
      | Some parent \<Rightarrow>
          let (active, total_count) = count_runtime_subagents (at_run_id a) d
          in if active \<ge> subagent_max_active \<or> total_count \<ge> subagent_max_total then Inr (d, None)
             else let child = subagent_task run job parent (jd_now d)
               in if has_key_of child d \<or> \<not> valid_subagent_parent parent then Inl Q_Constraint
                  else Inr (d\<lparr>jd_tasks := jd_tasks d @ [child]\<rparr>, Some run))"

text \<open>
  \<open>wait_agent\<close>: a wait that is not over puts the parent back into the queue, available at the deadline of
  the wait. An earlier attempt of the same Action has left its row, and with it its deadline.
\<close>

definition is_finished :: "job_db \<Rightarrow> gostring \<Rightarrow> bool" where
  "is_finished d child = (case find_run child d of Some t \<Rightarrow> terminal_run (tk_run_status t) | None \<Rightarrow> False)"

datatype wait_end = Wait_Not_Owned | Wait_Result bool | Wait_Suspended

definition wait_subagents ::
  "(gostring \<Rightarrow> bool) \<Rightarrow> attempt \<Rightarrow> gostring \<Rightarrow> gostring list \<Rightarrow> int \<Rightarrow> job_db \<Rightarrow> (queue_error, wait_end \<times> job_db) result" where
  "wait_subagents member a action agents timeout d =
     (if \<not> holds_authority member a d then Inl Q_Lease_Lost
      else if length (filter (\<lambda>t. tk_run_id t \<in> set agents) (subagents_of (at_run_id a) d)) \<noteq> length agents
      then Inr (Wait_Not_Owned, d)
      else if list_ex (is_finished d) agents \<or> timeout = 0
      then Inr (Wait_Result (\<not> list_ex (is_finished d) agents), d)
      else
        let same = (\<lambda>w. sw_parent_run w = at_run_id a \<and> sw_action_id w = action);
            fresh = \<lparr>sw_parent_run = at_run_id a, sw_action_id = action, sw_agents = agents,
                     sw_deadline = jd_now d + timeout, sw_open = True\<rparr>;
            w = (case find same (jd_waits d) of Some w \<Rightarrow> w | None \<Rightarrow> fresh);
            d1 = (if list_ex same (jd_waits d) then d else d\<lparr>jd_waits := jd_waits d @ [fresh]\<rparr>)
        in if sw_deadline w \<le> jd_now d then Inr (Wait_Result True, d1)
           else Inr (Wait_Suspended,
             update_tasks (\<lambda>t. tk_job_id t = at_job_id a)
               (\<lambda>t. (end_job queued t)\<lparr>tk_available_at := sw_deadline w\<rparr>)
               (update_runs (\<lambda>t. tk_run_id t = at_run_id a) (\<lambda>t. t\<lparr>tk_run_status := queued\<rparr>) d1)))"

section \<open>Every hand-over keeps the invariant\<close>

lemma job_moved:
  assumes one: "affected J d = 1"
  obtains t where "t \<in> set (jd_tasks d)" "J t" "moved d t (g t) (update_tasks J g d)"
proof -
  obtain t where t: "t \<in> set (jd_tasks d)" "J t" "\<And>x. x \<in> set (jd_tasks d) \<Longrightarrow> J x \<Longrightarrow> x = t"
    by (rule affected_one [OF one]) blast
  have "moved d t (g t) (update_tasks J g d)"
    unfolding moved_def
  proof (intro conjI exI [of _ "\<lambda>x. if J x then g x else x"] ballI impI)
    show "(if J t then g t else t) = g t" using t(2) by (rule if_P)
    fix x assume x: "x \<in> set (jd_tasks d)" "x \<noteq> t"
    with t(3) have "\<not> J x" by blast
    then show "bystander x (if J x then g x else x)" by (simp add: bystander_refl)
  qed (simp_all add: t(1))
  with t show ?thesis using that by blast
qed

lemma ended_moves:
  assumes ok: "jobs_ok d" and runs: "affected P d = 1" and P: "\<And>t. P t \<Longrightarrow> tk_run_id t = at_run_id a"
    and f: "keeps_keys f" and f_row: "\<And>t. ended r j t (end_job j (f t))" and rj: "pair_ok r j" "terminal_run r"
    and jobs: "affected J (update_runs P f d) = 1" and J: "\<And>t. J t \<Longrightarrow> owns_lease a t"
  shows "jobs_ok (update_tasks J (end_job j) (update_runs P f d))"
proof -
  have rows: "rows_ok d" using ok by (simp add: jobs_ok_def)
  have same: "tk_run_id x = tk_run_id t" if "P t" "J x" for t x
    using P [OF that(1)] owns_leaseD [OF J [OF that(2)]] by simp
  obtain t where "moved d t (end_job j (f t)) (update_tasks J (end_job j) (update_runs P f d))"
    by (rule run_then_job [OF rows runs f jobs keeps_keys_simps(1)]) (use same in blast)+
  then show ?thesis
    by (rule moved_ended_ok [OF ok _ delegations_end_refl f_row rj]) simp
qed

text \<open>The lease that \<open>job_lease_held\<close> sees is the one whose authority was checked.\<close>

lemma held_moves:
  assumes ok: "jobs_ok d" and auth: "holds_authority member a d" and runs: "affected P d = 1"
    and P: "\<And>t. P t \<Longrightarrow> tk_run_id t = at_run_id a" and f: "keeps_keys f"
    and f_row: "\<And>t. ended r j t (end_job j (f t))" and rj: "pair_ok r j" "terminal_run r"
    and jobs: "affected (job_lease_held a) (update_runs P f d) = 1"
  shows "jobs_ok (update_tasks (job_lease_held a) (end_job j) (update_runs P f d))"
proof -
  have rows: "rows_ok d" using ok by (simp add: jobs_ok_def)
  from auth obtain o' where o': "o' \<in> set (jd_tasks d)" "tk_run_id o' = at_run_id a" "tk_job_id o' = at_job_id a"
    by (auto simp: holds_authority_def list_ex_iff owns_lease_def)
  have same: "tk_run_id x = tk_run_id t"
    if "P t" "x \<in> set (jd_tasks (update_runs P f d))" "job_lease_held a x" for t x
    using same_run_by_job [OF rows update_runs_keys [OF f] o'(1) that(2)] that(3) o' P [OF that(1)]
    by (simp add: job_lease_held_def)
  obtain t where "moved d t (end_job j (f t)) (update_tasks (job_lease_held a) (end_job j) (update_runs P f d))"
    by (rule run_then_job [OF rows runs f jobs keeps_keys_simps(1)]) (use same in blast)+
  then show ?thesis
    by (rule moved_ended_ok [OF ok _ delegations_end_refl f_row rj]) simp
qed

lemma publish_run_ok:
  assumes ok: "jobs_ok d" and run: "publish_run member a message d = Inr d'"
  shows "jobs_ok d'"
proof -
  from run have auth: "holds_authority member a d" unfolding publish_run_def Let_def by (simp split: if_splits)
  from run show ?thesis unfolding publish_run_def Let_def
    by (auto split: if_splits simp: keeps_keys_def ended_def end_job_def pair_ok_def
        intro!: held_moves [OF ok auth, where r = completed and j = succeeded])
qed

lemma publish_studio_run_ok:
  assumes ok: "jobs_ok d" and run: "publish_studio_run member a d = Inr d'"
  shows "jobs_ok d'"
proof -
  from run have auth: "holds_authority member a d" unfolding publish_studio_run_def Let_def by (simp split: if_splits)
  from run show ?thesis unfolding publish_studio_run_def Let_def
    by (auto split: if_splits simp: keeps_keys_def ended_def end_job_def pair_ok_def
        intro!: held_moves [OF ok auth, where r = completed and j = succeeded])
qed

lemma fail_parent_ok:
  assumes ok: "jobs_ok d" and run: "fail_parent a c d = Inr d'"
  shows "jobs_ok d'"
proof -
  have rows: "rows_ok d" using ok by (simp add: jobs_ok_def)
  let ?P = "\<lambda>t. tk_run_id t = at_run_id a \<and> tk_run_status t = running \<and> tk_output_message t = None \<and> is_delegating d (at_run_id a)"
  let ?f = "\<lambda>t::task. t\<lparr>tk_run_status := failed, tk_error_code := Some c\<rparr>"
  let ?g = "\<lambda>t. (end_job failed t)\<lparr>tk_last_error := Some c\<rparr>"
  from run have runs: "affected ?P d = 1" and jobs: "affected (owns_lease a) (update_runs ?P ?f d) = 1"
    and d': "d' = update_tasks (owns_lease a) ?g (update_runs ?P ?f d)"
    by (auto simp: fail_parent_def Let_def split: if_splits)
  have f: "keeps_keys ?f" and g: "keeps_keys ?g" by simp_all
  have same: "tk_run_id x = tk_run_id t" if "?P t" "owns_lease a x" for t x
    using owns_leaseD [OF that(2)] that(1) by simp
  obtain t where m: "moved d t (?g (?f t)) (update_tasks (owns_lease a) ?g (update_runs ?P ?f d))"
    by (rule run_then_job [OF rows runs f jobs g]) (use same in blast)+
  have e: "ended failed failed t (?g (?f t))" by (simp add: ended_def end_job_def)
  show ?thesis unfolding d'
    by (rule moved_ended_ok [OF ok m delegations_end_refl e]) (simp_all add: pair_ok_def)
qed

lemma delegations_end_ok:
  assumes ok: "jobs_ok d" and tasks: "jd_tasks d' = jd_tasks d" and dl: "delegations_end d d'"
  shows "jobs_ok d'"
proof -
  from dl obtain k where k: "jd_delegations d' = map k (jd_delegations d)" "\<And>x. dl_parent_run (k x) = dl_parent_run x"
      "\<And>x. dl_child_run (k x) = dl_child_run x"
      "\<And>x. dl_state (k x) = delegation_waiting \<Longrightarrow> dl_state x = delegation_waiting"
    unfolding delegations_end_def by blast
  have "delegation_ok d' (k x)" if "delegation_ok d x" for x
    using that k(2-4) unfolding delegation_ok_def tasks by simp
  with ok k show ?thesis
    by (auto simp: jobs_ok_def rows_ok_def delegations_ok_def tasks comp_def)
qed

lemma consume_delegation_end:
  assumes "consume_delegation parent s d = Inr d'"
  shows "jd_tasks d' = jd_tasks d" "delegations_end d d'" "jd_now d' = jd_now d"
proof -
  let ?m = "\<lambda>x. dl_parent_run x = parent \<and> dl_state x = s \<and> \<not> dl_consumed x"
  let ?k = "\<lambda>x. if ?m x then x\<lparr>dl_consumed := True\<rparr> else x"
  from assms have d': "d' = d\<lparr>jd_delegations := map ?k (jd_delegations d)\<rparr>"
    by (auto simp: consume_delegation_def Let_def split: if_splits)
  then show "jd_tasks d' = jd_tasks d" "jd_now d' = jd_now d" by simp_all
  show "delegations_end d d'" unfolding delegations_end_def by (rule exI [of _ ?k]) (simp add: d')
qed

lemma consume_delegation_ok: "jobs_ok d \<Longrightarrow> consume_delegation parent s d = Inr d' \<Longrightarrow> jobs_ok d'"
  using delegations_end_ok consume_delegation_end by metis

lemma fail_leader_ok:
  assumes ok: "jobs_ok d" and run: "fail_leader a c d = Inr d'"
  shows "jobs_ok d'"
proof (cases "find (\<lambda>x. dl_parent_run x = at_run_id a) (jd_delegations d)")
  case (Some x)
  with run obtain d1 d2 where p: "fail_research_payload (dl_child_run x) c d = Inr d1"
      "fail_parent a c d1 = Inr d2" "consume_delegation (at_run_id a) (dl_state x) d2 = Inr d'"
    by (auto simp: fail_leader_def result_simps)
  from ok jobs_ok_cong [OF fail_research_payload_sel(1,2) [OF p(1)]] have "jobs_ok d1" by simp
  with fail_parent_ok p(2) have "jobs_ok d2" by blast
  with consume_delegation_ok p(3) show ?thesis by blast
qed (use run in \<open>simp add: fail_leader_def\<close>)

lemma resume_delegated_ok:
  assumes ok: "jobs_ok d" and run: "resume_delegated outcome a role message d = Inr d'"
  shows "jobs_ok d'"
proof (cases "\<exists>c. fail_leader a c d = Inr d'")
  case True
  with fail_leader_ok [OF ok] show ?thesis by blast
next
  case False
  let ?P = "\<lambda>t. tk_run_id t = at_run_id a \<and> tk_run_status t = running"
  let ?f = "\<lambda>t::task. t\<lparr>tk_run_status := completed, tk_output_message := Some message\<rparr>"
  let ?d1 = "update_runs ?P ?f d"
  from run False obtain d2 where runs: "affected ?P d = 1" and comp: "complete_parent_job a ?d1 = Inr d2"
    and cons: "consume_delegation (at_run_id a) delegation_succeeded d2 = Inr d'"
    unfolding resume_delegated_def Let_def by (auto simp: result_simps split: if_splits option.splits)
  let ?J = "\<lambda>t. owns_lease a t \<and> tk_run_status t = completed \<and> is_delegating ?d1 (at_run_id a)"
  from comp have jobs: "affected ?J ?d1 = 1" and d2: "d2 = update_tasks ?J (end_job succeeded) ?d1"
    unfolding complete_parent_job_def Let_def by (auto split: if_splits)
  have "jobs_ok d2" unfolding d2
    by (rule ended_moves [OF ok runs _ _ _ _ _ jobs, where r = completed and j = succeeded])
      (blast | simp add: keeps_keys_def ended_def end_job_def pair_ok_def)+
  with cons consume_delegation_ok show ?thesis by blast
qed

lemma fail_research_ok: "jobs_ok d \<Longrightarrow> fail_research a c d = Inr d' \<Longrightarrow> jobs_ok d'"
  using terminalize_delegation_ok by (auto simp: fail_research_def split: if_splits)

lemma append_ok:
  assumes ok: "jobs_ok d" and t: "task_ok t" "\<not> has_key_of t d"
  shows "jobs_ok (d\<lparr>jd_tasks := jd_tasks d @ [t]\<rparr>)"
proof -
  from ok have rows: "rows_ok d" and dls: "delegations_ok d" by (simp_all add: jobs_ok_def)
  from t(2) have new: "tk_run_id t \<notin> tk_run_id ` set (jd_tasks d)" "tk_job_id t \<notin> tk_job_id ` set (jd_tasks d)"
    by (auto simp: has_key_of_def list_ex_iff)
  with rows t(1) have "rows_ok (d\<lparr>jd_tasks := jd_tasks d @ [t]\<rparr>)" by (auto simp: rows_ok_def)
  moreover have "delegation_ok (d\<lparr>jd_tasks := jd_tasks d @ [t]\<rparr>) x" if "delegation_ok d x" for x
    using that new(1) by (auto simp: delegation_ok_def)
  ultimately show ?thesis using dls by (simp add: jobs_ok_def delegations_ok_def)
qed

lemma queued_row_ok:
  assumes "tk_run_status t = queued" "tk_status t = queued" "tk_attempt_no t = 0" "tk_failed_attempts t = 0"
    "tk_lease_token t = None" "tk_lease_expires_at t = None" "\<And>m. tk_max_attempts t = Some m \<Longrightarrow> 1 \<le> m"
    "tk_parent t \<noteq> Some (tk_run_id t)"
  shows "task_ok t"
  using assms by (fastforce simp: row_defs)

lemma admit_run_ok: "jobs_ok d \<Longrightarrow> admit_run run job user dl m ex d = Inr d' \<Longrightarrow> jobs_ok d'"
  unfolding admit_run_def Let_def
  by (auto split: if_splits option.splits intro!: append_ok queued_row_ok simp: new_task_def)

lemma row_limits: "task_ok t \<Longrightarrow> tk_max_attempts t = Some m \<Longrightarrow> 1 \<le> m"
  by (fastforce simp: row_defs)

lemma find_run_row: "find_run r d = Some t \<Longrightarrow> t \<in> set (jd_tasks d) \<and> tk_run_id t = r"
  unfolding find_run_def by (drule find_Some)

lemma spawn_subagent_ok:
  assumes ok: "jobs_ok d" and run: "spawn_subagent member a r j d = Inr (d', child)"
  shows "jobs_ok d'"
proof -
  from run obtain parent where p: "find_run (at_run_id a) d = Some parent"
    and d': "d' = d \<or> d' = d\<lparr>jd_tasks := jd_tasks d @ [subagent_task r j parent (jd_now d)]\<rparr>
      \<and> \<not> has_key_of (subagent_task r j parent (jd_now d)) d"
    by (auto simp: spawn_subagent_def Let_def split: if_splits option.splits prod.splits)
  from find_run_row [OF p] have parent: "parent \<in> set (jd_tasks d)" by blast
  with ok have p_ok: "task_ok parent" by (auto simp: jobs_ok_def dest: rows_okD(3))
  show ?thesis
  proof (cases "d' = d")
    case False
    with d' have key: "\<not> has_key_of (subagent_task r j parent (jd_now d)) d" by blast
    then have "r \<noteq> tk_run_id parent" using parent by (auto simp: has_key_of_def list_ex_iff subagent_task_def)
    then have "task_ok (subagent_task r j parent (jd_now d))"
      using row_limits [OF p_ok] by (intro queued_row_ok) (simp_all add: subagent_task_def)
    with append_ok [OF ok _ key] False d' show ?thesis by blast
  qed (use ok in simp)
qed

lemma suspended_row_ok:
  assumes "task_ok t"
  shows "task_ok ((end_job queued (t\<lparr>tk_run_status := queued\<rparr>))\<lparr>tk_available_at := n\<rparr>)"
proof -
  have "0 \<le> tk_attempt_no t" "tk_attempt_no t \<le> 100"
    using assms by (auto simp: task_ok_def execution_state_ok_def split: if_splits)
  with assms show ?thesis
    by (auto simp: end_job_def task_ok_def pair_ok_def execution_state_ok_def attempts_ok_def)
qed

lemma suspend_ok:
  assumes ok: "jobs_ok d" and auth: "holds_authority member a d"
  shows "jobs_ok (update_tasks (\<lambda>t. tk_job_id t = at_job_id a) (\<lambda>t. (end_job queued t)\<lparr>tk_available_at := n\<rparr>)
    (update_runs (\<lambda>t. tk_run_id t = at_run_id a) (\<lambda>t. t\<lparr>tk_run_status := queued\<rparr>) d))"
proof -
  have rows: "rows_ok d" using ok by (simp add: jobs_ok_def)
  from auth obtain o' where o': "o' \<in> set (jd_tasks d)" "owns_lease a o'"
    by (auto simp: holds_authority_def list_ex_iff)
  note own = owns_leaseD [OF o'(2)]
  let ?P = "\<lambda>t. tk_run_id t = at_run_id a" and ?f = "\<lambda>t::task. t\<lparr>tk_run_status := queued\<rparr>"
  let ?J = "\<lambda>t. tk_job_id t = at_job_id a" and ?g = "\<lambda>t. (end_job queued t)\<lparr>tk_available_at := n\<rparr>"
  have f: "keeps_keys ?f" and g: "keeps_keys ?g" by (simp_all add: keeps_keys_def end_job_def)
  have runs: "affected ?P d = 1"
    by (rule affected_unique [OF rows_okD(1) [OF rows] o'(1)]) (simp_all add: own)
  have d1: "update_runs ?P ?f d = update_tasks ?P ?f d" by (rule update_runs_active) simp
  have jobs: "affected ?J (update_runs ?P ?f d) = 1"
  proof (rule affected_unique)
    have "map tk_job_id (jd_tasks (update_tasks ?P ?f d)) = map tk_job_id (jd_tasks d)" by simp
    then show "distinct (map tk_job_id (jd_tasks (update_runs ?P ?f d)))"
      unfolding d1 using rows_okD(2) [OF rows] by (simp only:)
    show "?f o' \<in> set (jd_tasks (update_runs ?P ?f d))"
      unfolding d1 using o'(1) own by (auto intro!: image_eqI [of _ _ o'])
  qed (simp_all add: own)
  have same: "tk_run_id x = tk_run_id t" if "?P t" "x \<in> set (jd_tasks (update_runs ?P ?f d))" "?J x" for t x
    using same_run_by_job [OF rows update_runs_keys [OF f] o'(1) that(2)] that(1,3) own by simp
  obtain t where t: "t \<in> set (jd_tasks d)" "?P t" "moved d t (?g (?f t)) (update_tasks ?J ?g (update_runs ?P ?f d))"
    by (rule run_then_job [OF rows runs f jobs g]) (use same in blast)+
  from t(2) own same_row(1) [OF rows t(1) o'(1)] have "t = o'" by simp
  then have np: "\<not> parent_ok t" using owns_lease_not_parent [OF o'(2) rows_okD(3) [OF rows o'(1)]] by blast
  show ?thesis
    by (rule moved_jobs_ok [OF ok t(3) delegations_end_refl suspended_row_ok [OF rows_okD(3) [OF rows t(1)]]])
      (use np in \<open>simp_all add: end_job_def\<close>)
qed

lemma wait_subagents_ok:
  assumes ok: "jobs_ok d" and run: "wait_subagents member a action agents timeout d = Inr (w, d')"
  shows "jobs_ok d'"
proof -
  have ok': "jobs_ok (d\<lparr>jd_waits := ws\<rparr>)" for ws using ok jobs_ok_cong [of "d\<lparr>jd_waits := ws\<rparr>" d] by simp
  from run have auth: "holds_authority member a (d\<lparr>jd_waits := ws\<rparr>)" for ws
    by (simp add: wait_subagents_def holds_authority_def split: if_splits)
  from run ok ok' [of "jd_waits d @ [_]"] suspend_ok [OF ok auth [of "jd_waits d", simplified]] suspend_ok [OF ok' auth]
  show ?thesis by (auto simp: wait_subagents_def Let_def split: if_splits)
qed

lemma create_delegation_ok:
  assumes ok: "jobs_ok d" and run: "create_delegation a r j role prompt profile d = Inr d'"
    and limit: "\<And>m. cp_max_attempts profile = Some m \<Longrightarrow> 1 \<le> m"
  shows "jobs_ok d'"
proof -
  from run obtain parent where p: "parent \<in> set (jd_tasks d)" "tk_run_id parent = at_run_id a" "tk_run_status parent = running"
    and key: "\<not> list_ex (\<lambda>t. tk_run_id t = r \<or> tk_job_id t = j) (jd_tasks d)"
    and dkey: "\<not> list_ex (\<lambda>x. dl_child_run x = r \<or> dl_parent_run x = at_run_id a) (jd_delegations d)"
    and step: "(let d1 = d\<lparr>jd_tasks := jd_tasks d @ [child_task r j profile parent (jd_now d)],
                       jd_delegations := jd_delegations d @ [\<lparr>dl_parent_run = at_run_id a, dl_child_run = r,
                         dl_state = delegation_waiting, dl_error_code = None, dl_consumed = False\<rparr>]\<rparr>
            in if affected (owns_lease a) d1 \<noteq> 1 then Inl Q_Lease_Lost
               else Inr (update_tasks (owns_lease a) (end_job waiting) d1)) = Inr d'"
    by (auto simp: create_delegation_def split: if_splits option.splits dest!: find_Some)
  let ?c = "child_task r j profile parent (jd_now d)" and ?J = "owns_lease a"
  let ?x = "\<lparr>dl_parent_run = at_run_id a, dl_child_run = r, dl_state = delegation_waiting, dl_error_code = None, dl_consumed = False\<rparr>"
  let ?da = "d\<lparr>jd_tasks := jd_tasks d @ [?c]\<rparr>"
  have "task_ok ?c" by (rule queued_row_ok) (simp_all add: child_task_def limit)
  moreover have "\<not> has_key_of ?c d" using key by (simp add: has_key_of_def child_task_def)
  ultimately have oka: "jobs_ok ?da" by (rule append_ok [OF ok])
  from step have one: "affected ?J ?da = 1"
    and d': "d' = (update_tasks ?J (end_job waiting) ?da)\<lparr>jd_delegations := jd_delegations d @ [?x]\<rparr>"
    by (auto simp: Let_def affected_def update_tasks_def split: if_splits)
  obtain t where t: "t \<in> set (jd_tasks ?da)" "?J t" "moved ?da t (end_job waiting t) (update_tasks ?J (end_job waiting) ?da)"
    by (rule job_moved [OF one])
  from oka have rowsa: "rows_ok ?da" by (simp add: jobs_ok_def)
  have tp: "t = parent" using same_row(1) [OF rowsa t(1), of parent] p owns_leaseD [OF t(2)] by simp
  note own = owns_leaseD [OF t(2)]
  have "task_ok (end_job waiting t)"
    using rows_okD(3) [OF rowsa t(1)] own p(3) unfolding tp by (auto simp: end_job_def row_defs)
  moreover have "parent_ok (end_job waiting t)" using p(3) tp by (simp add: parent_ok_def end_job_def)
  ultimately have okb: "jobs_ok (update_tasks ?J (end_job waiting) ?da)"
    using moved_jobs_ok [OF oka t(3)] by (simp add: delegations_end_refl end_job_def)
  have "map tk_run_id (jd_tasks d') = map tk_run_id (jd_tasks ?da)" by (simp add: d' end_job_def)
  then have ids: "tk_run_id ` set (jd_tasks d') = tk_run_id ` set (jd_tasks ?da)"
    unfolding set_map [symmetric] by (rule arg_cong)
  have new: "delegation_ok d' ?x"
    unfolding delegation_ok_def ids
  proof (intro conjI impI ballI)
    show "dl_parent_run ?x \<in> tk_run_id ` set (jd_tasks ?da)" using p(1,2) by force
    show "dl_child_run ?x \<in> tk_run_id ` set (jd_tasks ?da)" by (simp add: child_task_def)
    fix y assume y: "y \<in> set (jd_tasks d')" "tk_run_id y = dl_parent_run ?x"
    have "jd_tasks d' = map (\<lambda>z. if ?J z then end_job waiting z else z) (jd_tasks ?da)" by (simp add: d')
    with y(1) obtain z where z: "z \<in> set (jd_tasks ?da)" "y = (if ?J z then end_job waiting z else z)"
      by (auto simp only: set_map)
    with y(2) p(2) tp have "tk_run_id z = tk_run_id t" by (simp add: end_job_def split: if_splits)
    with same_row(1) [OF rowsa z(1) t(1)] have "z = t" by blast
    with z(2) t(2) \<open>parent_ok (end_job waiting t)\<close> show "parent_ok y" by simp
  qed
  have old: "delegation_ok d' x" if "delegation_ok (update_tasks ?J (end_job waiting) ?da) x" for x
    using that by (simp add: delegation_ok_def d')
  from okb new old dkey show ?thesis
    by (auto simp: jobs_ok_def rows_ok_def delegations_ok_def list_ex_iff d')
qed

end
