(* ===== verification/Job_Machine.thy ===== *)
theory Job_Machine
  imports Run_Handoff
begin

text \<open>
  The queue as a state machine: every transaction of workers, of the Agent runtime and of users is a
  step, in any order, and so is the passing of time. What holds in every reachable state: Run and Job
  stay together within the constraints of the table, a lost lease stays lost, and claiming ends.
\<close>

section \<open>Steps\<close>

text \<open>
  The tokens handed out so far are part of the state: \<open>uuid.NewString\<close> gives a new one. What else is
  written to waits, discoveries and research sessions is arbitrary.
\<close>

inductive queue_step :: "gostring set \<times> job_db \<Rightarrow> gostring set \<times> job_db \<Rightarrow> bool" where
  tick: "0 \<le> n \<Longrightarrow> queue_step (U, d) (U, d\<lparr>jd_now := jd_now d + n\<rparr>)"
| others: "queue_step (U, d) (U, d\<lparr>jd_waits := ws, jd_discoveries := ds, jd_sessions := ss\<rparr>)"
| admit: "admit_run r j user dl m ex d = Inr d' \<Longrightarrow> queue_step (U, d) (U, d')"
| claim: "claim_tx token lease locked d = Inr (s, d') \<Longrightarrow> token \<notin> U \<Longrightarrow> token \<noteq> []
    \<Longrightarrow> queue_step (U, d) (insert token U, d')"
| heartbeat: "queue_step (U, d) (U, snd (heartbeat j token lease std d))"
| release: "queue_step (U, d) (U, snd (release_lease j token d))"
| resolve: "resolve_attempt clock c r d = Inr (a, d') \<Longrightarrow> queue_step (U, d) (U, d')"
| expire: "expire_if_overdue user run d = Inr (d', n) \<Longrightarrow> queue_step (U, d) (U, d')"
| cancel: "cancel_run user run d = Inr d' \<Longrightarrow> queue_step (U, d) (U, d')"
| publish: "publish_run member at message d = Inr d' \<Longrightarrow> queue_step (U, d) (U, d')"
| publish_studio: "publish_studio_run member at d = Inr d' \<Longrightarrow> queue_step (U, d) (U, d')"
| fail: "holds_authority member at d \<Longrightarrow> fail_leased at code d = Inr d' \<Longrightarrow> queue_step (U, d) (U, d')"
| delegate: "create_delegation at r j role prompt profile d = Inr d' \<Longrightarrow> (\<And>m. cp_max_attempts profile = Some m \<Longrightarrow> 1 \<le> m)
    \<Longrightarrow> queue_step (U, d) (U, d')"
| report: "require_lease at role_research d \<Longrightarrow> terminalize_delegation at delegation_succeeded [] d = Inr d'
    \<Longrightarrow> queue_step (U, d) (U, d')"
| fail_child: "fail_research at code d = Inr d' \<Longrightarrow> queue_step (U, d) (U, d')"
| resume: "resume_delegated outcome at role message d = Inr d' \<Longrightarrow> queue_step (U, d) (U, d')"
| spawn: "spawn_subagent member at r j d = Inr (d', child) \<Longrightarrow> queue_step (U, d) (U, d')"
| wait: "wait_subagents member at action agents timeout d = Inr (w, d') \<Longrightarrow> queue_step (U, d) (U, d')"

definition empty_queue :: "job_db \<Rightarrow> bool" where
  "empty_queue d \<longleftrightarrow> jd_tasks d = [] \<and> jd_delegations d = []"

lemma empty_queue_ok: "empty_queue d \<Longrightarrow> jobs_ok d"
  by (simp add: empty_queue_def jobs_ok_def rows_ok_def delegations_ok_def)

lemma jobs_ok_frame [simp]:
  "jobs_ok (d\<lparr>jd_now := n\<rparr>) = jobs_ok d"
  "jobs_ok (d\<lparr>jd_waits := ws, jd_discoveries := ds, jd_sessions := ss\<rparr>) = jobs_ok d"
  by (simp_all add: jobs_ok_def rows_ok_def delegations_ok_def delegation_ok_def)

lemma fail_leased_ok: "jobs_ok d \<Longrightarrow> fail_leased a c d = Inr d' \<Longrightarrow> jobs_ok d'"
proof -
  assume ok: "jobs_ok d" and run: "fail_leased a c d = Inr d'"
  have "rows_ok d" using ok by (simp add: jobs_ok_def)
  from fail_leased_moves [OF this run] obtain t u where m: "moved d t u d'" "ended failed failed t u"
      "jd_delegations d' = jd_delegations d" by metis
  show ?thesis by (rule moved_ended_ok [OF ok m(1) delegations_end_refl [OF m(3)] m(2)]) (simp_all add: pair_ok_def)
qed

lemmas transactions_ok =
  admit_run_ok claim_tx_ok heartbeat_ok release_lease_ok resolve_attempt_ok expire_if_overdue_ok(1) cancel_run_ok
  publish_run_ok publish_studio_run_ok fail_leased_ok create_delegation_ok terminalize_delegation_ok fail_research_ok
  resume_delegated_ok spawn_subagent_ok wait_subagents_ok

lemma queue_step_ok:
  assumes "queue_step s s'" "jobs_ok (snd s)"
  shows "jobs_ok (snd s')"
  using assms by (induction rule: queue_step.induct) (auto intro: transactions_ok)

section \<open>Interface: a step relation with an invariant\<close>

text \<open>
  A relation that keeps \<open>inv\<close>, and a measure of what its steps lose: once \<open>gone\<close> holds of a state that
  satisfies the invariant, it holds of every later one.
\<close>

locale step_system =
  fixes start :: "'s \<Rightarrow> bool"
    and step :: "'s \<Rightarrow> 's \<Rightarrow> bool"
    and inv :: "'s \<Rightarrow> bool"
    and gone :: "'k \<Rightarrow> 's \<Rightarrow> bool"
  assumes start_inv: "start s \<Longrightarrow> inv s"
    and step_inv: "step s s' \<Longrightarrow> inv s \<Longrightarrow> inv s'"
    and step_gone: "step s s' \<Longrightarrow> inv s \<Longrightarrow> gone k s \<Longrightarrow> gone k s'"
begin

lemma steps_inv: "step\<^sup>*\<^sup>* s s' \<Longrightarrow> inv s \<Longrightarrow> inv s'"
  by (induction rule: rtranclp_induct) (auto intro: step_inv)

lemma reachable_inv: "step\<^sup>*\<^sup>* s s' \<Longrightarrow> start s \<Longrightarrow> inv s'"
  using steps_inv start_inv by blast

lemma steps_gone: "step\<^sup>*\<^sup>* s s' \<Longrightarrow> inv s \<Longrightarrow> gone k s \<Longrightarrow> gone k s'"
  by (induction rule: rtranclp_induct) (auto intro: step_gone steps_inv)

end

section \<open>Leases only shrink\<close>

text \<open>Every lease of the second state is one of the first, except one with the token \<open>new\<close>.\<close>

definition leases_from :: "gostring option \<Rightarrow> job_db \<Rightarrow> job_db \<Rightarrow> bool" where
  "leases_from new d d' \<longleftrightarrow>
     (\<forall>t' \<in> set (jd_tasks d'). tk_lease_token t' \<noteq> None \<longrightarrow> tk_lease_token t' = new
        \<or> (\<exists>t \<in> set (jd_tasks d). tk_job_id t = tk_job_id t' \<and> tk_lease_token t = tk_lease_token t'))"

lemma leases_from_refl: "jd_tasks d' = jd_tasks d \<Longrightarrow> leases_from None d d'"
  by (auto simp: leases_from_def)

lemma leases_from_trans: "leases_from None d d1 \<Longrightarrow> leases_from new d1 d2 \<Longrightarrow> leases_from new d d2"
  unfolding leases_from_def by metis

lemma leases_from_trans': "leases_from new d d1 \<Longrightarrow> leases_from None d1 d2 \<Longrightarrow> leases_from new d d2"
  unfolding leases_from_def by metis

definition gives_up :: "gostring option \<Rightarrow> (task \<Rightarrow> task) \<Rightarrow> bool" where
  "gives_up new f \<longleftrightarrow>
     (\<forall>t. tk_job_id (f t) = tk_job_id t
        \<and> (tk_lease_token (f t) = tk_lease_token t \<or> tk_lease_token (f t) = None \<or> tk_lease_token (f t) = new))"

lemma map_leases:
  assumes "jd_tasks d' = map h (jd_tasks d)" "gives_up new h"
  shows "leases_from new d d'"
  unfolding leases_from_def
proof (intro ballI impI)
  fix t' assume t': "t' \<in> set (jd_tasks d')" "tk_lease_token t' \<noteq> None"
  then obtain t where t: "t \<in> set (jd_tasks d)" "t' = h t" by (auto simp: assms(1))
  from assms(2) have "tk_job_id (h t) = tk_job_id t"
      "tk_lease_token (h t) = tk_lease_token t \<or> tk_lease_token (h t) = None \<or> tk_lease_token (h t) = new"
    by (simp_all add: gives_up_def)
  with t t'(2) show "tk_lease_token t' = new
      \<or> (\<exists>t \<in> set (jd_tasks d). tk_job_id t = tk_job_id t' \<and> tk_lease_token t = tk_lease_token t')"
    by metis
qed

lemma gives_up_if: "gives_up new f \<Longrightarrow> gives_up new (\<lambda>t. if P t then f t else t)"
  by (simp add: gives_up_def)

lemma update_tasks_leases: "gives_up new f \<Longrightarrow> leases_from new d (update_tasks P f d)"
  by (rule map_leases [OF update_tasks_sel(1) gives_up_if])

lemma sync_leases: "leases_from None d (sync_subagents r d)"
  by (rule map_leases [OF sync_sel(1)]) (simp add: gives_up_def cancel_child_def Let_def end_job_def)

lemma fold_sync_leases: "leases_from None d (fold sync_subagents rs d)"
proof (induction rs arbitrary: d)
  case (Cons r rs)
  from leases_from_trans [OF sync_leases Cons.IH] show ?case by simp
qed (simp add: leases_from_refl)

lemma update_runs_leases: "gives_up new f \<Longrightarrow> leases_from new d (update_runs P f d)"
  unfolding update_runs_def by (rule leases_from_trans' [OF update_tasks_leases fold_sync_leases])

lemma gives_up_simps [simp]:
  "gives_up new (end_job s)" "gives_up new (\<lambda>t. t\<lparr>tk_run_status := s, tk_error_code := e\<rparr>)"
  "gives_up new (\<lambda>t. t\<lparr>tk_run_status := s\<rparr>)" "gives_up new (\<lambda>t. t\<lparr>tk_status := s\<rparr>)"
  "gives_up new (\<lambda>t. (end_job s t)\<lparr>tk_last_error := e\<rparr>)" "gives_up new (\<lambda>t. t\<lparr>tk_last_error := e\<rparr>)"
  "gives_up new (\<lambda>t. t\<lparr>tk_lease_expires_at := x\<rparr>)" "gives_up new (\<lambda>t. (end_job s t)\<lparr>tk_available_at := n\<rparr>)"
  "gives_up new (\<lambda>t. t\<lparr>tk_run_status := s, tk_output_message := m\<rparr>)"
  "gives_up new (\<lambda>t. t\<lparr>tk_run_status := s, tk_output_message := m, tk_error_code := e\<rparr>)"
  "gives_up (Some token) (lease_task token lease lost d)"
  by (simp_all add: gives_up_def end_job_def lease_task_def)

lemma leases_from_tasks: "jd_tasks d' = jd_tasks d'' \<Longrightarrow> leases_from new d d' = leases_from new d d''"
  by (simp add: leases_from_def)

lemma run_job_leases:
  "gives_up None f \<Longrightarrow> gives_up None g \<Longrightarrow> leases_from None d (update_tasks J g (update_runs P f d))"
  by (rule leases_from_trans [OF update_runs_leases update_tasks_leases])

lemma job_run_leases:
  "gives_up new g \<Longrightarrow> gives_up None f \<Longrightarrow> leases_from new d (update_runs P f (update_tasks J g d))"
  by (rule leases_from_trans' [OF update_tasks_leases update_runs_leases])

lemma append_leases:
  "tk_lease_token t = None \<Longrightarrow> leases_from None d (d\<lparr>jd_tasks := jd_tasks d @ [t]\<rparr>)"
  by (auto simp: leases_from_def)

lemma fail_research_payload_leases: "fail_research_payload r c d = Inr d' \<Longrightarrow> leases_from None d d'"
  by (drule fail_research_payload_sel(1)) (rule leases_from_refl)

lemma end_delegations_leases: "leases_from None d (end_delegations P s c d)"
  by (rule leases_from_refl) simp

lemma expire_run_leases:
  assumes "expire_run d item = Inr d'" shows "leases_from None d d'"
proof -
  from assms obtain J P f where d': "fail_research_payload (tk_run_id item) ''research_deadline_exceeded''
      (end_delegations (waiting_child (tk_run_id item)) delegation_failed run_deadline_exceeded
        (update_tasks J (end_job failed) (update_runs P (\<lambda>t. t\<lparr>tk_run_status := failed, tk_error_code := Some run_deadline_exceeded\<rparr>) d)))
      = Inr d'"
    unfolding expire_run_def Let_def by (auto split: if_splits)
  show ?thesis
    by (rule leases_from_trans [OF run_job_leases leases_from_trans [OF end_delegations_leases fail_research_payload_leases [OF d']]])
      simp_all
qed

lemma expire_if_overdue_leases:
  assumes "expire_if_overdue user run d = Inr (d', n)" shows "leases_from None d d'"
proof -
  from assms have "fold_result expire_run d (overdue user run d) = Inr d'"
    by (auto simp: expire_if_overdue_def result_simps)
  then show ?thesis
    by (rule fold_result_invariant) (auto intro: leases_from_refl leases_from_trans expire_run_leases)
qed

lemma fail_leased_leases: "fail_leased a c d = Inr d' \<Longrightarrow> leases_from None d d'"
  by (auto simp: fail_leased_def Let_def split: if_splits intro!: job_run_leases)

lemma resume_parent_leases: "leases_from None d (resume_parent r d)"
  unfolding resume_parent_def Let_def by (rule run_job_leases) simp_all

lemma terminalize_delegation_leases: "terminalize_delegation a s c d = Inr d' \<Longrightarrow> leases_from None d d'"
  unfolding terminalize_delegation_def Let_def
  by (auto split: if_splits intro!: leases_from_trans [OF run_job_leases leases_from_trans [OF end_delegations_leases resume_parent_leases]])

lemma fail_session_leases: "fail_session r c d = Inr d' \<Longrightarrow> leases_from None d d'"
  by (auto simp: fail_session_def split: if_splits intro!: leases_from_refl)

lemma terminalize_attempt_state_leases:
  assumes "terminalize_attempt_state a c d = Inr d'" shows "leases_from None d d'"
proof -
  from terminalize_attempt_state_steps [OF assms] obtain t d1
    where d': "d' = update_tasks (\<lambda>t. tk_job_id t = at_job_id a) (\<lambda>t. t\<lparr>tk_last_error := Some c\<rparr>) d1"
    and step: "(if is_research t
             then bind_result (fail_research_payload (at_run_id a) c d) (terminalize_delegation a delegation_failed c)
             else if is_chat_leader t \<or> is_studio t \<or> is_configured_research t
             then bind_result (fail_leased a c d) (\<lambda>d1.
               if is_configured_research t \<and> tk_parent t = None then fail_session (at_run_id a) c d1 else Inr d1)
             else Inl Q_Unsupported_Role) = Inr d1"
    by blast
  have "leases_from None d d1"
  proof (cases "is_research t")
    case True
    with step obtain d0 where "fail_research_payload (at_run_id a) c d = Inr d0" "terminalize_delegation a delegation_failed c d0 = Inr d1"
      by (auto simp: result_simps)
    then show ?thesis by (blast intro: leases_from_trans fail_research_payload_leases terminalize_delegation_leases)
  next
    case False
    with step obtain d0 where "fail_leased a c d = Inr d0"
        "d1 = d0 \<or> fail_session (at_run_id a) c d0 = Inr d1"
      by (auto simp: result_simps split: if_splits)
    then show ?thesis by (blast intro: leases_from_trans fail_leased_leases fail_session_leases)
  qed
  then show ?thesis unfolding d' by (rule leases_from_trans) (rule update_tasks_leases, simp)
qed

lemma requeue_leases: "requeue j r d = Inr d' \<Longrightarrow> leases_from None d d'"
  by (auto simp: requeue_def Let_def gives_up_def end_job_def split: if_splits intro!: job_run_leases)

lemma resolve_attempt_leases:
  assumes "resolve_attempt clock j r d = Inr (a, d')" shows "leases_from None d d'"
  using assms
  by (cases rule: resolve_attempt_cases)
    (auto intro: leases_from_refl requeue_leases terminalize_attempt_state_leases)

lemma claim_leased_leases: "claim_leased token lease lost j d = Inr (s, d') \<Longrightarrow> leases_from (Some token) d d'"
  by (auto simp: claim_leased_def Let_def split: if_splits intro!: job_run_leases)

lemma leases_from_weaken: "leases_from None d d' \<Longrightarrow> leases_from new d d'"
  unfolding leases_from_def by metis

lemma claim_tx_leases:
  assumes "claim_tx token lease locked d = Inr (s, d')" shows "leases_from (Some token) d d'"
  using assms
proof (cases rule: claim_tx_cases)
  case (none d1 n)
  then show ?thesis by (blast intro: leases_from_weaken expire_if_overdue_leases)
next
  case (exhausted d1 n t rest j)
  then show ?thesis unfolding exhaust_recovery_def
    by (blast intro: leases_from_weaken leases_from_trans expire_if_overdue_leases terminalize_attempt_state_leases)
next
  case (claimed d1 n t rest j)
  then show ?thesis by (blast intro: leases_from_trans expire_if_overdue_leases claim_leased_leases)
qed

lemma cancel_tree_leases: "cancel_tree p c d = Inr d' \<Longrightarrow> leases_from None d d'"
  unfolding cancel_tree_def Let_def
  by (auto split: if_splits intro!: leases_from_trans [OF job_run_leases end_delegations_leases])

lemma cancel_run_leases:
  assumes "cancel_run user r d = Inr d'" shows "leases_from None d d'"
proof -
  from assms consider "d' = d"
    | d1 J P where "d1 = d \<or> (\<exists>d0 x. cancel_tree r ''research_cancelled'' d = Inr d0 \<and> fail_research_payload x ''research_cancelled'' d0 = Inr d1)"
        "d' = update_tasks J (end_job cancelled) (update_runs P (\<lambda>x. x\<lparr>tk_run_status := cancelled, tk_error_code := None\<rparr>) d1)"
    unfolding cancel_run_def Let_def
    by (auto simp: result_simps split: if_splits option.splits) blast+
  then show ?thesis
  proof cases
    case 1
    then show ?thesis by (simp add: leases_from_refl)
  next
    case (2 d1 J P)
    from 2(1) have "leases_from None d d1"
      by (auto intro: leases_from_refl leases_from_trans cancel_tree_leases fail_research_payload_leases)
    then show ?thesis unfolding 2(2) by (rule leases_from_trans) (rule run_job_leases, simp_all)
  qed
qed

lemma publish_run_leases: "publish_run member a m d = Inr d' \<Longrightarrow> leases_from None d d'"
  by (auto simp: publish_run_def Let_def split: if_splits intro!: run_job_leases)

lemma publish_studio_run_leases: "publish_studio_run member a d = Inr d' \<Longrightarrow> leases_from None d d'"
  by (auto simp: publish_studio_run_def Let_def split: if_splits intro!: run_job_leases)

lemma consume_delegation_leases: "consume_delegation p s d = Inr d' \<Longrightarrow> leases_from None d d'"
  by (rule leases_from_refl) (rule consume_delegation_end(1))

lemma fail_parent_leases: "fail_parent a c d = Inr d' \<Longrightarrow> leases_from None d d'"
  by (auto simp: fail_parent_def Let_def split: if_splits intro!: run_job_leases)

lemma fail_leader_leases:
  assumes "fail_leader a c d = Inr d'" shows "leases_from None d d'"
proof (cases "find (\<lambda>x. dl_parent_run x = at_run_id a) (jd_delegations d)")
  case (Some x)
  with assms obtain d1 d2 where "fail_research_payload (dl_child_run x) c d = Inr d1"
      "fail_parent a c d1 = Inr d2" "consume_delegation (at_run_id a) (dl_state x) d2 = Inr d'"
    by (auto simp: fail_leader_def result_simps)
  then show ?thesis
    by (blast intro: leases_from_trans fail_research_payload_leases fail_parent_leases consume_delegation_leases)
qed (use assms in \<open>simp add: fail_leader_def\<close>)

lemma complete_parent_job_leases: "complete_parent_job a d = Inr d' \<Longrightarrow> leases_from None d d'"
  by (auto simp: complete_parent_job_def Let_def split: if_splits intro!: update_tasks_leases)

lemma resume_delegated_leases:
  assumes "resume_delegated outcome a role message d = Inr d'" shows "leases_from None d d'"
proof (cases "\<exists>c. fail_leader a c d = Inr d'")
  case True
  then show ?thesis by (blast intro: fail_leader_leases)
next
  case False
  with assms obtain P d2 where "complete_parent_job a (update_runs P (\<lambda>t. t\<lparr>tk_run_status := completed, tk_output_message := Some message\<rparr>) d) = Inr d2"
      "consume_delegation (at_run_id a) delegation_succeeded d2 = Inr d'"
    unfolding resume_delegated_def Let_def by (auto simp: result_simps split: if_splits option.splits)
  moreover have "leases_from None d (update_runs P (\<lambda>t. t\<lparr>tk_run_status := completed, tk_output_message := Some message\<rparr>) d)"
    by (rule update_runs_leases) simp
  ultimately show ?thesis
    by (blast intro: leases_from_trans complete_parent_job_leases consume_delegation_leases)
qed

lemma fail_research_leases: "fail_research a c d = Inr d' \<Longrightarrow> leases_from None d d'"
  by (auto simp: fail_research_def split: if_splits intro: terminalize_delegation_leases)

lemma admit_run_leases: "admit_run r j user dl m ex d = Inr d' \<Longrightarrow> leases_from None d d'"
  by (auto simp: admit_run_def Let_def new_task_def split: if_splits option.splits intro!: append_leases)

lemma spawn_subagent_leases: "spawn_subagent member a r j d = Inr (d', c) \<Longrightarrow> leases_from None d d'"
  by (auto simp: spawn_subagent_def Let_def leases_from_refl split: if_splits option.splits prod.splits
      intro!: append_leases) (simp add: subagent_task_def)

lemma create_delegation_leases: "create_delegation a r j role prompt profile d = Inr d' \<Longrightarrow> leases_from None d d'"
proof -
  assume "create_delegation a r j role prompt profile d = Inr d'"
  then obtain parent dl where d': "d' = update_tasks (owns_lease a) (end_job waiting)
      (d\<lparr>jd_tasks := jd_tasks d @ [child_task r j profile parent (jd_now d)], jd_delegations := dl\<rparr>)"
    by (auto simp: create_delegation_def Let_def split: if_splits option.splits)
  have "leases_from None d (d\<lparr>jd_tasks := jd_tasks d @ [child_task r j profile parent (jd_now d)], jd_delegations := dl\<rparr>)"
    by (auto simp: leases_from_def child_task_def)
  then show ?thesis unfolding d' by (rule leases_from_trans) (rule update_tasks_leases, simp)
qed

lemma wait_subagents_leases: "wait_subagents member a action agents timeout d = Inr (w, d') \<Longrightarrow> leases_from None d d'"
proof -
  have frame: "leases_from None d (d\<lparr>jd_waits := ws\<rparr>)" for ws by (rule leases_from_refl) simp
  have keep: "gives_up None (\<lambda>t. (end_job queued t)\<lparr>tk_available_at := n\<rparr>)" "gives_up None (\<lambda>t::task. t\<lparr>tk_run_status := queued\<rparr>)" for n
    by simp_all
  assume "wait_subagents member a action agents timeout d = Inr (w, d')"
  then show ?thesis
    using leases_from_trans [OF frame run_job_leases [OF keep(2,1)]] run_job_leases [OF keep(2,1)]
    by (auto simp: wait_subagents_def Let_def leases_from_refl split: if_splits)
qed

lemmas transactions_leases =
  admit_run_leases resolve_attempt_leases expire_if_overdue_leases cancel_run_leases publish_run_leases
  publish_studio_run_leases fail_leased_leases create_delegation_leases terminalize_delegation_leases
  fail_research_leases resume_delegated_leases spawn_subagent_leases wait_subagents_leases

lemma heartbeat_leases: "leases_from None d (snd (heartbeat j token lease std d))"
  by (simp add: heartbeat_def Let_def update_tasks_leases)

lemma release_leases: "leases_from None d (snd (release_lease j token d))"
  by (simp add: release_lease_def Let_def update_tasks_leases)

text \<open>Every step hands out at most one token, and a new one.\<close>

lemma queue_step_leases:
  assumes "queue_step (U, d) (U', d')"
  shows "\<exists>new. leases_from new d d' \<and> (case new of None \<Rightarrow> U' = U | Some token \<Rightarrow> token \<notin> U \<and> U' = insert token U)"
  using assms
proof cases
  case (claim token lease locked s)
  then show ?thesis using claim_tx_leases by (intro exI [of _ "Some token"]) auto
qed (auto intro!: exI [of _ None] intro: transactions_leases heartbeat_leases release_leases leases_from_refl)

section \<open>The invariant and what is lost\<close>

definition queue_inv :: "gostring set \<times> job_db \<Rightarrow> bool" where
  "queue_inv s \<longleftrightarrow> jobs_ok (snd s) \<and> (\<forall>t \<in> set (jd_tasks (snd s)). \<forall>x. tk_lease_token t = Some x \<longrightarrow> x \<in> fst s)"

text \<open>The lease \<open>(job, token)\<close> was handed out and is not held any more.\<close>

definition lease_gone :: "gostring \<times> gostring \<Rightarrow> gostring set \<times> job_db \<Rightarrow> bool" where
  "lease_gone k s \<longleftrightarrow> snd k \<in> fst s
     \<and> (\<forall>t \<in> set (jd_tasks (snd s)). tk_job_id t = fst k \<longrightarrow> tk_lease_token t \<noteq> Some (snd k))"

lemma queue_step_inv: "queue_step s s' \<Longrightarrow> queue_inv s \<Longrightarrow> queue_inv s'"
proof -
  assume step: "queue_step s s'" and inv: "queue_inv s"
  obtain U d U' d' where s: "s = (U, d)" "s' = (U', d')" by (cases s; cases s')
  from queue_step_leases [OF step [unfolded s]] obtain new where new: "leases_from new d d'"
      "case new of None \<Rightarrow> U' = U | Some token \<Rightarrow> token \<notin> U \<and> U' = insert token U" by blast
  have "x \<in> U'" if t': "t' \<in> set (jd_tasks d')" "tk_lease_token t' = Some x" for t' x
  proof -
    from new(1) t' have "Some x = new \<or> (\<exists>t \<in> set (jd_tasks d). tk_lease_token t = Some x)"
      unfolding leases_from_def by force
    with inv new(2) show ?thesis by (auto simp: queue_inv_def s split: option.splits)
  qed
  moreover have "jobs_ok d'" using queue_step_ok [OF step] inv by (simp add: s queue_inv_def)
  ultimately show ?thesis by (simp add: queue_inv_def s)
qed

lemma queue_step_gone: "queue_step s s' \<Longrightarrow> queue_inv s \<Longrightarrow> lease_gone k s \<Longrightarrow> lease_gone k s'"
proof -
  assume step: "queue_step s s'" and gone: "lease_gone k s"
  obtain U d U' d' where s: "s = (U, d)" "s' = (U', d')" by (cases s; cases s')
  from queue_step_leases [OF step [unfolded s]] obtain new where new: "leases_from new d d'"
      "case new of None \<Rightarrow> U' = U | Some token \<Rightarrow> token \<notin> U \<and> U' = insert token U" by blast
  from gone have k: "snd k \<in> U" by (simp add: lease_gone_def s)
  with new(2) have "snd k \<in> U'" "new \<noteq> Some (snd k)" by (auto split: option.splits)
  moreover have "tk_lease_token t' \<noteq> Some (snd k)" if t': "t' \<in> set (jd_tasks d')" "tk_job_id t' = fst k" for t'
  proof
    assume "tk_lease_token t' = Some (snd k)"
    with new(1) t' \<open>new \<noteq> Some (snd k)\<close> obtain t where "t \<in> set (jd_tasks d)" "tk_job_id t = fst k" "tk_lease_token t = Some (snd k)"
      unfolding leases_from_def by force
    with gone show False by (auto simp: lease_gone_def s)
  qed
  ultimately show ?thesis by (simp add: lease_gone_def s)
qed

interpretation queue: step_system "\<lambda>s. empty_queue (snd s)" queue_step queue_inv lease_gone
proof
  show "empty_queue (snd s) \<Longrightarrow> queue_inv s" for s
    using empty_queue_ok [of "snd s"] by (simp add: queue_inv_def) (simp add: empty_queue_def)
  show "queue_step s s' \<Longrightarrow> queue_inv s \<Longrightarrow> queue_inv s'" for s s' by (rule queue_step_inv)
  show "queue_step s s' \<Longrightarrow> queue_inv s \<Longrightarrow> lease_gone k s \<Longrightarrow> lease_gone k s'" for s s' k by (rule queue_step_gone)
qed

section \<open>Reachable states\<close>


definition sample_queue :: job_db where
  "sample_queue = \<lparr>jd_tasks = [], jd_delegations = [], jd_waits = [], jd_discoveries = [], jd_sessions = [], jd_now = 0\<rparr>"

definition sample_row :: task where
  "sample_row = new_task ''run_1'' ''job_1'' ''user_1'' 600 (Some 3) ''chat_leader'' 0"

definition sample_admitted :: job_db where
  "sample_admitted = sample_queue\<lparr>jd_tasks := [sample_row]\<rparr>"

definition sample_leased :: job_db where
  "sample_leased = sample_queue\<lparr>jd_tasks := [(lease_task ''lease_1'' 30 False sample_queue sample_row)\<lparr>tk_run_status := running\<rparr>]\<rparr>"

definition sample_job :: claimed_job where
  "sample_job = \<lparr>cj_id = ''job_1'', cj_run_id = ''run_1'', cj_attempt_no = 1, cj_lease_token = ''lease_1'',
     cj_max_attempts = 3, cj_failed_attempts = 0, cj_deadline = 600\<rparr>"

lemma sample_admit: "admit_run ''run_1'' ''job_1'' ''user_1'' 600 (Some 3) ''chat_leader'' sample_queue = Inr sample_admitted"
  by (simp add: admit_run_def Let_def sample_queue_def sample_admitted_def sample_row_def has_key_of_def new_task_def)

lemma sample_claim: "claim_tx ''lease_1'' 30 [] sample_admitted = Inr (Claimed_Job sample_job, sample_leased)"
  by code_simp

lemma sample_steps: "queue_step\<^sup>*\<^sup>* ({}, sample_queue) ({''lease_1''}, sample_leased)"
proof -
  have "queue_step ({}, sample_queue) ({}, sample_admitted)" by (rule queue_step.admit [OF sample_admit])
  moreover have "queue_step ({}, sample_admitted) ({''lease_1''}, sample_leased)"
    using queue_step.claim [OF sample_claim, of "{}"] by simp
  ultimately show ?thesis by (meson rtranclp.rtrancl_refl rtranclp.rtrancl_into_rtrancl)
qed

lemma sample_empty: "empty_queue sample_queue"
  by (simp add: empty_queue_def sample_queue_def)


end
