(* ===== verification/Job_Progress.thy ===== *)
theory Job_Progress
  imports Job_Machine
begin

text \<open>
  What leases and claims of the queue guarantee: a later claim of a Job takes all power from the earlier
  lease, claiming ends, and a worker that finds nothing has left nothing. Two situations in which a
  transaction of the code cannot succeed.
\<close>

section \<open>Fencing\<close>

lemma update_tasks_none: "affected P d = 0 \<Longrightarrow> update_tasks P f d = d"
proof -
  assume "affected P d = 0"
  then have "map (\<lambda>t. if P t then f t else t) (jd_tasks d) = jd_tasks d"
    using affected_none [of P d] by (intro map_idI) auto
  then show ?thesis by (simp add: update_tasks_def)
qed

definition held_nowhere :: "gostring \<Rightarrow> gostring \<Rightarrow> job_db \<Rightarrow> bool" where
  "held_nowhere job token d \<longleftrightarrow> (\<forall>t \<in> set (jd_tasks d). tk_job_id t = job \<longrightarrow> tk_lease_token t \<noteq> Some token)"

lemma held_nowhere_affected:
  assumes "held_nowhere job token d" "\<And>t. P t \<Longrightarrow> tk_job_id t = job \<and> tk_lease_token t = Some token"
  shows "affected P d = 0"
  using assms affected_none [of P d] by (auto simp: held_nowhere_def)

lemma dead_heartbeat: "held_nowhere job token d \<Longrightarrow> heartbeat job token lease std d = (False, d)"
  by (simp add: heartbeat_def Let_def held_nowhere_affected update_tasks_none)

lemma dead_release: "held_nowhere job token d \<Longrightarrow> release_lease job token d = (False, d)"
  by (simp add: release_lease_def Let_def held_nowhere_affected update_tasks_none)

lemma dead_owns: "held_nowhere (at_job_id a) (at_lease_token a) d \<Longrightarrow> t \<in> set (jd_tasks d) \<Longrightarrow> \<not> owns_lease a t"
  by (auto simp: held_nowhere_def owns_lease_def)

lemma dead_authority: "held_nowhere (at_job_id a) (at_lease_token a) d \<Longrightarrow> \<not> holds_authority member a d"
  using dead_owns by (auto simp: holds_authority_def list_ex_iff)

lemma dead_require: "held_nowhere (at_job_id a) (at_lease_token a) d \<Longrightarrow> \<not> require_lease a role d"
  using dead_owns by (auto simp: require_lease_def list_ex_iff)

lemma dead_resolve:
  assumes dead: "held_nowhere (cj_id j) (cj_lease_token j) d" and ok: "jobs_ok d"
    and run: "resolve_attempt clock j r d = Inr (a, d')"
  shows "d' = d"
  using run
proof (cases rule: resolve_attempt_cases)
  case (settled t)
  then show ?thesis by simp
next
  case (retried t m)
  have rows: "rows_ok d" using ok by (simp add: jobs_ok_def)
  from requeue_moves [OF rows retried(5)] obtain x where "moved d x (requeued_row r d x) d'" "owns_lease (job_attempt j) x" by metis
  with dead dead_owns [of "job_attempt j" d x] show ?thesis by (simp add: moved_def job_attempt_def)
next
  case (ended c)
  from terminalize_attempt_state_ok(3) [OF ok ended(1)] obtain x where "x \<in> set (jd_tasks d)" "owns_lease (job_attempt j) x" by blast
  with dead dead_owns [of "job_attempt j" d x] show ?thesis by (simp add: job_attempt_def)
qed

lemma queue_step_issued: "queue_step s s' \<Longrightarrow> fst s \<subseteq> fst s'"
  using queue_step_leases [of "fst s" "snd s" "fst s'" "snd s'"] by (auto split: option.splits)

lemma queue_steps_issued: "queue_step\<^sup>*\<^sup>* s s' \<Longrightarrow> fst s \<subseteq> fst s'"
  by (induction rule: rtranclp_induct) (use queue_step_issued in blast)+

lemma claimed_token:
  assumes ok: "jobs_ok d" and run: "claim_tx token lease locked d = Inr (Claimed_Job j, d')"
  shows "cj_lease_token j = token" "t \<in> set (jd_tasks d') \<Longrightarrow> tk_job_id t = cj_id j \<Longrightarrow> tk_lease_token t = Some token"
proof -
  have both: "cj_lease_token j = token \<and> (\<forall>t \<in> set (jd_tasks d'). tk_job_id t = cj_id j \<longrightarrow> tk_lease_token t = Some token)"
    using run
  proof (cases rule: claim_tx_cases)
    case (claimed d1 n x rest i)
    have ok1: "jobs_ok d1" by (rule expire_if_overdue_ok(1) [OF ok claimed(1)])
    have "x \<in> set (claim_order locked d1)" using claimed(2) by simp
    then have x: "x \<in> set (jd_tasks d1)" by (simp add: claim_order_rows)
    note m = claim_leased_moves [OF ok1 x claimed(3,5)]
    have rows: "rows_ok d1" using ok1 by (simp add: jobs_ok_def)
    from m(4) have j: "cj_lease_token j = token" "cj_id j = tk_job_id x" using scan_jobD(1) [OF claimed(3)] by simp_all
    have "tk_lease_token t = Some token" if t: "t \<in> set (jd_tasks d')" "tk_job_id t = cj_id j" for t
    proof -
      from moved_row [OF m(1) t(1)] obtain y where y: "y \<in> set (jd_tasks d1)"
          "y = x \<and> t = claimed_row token lease d1 x \<or> y \<noteq> x \<and> bystander y t" by blast
      from y(2) show ?thesis
      proof
        assume "y \<noteq> x \<and> bystander y t"
        with bystander_keys(2) have "tk_job_id y = tk_job_id t" "y \<noteq> x" by auto
        with same_row(2) [OF rows y(1) x] t(2) j(2) show ?thesis by simp
      qed (simp add: claimed_row_def lease_task_def)
    qed
    with j(1) show ?thesis by blast
  qed simp_all
  then show "cj_lease_token j = token" "t \<in> set (jd_tasks d') \<Longrightarrow> tk_job_id t = cj_id j \<Longrightarrow> tk_lease_token t = Some token"
    by blast+
qed

text \<open>
  C5: Leases fence. When a worker has claimed a Job and, any number of steps of the queue later, the same
  Job is claimed again, then from that moment on the first lease can do nothing: it cannot be kept alive
  or released, an attempt that it resolves changes no row, and it has no authority to publish, to
  delegate, to spawn or to append.
\<close>

theorem later_claim_fences_earlier:
  assumes start: "queue_step\<^sup>*\<^sup>* (U0, d0) (U1, d1)" "empty_queue d0"
    and first: "claim_tx token1 lease1 locked1 d1 = Inr (Claimed_Job j1, d2)" "token1 \<noteq> []" "token1 \<notin> U1"
    and then_steps: "queue_step\<^sup>*\<^sup>* (insert token1 U1, d2) (U3, d3)"
    and second: "claim_tx token2 lease2 locked2 d3 = Inr (Claimed_Job j2, d4)" "token2 \<noteq> []" "token2 \<notin> U3" "cj_id j2 = cj_id j1"
    and later: "queue_step\<^sup>*\<^sup>* (insert token2 U3, d4) (U, d)"
  shows "heartbeat (cj_id j1) (cj_lease_token j1) lease std d = (False, d)
    \<and> release_lease (cj_id j1) (cj_lease_token j1) d = (False, d)
    \<and> (\<forall>a d'. resolve_attempt clock j1 r d = Inr (a, d') \<longrightarrow> d' = d)
    \<and> \<not> holds_authority member (job_attempt j1) d \<and> \<not> require_lease (job_attempt j1) role d"
proof -
  have inv1: "queue_inv (U1, d1)" using queue.reachable_inv [OF start(1)] start(2) by simp
  have step1: "queue_step (U1, d1) (insert token1 U1, d2)" by (rule queue_step.claim [OF first(1,3,2)])
  have inv3: "queue_inv (U3, d3)" using queue.steps_inv [OF then_steps queue_step_inv [OF step1 inv1]] .
  have step2: "queue_step (U3, d3) (insert token2 U3, d4)" by (rule queue_step.claim [OF second(1,3,2)])
  have inv4: "queue_inv (insert token2 U3, d4)" by (rule queue_step_inv [OF step2 inv3])
  have "token1 \<in> U3" using queue_steps_issued [OF then_steps] by auto
  with second(3) have diff: "token2 \<noteq> token1" and issued: "token1 \<in> insert token2 U3" by auto
  have t1: "cj_lease_token j1 = token1" using claimed_token(1) [OF _ first(1)] inv1 by (simp add: queue_inv_def)
  have "lease_gone (cj_id j1, token1) (insert token2 U3, d4)"
    using claimed_token(2) [OF _ second(1)] inv3 second(4) diff issued by (auto simp: lease_gone_def queue_inv_def)
  from queue.steps_gone [OF later inv4 this] have dead: "held_nowhere (cj_id j1) (cj_lease_token j1) d"
    by (auto simp: lease_gone_def held_nowhere_def t1)
  have ok: "jobs_ok d" using queue.steps_inv [OF later inv4] by (simp add: queue_inv_def)
  from dead have at: "held_nowhere (at_job_id (job_attempt j1)) (at_lease_token (job_attempt j1)) d" by (simp add: job_attempt_def)
  show ?thesis
    using dead_heartbeat [OF dead] dead_release [OF dead] dead_resolve [OF dead ok] dead_authority [OF at] dead_require [OF at]
    by blast
qed

definition sample_job_again :: claimed_job where
  "sample_job_again = sample_job\<lparr>cj_attempt_no := 2, cj_failed_attempts := 1, cj_lease_token := ''lease_2''\<rparr>"

definition sample_leased_again :: job_db where
  "sample_leased_again = sample_queue\<lparr>jd_now := 31, jd_tasks :=
     [(lease_task ''lease_2'' 30 True (sample_queue\<lparr>jd_now := 31\<rparr>) (hd (jd_tasks sample_leased)))]\<rparr>"

lemma sample_claim_again:
  "claim_tx ''lease_2'' 30 [] (sample_leased\<lparr>jd_now := 31\<rparr>) = Inr (Claimed_Job sample_job_again, sample_leased_again)"
  by code_simp

lemma sample_expires: "queue_step\<^sup>*\<^sup>* ({''lease_1''}, sample_leased) ({''lease_1''}, sample_leased\<lparr>jd_now := 31\<rparr>)"
  using queue_step.tick [of 31 "{''lease_1''}" sample_leased] by (simp add: sample_leased_def sample_queue_def r_into_rtranclp)

lemma sample_admitted_steps: "queue_step\<^sup>*\<^sup>* ({}, sample_queue) ({}, sample_admitted)"
  by (rule r_into_rtranclp) (rule queue_step.admit [OF sample_admit])

theorem later_claim_fences_earlier_witness:
  "\<not> require_lease (job_attempt sample_job) ''chat_leader'' sample_leased_again
    \<and> require_lease (job_attempt sample_job_again) ''chat_leader'' sample_leased_again"
proof
  show "\<not> require_lease (job_attempt sample_job) ''chat_leader'' sample_leased_again"
    using later_claim_fences_earlier [OF sample_admitted_steps sample_empty sample_claim _ _ sample_expires sample_claim_again _ _ _
        rtranclp.rtrancl_refl]
    by (simp add: sample_job_def sample_job_again_def)
  show "require_lease (job_attempt sample_job_again) ''chat_leader'' sample_leased_again" by code_simp
qed

section \<open>Claiming ends\<close>

text \<open>The Jobs that have not ended. A statement that revives none does not raise their number.\<close>

definition live_jobs :: "job_db \<Rightarrow> nat" where
  "live_jobs d = affected (\<lambda>t. active_job (tk_status t)) d"

definition revives_none :: "(task \<Rightarrow> task) \<Rightarrow> bool" where
  "revives_none f \<longleftrightarrow> (\<forall>t. active_job (tk_status (f t)) \<longrightarrow> active_job (tk_status t))"

lemma filter_mono_length: "(\<And>x. x \<in> set xs \<Longrightarrow> P x \<Longrightarrow> Q x) \<Longrightarrow> length (filter P xs) \<le> length (filter Q xs)"
  by (induction xs) (auto intro: le_SucI)

lemma filter_mono_length_less:
  "(\<And>x. x \<in> set xs \<Longrightarrow> P x \<Longrightarrow> Q x) \<Longrightarrow> x \<in> set xs \<Longrightarrow> Q x \<Longrightarrow> \<not> P x
    \<Longrightarrow> length (filter P xs) < length (filter Q xs)"
proof (induction xs)
  case (Cons y ys)
  have le: "length (filter P ys) \<le> length (filter Q ys)" using Cons.prems(1) by (simp add: filter_mono_length)
  show ?case
  proof (cases "x = y")
    case True
    with le Cons.prems(3,4) show ?thesis by simp
  next
    case False
    with Cons have "length (filter P ys) < length (filter Q ys)" by simp
    with Cons.prems(1) [of y] show ?thesis by simp
  qed
qed simp

lemma live_map: "jd_tasks d' = map h (jd_tasks d) \<Longrightarrow> revives_none h \<Longrightarrow> live_jobs d' \<le> live_jobs d"
  by (simp add: live_jobs_def affected_def filter_map comp_def filter_mono_length revives_none_def)

lemma live_update_tasks: "revives_none f \<Longrightarrow> live_jobs (update_tasks P f d) \<le> live_jobs d"
  by (rule live_map [OF update_tasks_sel(1)]) (simp add: revives_none_def)

lemma live_sync: "live_jobs (sync_subagents r d) \<le> live_jobs d"
  by (rule live_map [OF sync_sel(1)]) (simp add: revives_none_def cancel_child_def Let_def end_job_def)

lemma live_fold_sync: "live_jobs (fold sync_subagents rs d) \<le> live_jobs d"
  by (induction rs arbitrary: d) (auto intro: le_trans live_sync)

lemma live_update_runs: "revives_none f \<Longrightarrow> live_jobs (update_runs P f d) \<le> live_jobs d"
  unfolding update_runs_def by (rule le_trans [OF live_fold_sync live_update_tasks])

text \<open>A statement that ends the Job of a row it names.\<close>

lemma live_end_job:
  assumes "affected P d = 1" "\<And>t. P t \<Longrightarrow> active_job (tk_status t)" "\<And>t. \<not> active_job (tk_status (f t))"
  shows "live_jobs (update_tasks P f d) < live_jobs d"
proof -
  obtain t where t: "t \<in> set (jd_tasks d)" "P t" by (rule affected_one [OF assms(1)]) blast
  show ?thesis
    unfolding live_jobs_def affected_def update_tasks_sel filter_map length_map
    by (rule filter_mono_length_less [OF _ t(1)]) (use t(2) assms(2,3) in \<open>auto split: if_splits\<close>)
qed

lemma revives_none_simps [simp]:
  "revives_none (\<lambda>t. t\<lparr>tk_run_status := s, tk_error_code := e\<rparr>)" "revives_none (\<lambda>t. t\<lparr>tk_run_status := s\<rparr>)"
  "revives_none (\<lambda>t. t\<lparr>tk_last_error := e\<rparr>)" "revives_none (end_job failed)"
  "revives_none (\<lambda>t. (end_job failed t)\<lparr>tk_last_error := e\<rparr>)"
  by (simp_all add: revives_none_def end_job_def)

lemma live_tasks: "jd_tasks d' = jd_tasks d \<Longrightarrow> live_jobs d' = live_jobs d"
  by (simp add: live_jobs_def affected_def)

lemma live_end_delegations [simp]: "live_jobs (end_delegations P s c d) = live_jobs d"
  by (rule live_tasks) simp

lemma live_owned:
  assumes "affected (owns_lease a) d = 1" "\<And>t. \<not> active_job (tk_status (f t))"
  shows "live_jobs (update_tasks (owns_lease a) f d) < live_jobs d"
  by (rule live_end_job [OF assms(1) _ assms(2)]) (simp add: owns_lease_def)

lemma live_resume_parent: "live_jobs (resume_parent c d) \<le> live_jobs d"
proof -
  let ?P = "\<lambda>t. delegates_to d c t \<and> tk_run_status t = running \<and> ahead (tk_deadline t) (jd_now d)"
  let ?d = "update_runs ?P (\<lambda>t. t\<lparr>tk_run_status := queued\<rparr>) d"
  let ?J = "\<lambda>t. delegates_to ?d c t \<and> tk_status t = waiting \<and> tk_run_status t = queued \<and> ahead (tk_deadline t) (jd_now ?d)"
  have "live_jobs (update_tasks ?J (\<lambda>t. t\<lparr>tk_status := queued\<rparr>) ?d) \<le> live_jobs ?d"
    by (rule live_map [OF update_tasks_sel(1)]) (simp add: revives_none_def)
  also have "\<dots> \<le> live_jobs d" by (rule live_update_runs) simp
  finally show ?thesis by (simp add: resume_parent_def Let_def)
qed

lemma fail_leased_live:
  assumes "fail_leased a c d = Inr d'"
  shows "live_jobs d' < live_jobs d"
proof -
  let ?g = "\<lambda>t. (end_job failed t)\<lparr>tk_last_error := Some c\<rparr>"
  from assms obtain P where jobs: "affected (owns_lease a) d = 1"
    and d': "d' = update_runs P (\<lambda>t. t\<lparr>tk_run_status := failed, tk_error_code := Some c\<rparr>) (update_tasks (owns_lease a) ?g d)"
    by (simp only: fail_leased_def Let_def split: if_splits) blast+
  have "live_jobs d' \<le> live_jobs (update_tasks (owns_lease a) ?g d)"
    unfolding d' by (rule live_update_runs) simp
  also have "\<dots> < live_jobs d" by (rule live_owned [OF jobs]) (simp add: end_job_def)
  finally show ?thesis .
qed

lemma fail_research_payload_live: "fail_research_payload r c d = Inr d' \<Longrightarrow> live_jobs d' = live_jobs d"
  by (rule live_tasks) (rule fail_research_payload_sel)

lemma terminalize_delegation_live:
  assumes "terminalize_delegation a s c d = Inr d'"
  shows "live_jobs d' < live_jobs d"
proof -
  let ?run = "if s = delegation_succeeded then completed else if s = delegation_cancelled then cancelled else failed"
  let ?job = "if s = delegation_succeeded then succeeded else if s = delegation_cancelled then cancelled else failed"
  let ?P = "\<lambda>t. tk_run_id t = at_run_id a \<and> tk_run_status t = running \<and> list_ex (waiting_child (at_run_id a)) (jd_delegations d)"
  let ?d1 = "update_runs ?P (\<lambda>t. t\<lparr>tk_run_status := ?run, tk_error_code := nullif c\<rparr>) d"
  let ?d2 = "update_tasks (owns_lease a) (end_job ?job) ?d1"
  have jobs: "affected (owns_lease a) ?d1 = 1"
    and d': "d' = resume_parent (at_run_id a) (end_delegations (waiting_child (at_run_id a)) s c ?d2)"
    using assms unfolding terminalize_delegation_def Let_def by (auto split: if_split_asm)
  have "live_jobs d' \<le> live_jobs ?d2"
    unfolding d' by (rule le_trans [OF live_resume_parent]) (simp only: live_end_delegations order_refl)
  also have "\<dots> < live_jobs ?d1" by (rule live_owned [OF jobs]) (simp add: end_job_def)
  also have "\<dots> \<le> live_jobs d" by (rule live_update_runs) (simp add: revives_none_def)
  finally show ?thesis .
qed

lemma fail_session_live: "fail_session r c d = Inr d' \<Longrightarrow> live_jobs d' = live_jobs d"
  by (auto simp: fail_session_def split: if_splits intro!: live_tasks)


lemma terminalize_attempt_state_live:
  assumes "terminalize_attempt_state a c d = Inr d'"
  shows "live_jobs d' < live_jobs d"
proof -
  from terminalize_attempt_state_steps [OF assms] obtain t d1
    where d': "d' = update_tasks (\<lambda>t. tk_job_id t = at_job_id a) (\<lambda>t. t\<lparr>tk_last_error := Some c\<rparr>) d1"
    and step: "(if is_research t
             then bind_result (fail_research_payload (at_run_id a) c d) (terminalize_delegation a delegation_failed c)
             else if is_chat_leader t \<or> is_studio t \<or> is_configured_research t
             then bind_result (fail_leased a c d) (\<lambda>d1.
               if is_configured_research t \<and> tk_parent t = None then fail_session (at_run_id a) c d1 else Inr d1)
             else Inl Q_Unsupported_Role) = Inr d1"
    by blast
  have "live_jobs d1 < live_jobs d"
  proof (cases "is_research t")
    case True
    with step obtain d0 where "fail_research_payload (at_run_id a) c d = Inr d0" "terminalize_delegation a delegation_failed c d0 = Inr d1"
      by (auto simp: result_simps)
    then show ?thesis using fail_research_payload_live terminalize_delegation_live by fastforce
  next
    case False
    with step obtain d0 where "fail_leased a c d = Inr d0" "d1 = d0 \<or> fail_session (at_run_id a) c d0 = Inr d1"
      by (auto simp: result_simps split: if_splits)
    then show ?thesis using fail_leased_live fail_session_live by fastforce
  qed
  moreover have "live_jobs d' \<le> live_jobs d1" unfolding d' by (rule live_update_tasks) simp
  ultimately show ?thesis by simp
qed

lemma expire_run_live:
  assumes "expire_run d item = Inr d'" shows "live_jobs d' \<le> live_jobs d"
proof -
  from assms obtain J P where last: "fail_research_payload (tk_run_id item) ''research_deadline_exceeded''
      (end_delegations (waiting_child (tk_run_id item)) delegation_failed run_deadline_exceeded
        (update_tasks J (end_job failed) (update_runs P (\<lambda>t. t\<lparr>tk_run_status := failed, tk_error_code := Some run_deadline_exceeded\<rparr>) d)))
      = Inr d'"
    unfolding expire_run_def Let_def by (auto split: if_splits)
  show ?thesis
    unfolding fail_research_payload_live [OF last] live_end_delegations
    by (rule le_trans [OF live_update_tasks live_update_runs]) simp_all
qed

lemma expire_if_overdue_live:
  assumes "expire_if_overdue user run d = Inr (d', n)" shows "live_jobs d' \<le> live_jobs d"
proof -
  from assms have "fold_result expire_run d (overdue user run d) = Inr d'"
    by (auto simp: expire_if_overdue_def result_simps)
  then show ?thesis
    by (rule fold_result_invariant) (auto intro: le_trans expire_run_live)
qed

lemma exhausted_live: "claim_tx token lease locked d = Inr (Exhausted_Job j, d') \<Longrightarrow> live_jobs d' < live_jobs d"
proof (erule claim_tx_cases)
  fix d1 n t rest i
  assume "expire_if_overdue [] [] d = Inr (d1, n)" "exhaust_recovery i d1 = Inr d'"
  then show "live_jobs d' < live_jobs d"
    using expire_if_overdue_live terminalize_attempt_state_live unfolding exhaust_recovery_def by (meson le_less_trans less_le_trans)
qed (auto simp: claim_leased_def Let_def split: if_splits)

text \<open>
  C12: \<open>ClaimNext\<close> returns. Its loop goes round again only after a transaction that ended a Job whose leases
  are used up, so when the other transactions in between admit no Jobs, one round more than there are
  Jobs that have not ended is enough, whatever the clock and the locks of other workers do.
\<close>

theorem claiming_ends:
  assumes "\<And>e d. e \<in> set es \<Longrightarrow> live_jobs (ce_before e d) \<le> live_jobs d" and "live_jobs d < length es"
  shows "fst (claim_next lease es d) \<noteq> None"
  using assms
proof (induction es arbitrary: d)
  case (Cons e es)
  let ?d = "ce_before e d"
  show ?case
  proof (cases "\<exists>j d1. claim_tx (ce_token e) lease (ce_locked e) ?d = Inr (Exhausted_Job j, d1)")
    case True
    then obtain j d1 where d1: "claim_tx (ce_token e) lease (ce_locked e) ?d = Inr (Exhausted_Job j, d1)" by blast
    from exhausted_live [OF d1] Cons.prems(1) [of e d] Cons.prems(2) have "live_jobs d1 < length es" by simp
    with Cons.IH [of d1] Cons.prems(1) d1 show ?thesis by (simp add: Let_def)
  next
    case False
    then show ?thesis by (auto simp: Let_def split: sum.splits prod.splits claim_step.splits)
  qed
qed simp


lemma sample_reached: "queue_step\<^sup>*\<^sup>* ({}, sample_queue) ({''lease_1''}, sample_leased\<lparr>jd_now := 31\<rparr>)"
  by (rule rtranclp_trans [OF sample_steps sample_expires])

theorem claiming_ends_witness:
  "fst (claim_next 30 (replicate 2 \<lparr>ce_token = ''lease_1'', ce_locked = [], ce_before = (\<lambda>d. d\<lparr>jd_now := 600\<rparr>)\<rparr>) sample_admitted) \<noteq> None"
  by (rule claiming_ends)
    (auto simp: live_jobs_def affected_def sample_admitted_def sample_queue_def)

section \<open>A runnable Job is claimed\<close>

lemma claim_leased_succeeds:
  assumes ok: "jobs_ok d" and t: "t \<in> set (jd_tasks d)" "claimable now t" "scan_job t = Inr j"
  obtains d' where "claim_leased token lease (tk_status t = running) j d =
    Inr (Claimed_Job (j\<lparr>cj_attempt_no := tk_attempt_no t + 1,
       cj_failed_attempts := tk_failed_attempts t + (if tk_status t = running then 1 else 0), cj_lease_token := token\<rparr>), d')"
proof -
  from ok have rows: "rows_ok d" by (simp add: jobs_ok_def)
  note js = scan_jobD [OF t(3)]
  let ?J = "\<lambda>t. tk_job_id t = cj_id j" and ?g = "lease_task token lease (tk_status t = running) d"
  let ?P = "\<lambda>t. tk_run_id t = cj_run_id j \<and> active_run (tk_run_status t)"
  have jobs: "affected ?J d = 1"
    by (rule affected_unique [OF rows_okD(2) [OF rows] t(1)]) (simp_all add: js)
  have runs: "affected ?P (update_tasks ?J ?g d) = 1"
  proof (rule affected_unique)
    show "distinct (map tk_run_id (jd_tasks (update_tasks ?J ?g d)))"
      using rows_okD(1) [OF rows] by (simp add: comp_def if_distrib lease_task_def cong: if_cong)
    show "?g t \<in> set (jd_tasks (update_tasks ?J ?g d))" using t(1) js(1) by (auto intro!: image_eqI [of _ _ t])
    show "?P (?g t)" using claimable_status [OF t(2)] js(2) by (auto simp: lease_task_def)
    show "tk_run_id x = tk_run_id (?g t)" if "?P x" for x using that js(2) by (simp add: lease_task_def)
  qed
  from jobs runs show ?thesis by (intro that) (simp add: claim_leased_def Let_def js(3,4))
qed

text \<open>
  C6: In every reachable state of the queue, a runnable Job is claimed: the first Job in the order of the
  queue that no other worker has locked gets the new token and a lease from now on, its Run and the Job run,
  the attempt is counted, and a lost lease counts as a failed one. Only a Job whose attempts are used up is
  not claimed.
\<close>

theorem runnable_job_is_claimed:
  assumes "queue_step\<^sup>*\<^sup>* (U0, d0) (U, d)" "empty_queue d0"
    and "expire_if_overdue [] [] d = Inr (d1, n)" "claim_order locked d1 = t # rest"
    and "leasable t" "tk_max_attempts t = Some m" "tk_deadline t = Some dl"
  shows "\<exists>j d2 u. claim_tx token lease locked d = Inr (Claimed_Job j, d2)
    \<and> cj_id j = tk_job_id t \<and> cj_run_id j = tk_run_id t \<and> cj_lease_token j = token
    \<and> cj_attempt_no j = tk_attempt_no t + 1
    \<and> cj_failed_attempts j = tk_failed_attempts t + (if tk_status t = running then 1 else 0)
    \<and> u \<in> set (jd_tasks d2) \<and> owns_lease (job_attempt j) u \<and> tk_run_status u = running
    \<and> tk_lease_expires_at u = Some (jd_now d + lease)"
proof -
  have ok: "jobs_ok d" using queue.reachable_inv [OF assms(1)] assms(2) by (simp add: queue_inv_def)
  note e = expire_if_overdue_ok [OF ok assms(3)]
  have "t \<in> set (claim_order locked d1)" using assms(4) by simp
  then have t: "t \<in> set (jd_tasks d1)" "claimable (jd_now d1) t" by (simp_all add: claim_order_rows)
  obtain i where i: "scan_job t = Inr i" using assms(6,7) by (simp add: scan_job_def)
  note js = scan_jobD [OF i]
  from claim_leased_succeeds [OF e(1) t i, of token lease] obtain j d2
    where d2: "claim_leased token lease (tk_status t = running) i d1 = Inr (Claimed_Job j, d2)"
    and j: "j = i\<lparr>cj_attempt_no := tk_attempt_no t + 1,
       cj_failed_attempts := tk_failed_attempts t + (if tk_status t = running then 1 else 0), cj_lease_token := token\<rparr>"
    by blast
  have "claim_tx token lease locked d = Inr (Claimed_Job j, d2)"
    using assms(3-5) i d2 js by (auto simp: claim_tx_def leasable_def Let_def)
  moreover have m: "moved d1 t (claimed_row token lease d1 t) d2" by (rule claim_leased_moves(1) [OF e(1) t(1) i d2])
  then obtain h where h: "jd_tasks d2 = map h (jd_tasks d1)" "h t = claimed_row token lease d1 t" unfolding moved_def by blast
  from t(1) have "h t \<in> set (map h (jd_tasks d1))" by simp
  then have "claimed_row token lease d1 t \<in> set (jd_tasks d2)" by (simp only: h)
  ultimately show ?thesis
    using j js(1,2) e(3)
    by (intro exI [of _ j] exI [of _ d2] exI [of _ "claimed_row token lease d1 t"])
      (simp add: claimed_row_def lease_task_def owns_lease_def job_attempt_def)
qed

theorem runnable_job_is_claimed_witness:
  "\<exists>j d2. claim_tx ''lease_2'' 30 [] (sample_leased\<lparr>jd_now := 31\<rparr>) = Inr (Claimed_Job j, d2) \<and> cj_failed_attempts j = 1"
proof -
  have e: "expire_if_overdue [] [] (sample_leased\<lparr>jd_now := 31\<rparr>) = Inr (sample_leased\<lparr>jd_now := 31\<rparr>, 0)" by code_simp
  have c: "claim_order [] (sample_leased\<lparr>jd_now := 31\<rparr>) = [hd (jd_tasks sample_leased)]" by code_simp
  have l: "leasable (hd (jd_tasks sample_leased))"
    by (simp add: leasable_def sample_leased_def lease_task_def sample_row_def new_task_def max_agent_leases_def sample_queue_def)
  have m: "tk_max_attempts (hd (jd_tasks sample_leased)) = Some 3" "tk_deadline (hd (jd_tasks sample_leased)) = Some 600"
    "tk_failed_attempts (hd (jd_tasks sample_leased)) = 0" "tk_status (hd (jd_tasks sample_leased)) = running"
    by (simp_all add: sample_leased_def lease_task_def sample_row_def new_task_def sample_queue_def)
  show ?thesis
    using runnable_job_is_claimed [OF sample_reached sample_empty e c l m(1,2), of "''lease_2''" 30] m(3,4) by auto
qed


section \<open>Two transactions that cannot succeed\<close>

text \<open>
  C33: A Job whose hundred leases are used up blocks the queue when it was put back by a wait. It stands
  queued, so it has no lease, and \<open>ClaimNext\<close> asks to terminalize an attempt whose token is empty: the
  transaction fails and changes nothing, for every worker, as long as that Job is the first in the order,
  whatever runnable Jobs stand behind it.
\<close>

theorem hundredth_lease_blocks_the_queue:
  assumes "jobs_ok d" "expire_if_overdue [] [] d = Inr (d1, n)" "claim_order locked d1 = t # rest"
    and "tk_status t = queued" "max_agent_leases \<le> tk_attempt_no t" "tk_max_attempts t = Some m" "tk_deadline t = Some dl"
  shows "claim_tx token lease locked d = Inl Q_Invalid_Terminalization
    \<and> claim_next lease (\<lparr>ce_token = token, ce_locked = locked, ce_before = (\<lambda>x. x)\<rparr> # es) d = (Some (Inl Q_Invalid_Terminalization), d)"
proof -
  have ok: "jobs_ok d1" by (rule expire_if_overdue_ok(1) [OF assms(1,2)])
  have "t \<in> set (claim_order locked d1)" using assms(3) by simp
  then have "t \<in> set (jd_tasks d1)" by (simp add: claim_order_rows)
  with ok have "task_ok t" by (auto simp: jobs_ok_def dest: rows_okD(3))
  with assms(4) have "tk_lease_token t = None" by (simp add: task_ok_def execution_state_ok_def)
  with assms(2-7) have "claim_tx token lease locked d = Inl Q_Invalid_Terminalization"
    by (simp add: claim_tx_def scan_job_def Let_def exhaust_recovery_def terminalize_attempt_state_def job_attempt_def)
  then show ?thesis by simp
qed

definition sample_spent :: task where
  "sample_spent = sample_row\<lparr>tk_attempt_no := 100\<rparr>"

definition sample_blocked :: job_db where
  "sample_blocked = sample_queue\<lparr>jd_tasks :=
     [sample_spent, (new_task ''run_2'' ''job_2'' ''user_1'' 600 (Some 3) ''chat_leader'' 0)]\<rparr>"

theorem hundredth_lease_blocks_the_queue_witness:
  "claim_tx ''lease_3'' 30 [] sample_blocked = Inl Q_Invalid_Terminalization
    \<and> claimable 0 (new_task ''run_2'' ''job_2'' ''user_1'' 600 (Some 3) ''chat_leader'' 0)"
proof
  have ok: "jobs_ok sample_blocked"
    by (simp add: jobs_ok_def rows_ok_def delegations_ok_def sample_blocked_def sample_queue_def sample_spent_def sample_row_def
        new_task_def row_defs)
  have e: "expire_if_overdue [] [] sample_blocked = Inr (sample_blocked, 0)" by code_simp
  have c: "claim_order [] sample_blocked = [sample_spent, new_task ''run_2'' ''job_2'' ''user_1'' 600 (Some 3) ''chat_leader'' 0]"
    by code_simp
  show "claim_tx ''lease_3'' 30 [] sample_blocked = Inl Q_Invalid_Terminalization"
    using hundredth_lease_blocks_the_queue [OF ok e c, of 3 600 "''lease_3''" 30 "[]"]
    by (simp add: sample_spent_def sample_row_def new_task_def max_agent_leases_def)
  show "claimable 0 (new_task ''run_2'' ''job_2'' ''user_1'' 600 (Some 3) ''chat_leader'' 0)"
    by (simp add: claimable_def new_task_def)
qed

lemma find_only:
  assumes "x \<in> set xs" "P x" "\<And>y. y \<in> set xs \<Longrightarrow> P y \<Longrightarrow> y = x"
  shows "find P xs = Some x"
proof (cases "find P xs")
  case None
  with assms(1,2) show ?thesis by (auto simp: find_None_iff)
next
  case (Some y)
  with find_Some [OF Some] assms(3) [of y] show ?thesis by simp
qed

text \<open>
  C34: A Run cannot be cancelled between the end of its research child and its own: \<open>CancelWithMetrics\<close>
  finds the child whatever the state of the delegation, and \<open>CancelTreeInTx\<close> then looks for one that still
  waits, so the user's request fails and the Run goes on.
\<close>

theorem cancel_fails_after_the_handoff:
  assumes "jobs_ok d" "t \<in> set (jd_tasks d)" "tk_run_id t = run" "run \<noteq> []" "tk_user t = Some user"
    and "is_chat_leader t" "active_run (tk_run_status t)"
    and "research_child_of run d = Some child"
    and "\<forall>x \<in> set (jd_delegations d). dl_parent_run x = run \<longrightarrow> dl_state x \<noteq> delegation_waiting"
  shows "cancel_run user run d = Inl Q_No_Rows"
proof -
  have rows: "rows_ok d" using assms(1) by (simp add: jobs_ok_def)
  let ?P = "\<lambda>t. tk_run_id t = run \<and> tk_user t = Some user
    \<and> ((tk_runtime_kind t = kind_legacy \<and> tk_role t = Some role_leader) \<or> tk_runtime_kind t = kind_configured)"
  have Pt: "?P t" using assms(3,5,6) by (auto simp: is_chat_leader_def)
  have only: "y = t" if "y \<in> set (jd_tasks d)" "?P y" for y
    by (rule same_row(1) [OF rows that(1) assms(2)]) (simp only: that(2) assms(3))
  have "find ?P (jd_tasks d) = Some t" by (rule find_only [of t "jd_tasks d" ?P, OF assms(2) Pt only])
  moreover have "\<not> blank ''research_cancelled''" by code_simp
  then have "cancel_tree run ''research_cancelled'' d = Inl Q_No_Rows"
    using assms(4,9) by (auto simp: cancel_tree_def Let_def list_ex_iff)
  ultimately show ?thesis
    using assms(7,8) by (auto simp: cancel_run_def active_run_def)
qed

definition sample_leader :: task where
  "sample_leader = sample_row\<lparr>tk_runtime_kind := kind_legacy, tk_role := Some role_leader, tk_executor := None, tk_attempt_no := 1\<rparr>"

definition sample_handed_back :: job_db where
  "sample_handed_back = sample_queue\<lparr>jd_tasks :=
     [sample_leader,
      (child_task ''run_2'' ''job_2'' \<lparr>cp_max_attempts = Some 3\<rparr> sample_leader 0)\<lparr>tk_run_status := completed, tk_status := succeeded\<rparr>],
     jd_delegations := [\<lparr>dl_parent_run = ''run_1'', dl_child_run = ''run_2'', dl_state = delegation_succeeded,
       dl_error_code = None, dl_consumed = False\<rparr>]\<rparr>"

theorem cancel_fails_after_the_handoff_witness:
  "cancel_run ''user_1'' ''run_1'' sample_handed_back = Inl Q_No_Rows"
proof (rule cancel_fails_after_the_handoff)
  show "jobs_ok sample_handed_back"
    by (simp add: jobs_ok_def rows_ok_def delegations_ok_def delegation_ok_def sample_handed_back_def sample_queue_def sample_leader_def
        sample_row_def new_task_def child_task_def row_defs delegation_states)
  show "sample_leader \<in> set (jd_tasks sample_handed_back)" by (simp add: sample_handed_back_def)
  show "research_child_of ''run_1'' sample_handed_back = Some (jd_tasks sample_handed_back ! 1)" by code_simp
qed (simp_all add: sample_leader_def sample_row_def new_task_def is_chat_leader_def kinds sample_handed_back_def delegation_states sample_queue_def)


end
