(* ===== verification/Go_Regexp.thy ===== *)
theory Go_Regexp
  imports Go_Strings
begin

text \<open>
  The regular expressions of Go's package \<open>regexp\<close>, as far as the Research code uses them. A match prefers
  the leftmost start and, there, what a backtracking search finds first: \<open>runs\<close> lists every way an
  expression consumes the front of a text, in that order, with the groups it captured. \<open>lang\<close> is the
  language of an expression; \<open>runs_iff_lang\<close> says that both agree. Expressions are over the bytes of
  UTF-8, which is the same for the expressions used: a start is never inside a rune.
\<close>

section \<open>Matching\<close>

type_synonym captures = "(nat \<times> gostring) list"

datatype regex =
    One "char \<Rightarrow> bool"
  | Lit gostring
  | Cat regex regex
  | Or regex regex
  | Many regex
  | Group nat regex

definition opt :: "regex \<Rightarrow> regex" where "opt r = Or r (Lit [])"
definition one_or_more :: "regex \<Rightarrow> regex" where "one_or_more r = Cat r (Many r)"

fun star_runs ::
  "(gostring \<times> captures \<Rightarrow> (gostring \<times> captures) list) \<Rightarrow> nat \<Rightarrow> gostring \<times> captures \<Rightarrow> (gostring \<times> captures) list" where
  "star_runs f 0 s = [s]"
| "star_runs f (Suc n) s =
     concat (map (star_runs f n) (filter (\<lambda>t. length (fst t) < length (fst s)) (f s))) @ [s]"

primrec runs :: "regex \<Rightarrow> gostring \<times> captures \<Rightarrow> (gostring \<times> captures) list" where
  "runs (One P) s = (case fst s of [] \<Rightarrow> [] | c # t \<Rightarrow> if P c then [(t, snd s)] else [])"
| "runs (Lit x) s = (if take (length x) (fst s) = x then [(drop (length x) (fst s), snd s)] else [])"
| "runs (Cat a b) s = concat (map (runs b) (runs a s))"
| "runs (Or a b) s = runs a s @ runs b s"
| "runs (Many a) s = star_runs (runs a) (length (fst s)) s"
| "runs (Group n a) s =
     map (\<lambda>t. (fst t, (n, take (length (fst s) - length (fst t)) (fst s)) # snd t)) (runs a s)"

text \<open>An expression between \<open>^\<close> and \<open>$\<close>: the first way that consumes the whole text.\<close>

definition full_match :: "regex \<Rightarrow> gostring \<Rightarrow> captures option" where
  "full_match r s = map_option snd (find (\<lambda>t. fst t = []) (runs r (s, [])))"

definition group :: "nat \<Rightarrow> captures \<Rightarrow> gostring" where
  "group n c = (case map_of c n of Some x \<Rightarrow> x | None \<Rightarrow> [])"

text \<open>What was skipped, the match with its groups, and the rest. An empty match is passed over.\<close>

fun next_match :: "regex \<Rightarrow> gostring \<Rightarrow> (gostring \<times> (gostring \<times> captures) \<times> gostring) option" where
  "next_match r [] = None"
| "next_match r (x # s) =
     (case filter (\<lambda>t. length (fst t) < Suc (length s)) (runs r (x # s, [])) of
        (t, c) # _ \<Rightarrow> Some ([], (take (Suc (length s) - length t) (x # s), c), t)
      | [] \<Rightarrow> map_option (\<lambda>(skip, m, t). (x # skip, m, t)) (next_match r s))"

lemma next_match_shorter: "next_match r s = Some (skip, m, t) \<Longrightarrow> length t < length s"
  by (induction s arbitrary: skip m t) (auto split: list.splits dest: filter_eq_ConsD)

function find_all :: "regex \<Rightarrow> gostring \<Rightarrow> (gostring \<times> gostring \<times> captures) list \<times> gostring" where
  "find_all r s =
     (case next_match r s of
        None \<Rightarrow> ([], s)
      | Some (skip, m, t) \<Rightarrow> (case find_all r t of (ms, rest) \<Rightarrow> ((skip, m) # ms, rest)))"
  by auto
termination by (relation "measure (\<lambda>(r, s). length s)") (auto dest: next_match_shorter)

declare find_all.simps [simp del]

definition all_matches :: "regex \<Rightarrow> gostring \<Rightarrow> (gostring \<times> captures) list" where
  "all_matches r s = map snd (fst (find_all r s))"

definition replace_all :: "regex \<Rightarrow> gostring \<Rightarrow> gostring \<Rightarrow> gostring" where
  "replace_all r x s =
     (case find_all r s of (ms, rest) \<Rightarrow> concat (map (\<lambda>(skip, m). skip @ x) ms) @ rest)"

definition split_all :: "regex \<Rightarrow> gostring \<Rightarrow> gostring list" where
  "split_all r s = (case find_all r s of (ms, rest) \<Rightarrow> map fst ms @ [rest])"

section \<open>The language of an expression\<close>

primrec lang :: "regex \<Rightarrow> gostring set" where
  "lang (One P) = {[c] |c. P c}"
| "lang (Lit x) = {x}"
| "lang (Cat a b) = {u @ v |u v. u \<in> lang a \<and> v \<in> lang b}"
| "lang (Or a b) = lang a \<union> lang b"
| "lang (Many a) = {concat us |us. set us \<subseteq> lang a}"
| "lang (Group n a) = lang a"

lemma star_runs_sound:
  assumes f: "\<And>s t. t \<in> set (f s) \<Longrightarrow> \<exists>u \<in> L. fst s = u @ fst t"
  shows "t \<in> set (star_runs f n s) \<Longrightarrow> \<exists>us. set us \<subseteq> L \<and> fst s = concat us @ fst t"
proof (induction n arbitrary: s)
  case 0
  then show ?case by (intro exI [of _ "[]"]) simp
next
  case (Suc n)
  then consider "t = s" | s1 where "s1 \<in> set (f s)" "t \<in> set (star_runs f n s1)" by auto
  then show ?case
  proof cases
    case 1
    then show ?thesis by (intro exI [of _ "[]"]) simp
  next
    case (2 s1)
    from f [OF 2(1)] obtain u where u: "u \<in> L" "fst s = u @ fst s1" by blast
    from Suc.IH [OF 2(2)] obtain us where "set us \<subseteq> L" "fst s1 = concat us @ fst t" by blast
    with u show ?thesis by (intro exI [of _ "u # us"]) simp
  qed
qed

lemma runs_sound: "t \<in> set (runs r s) \<Longrightarrow> \<exists>u \<in> lang r. fst s = u @ fst t"
proof (induction r arbitrary: s t)
  case (One P)
  then show ?case by (auto split: list.splits if_splits)
next
  case (Lit x)
  then show ?case using append_take_drop_id [of "length x" "fst s"] by (auto split: if_splits)
next
  case (Cat a b)
  then obtain s1 where s1: "s1 \<in> set (runs a s)" "t \<in> set (runs b s1)" by auto
  from Cat.IH(1) [OF s1(1)] Cat.IH(2) [OF s1(2)] show ?case by fastforce
next
  case (Or a b)
  then show ?case by fastforce
next
  case (Many a)
  then have "t \<in> set (star_runs (runs a) (length (fst s)) s)" by simp
  from star_runs_sound [of "runs a" "lang a", OF Many.IH this] show ?case by auto
next
  case (Group n a)
  then obtain t' where "t' \<in> set (runs a s)" "fst t = fst t'" by auto
  with Group.IH show ?case by fastforce
qed

lemma star_runs_complete:
  assumes f: "\<And>u t c. u \<in> L \<Longrightarrow> \<exists>c'. (t, c') \<in> set (f (u @ t, c))"
  shows "set us \<subseteq> L \<Longrightarrow> [] \<notin> set us \<Longrightarrow> length us \<le> n \<Longrightarrow> \<exists>c'. (t, c') \<in> set (star_runs f n (concat us @ t, c))"
proof (induction us arbitrary: n c)
  case Nil
  then show ?case by (cases n) auto
next
  case (Cons u us)
  then obtain k where k: "n = Suc k" by (cases n) auto
  from Cons.prems(1) f [of u "concat us @ t" c] obtain c1 where c1: "(concat us @ t, c1) \<in> set (f (u @ concat us @ t, c))" by auto
  from Cons.IH [of k c1] Cons.prems k obtain c' where "(t, c') \<in> set (star_runs f k (concat us @ t, c1))" by auto
  with c1 Cons.prems(2) show ?case by (auto simp: k intro!: exI [of _ c'] bexI [of _ "(concat us @ t, c1)"])
qed

lemma nonempty_parts: "set us \<subseteq> L \<Longrightarrow> \<exists>vs. set vs \<subseteq> L \<and> [] \<notin> set vs \<and> concat vs = concat us \<and> length vs \<le> length (concat us)"
proof (induction us)
  case (Cons u us)
  then obtain vs where vs: "set vs \<subseteq> L" "[] \<notin> set vs" "concat vs = concat us" "length vs \<le> length (concat us)" by auto
  show ?case
  proof (cases "u = []")
    case True
    with vs show ?thesis by auto
  next
    case False
    with vs Cons.prems show ?thesis by (intro exI [of _ "u # vs"]) (cases u; auto)
  qed
qed simp

lemma runs_complete: "u \<in> lang r \<Longrightarrow> \<exists>c'. (t, c') \<in> set (runs r (u @ t, c))"
proof (induction r arbitrary: u t c)
  case (Cat a b)
  then obtain v w where u: "u = v @ w" "v \<in> lang a" "w \<in> lang b" by auto
  from Cat.IH(1) [OF u(2), of "w @ t" c] obtain c1 where "(w @ t, c1) \<in> set (runs a (u @ t, c))" by (auto simp: u(1))
  moreover from Cat.IH(2) [OF u(3), of t c1] obtain c2 where "(t, c2) \<in> set (runs b (w @ t, c1))" by blast
  ultimately show ?case by (auto intro!: exI [of _ c2] bexI [of _ "(w @ t, c1)"])
next
  case (Or a b)
  then show ?case by fastforce
next
  case (Many a)
  then obtain us where us: "set us \<subseteq> lang a" "u = concat us" by auto
  from nonempty_parts [OF us(1)] obtain vs where vs: "set vs \<subseteq> lang a" "[] \<notin> set vs" "concat vs = u" "length vs \<le> length u"
    by (auto simp: us(2))
  from star_runs_complete [of "lang a" "runs a", OF Many.IH vs(1,2), of "length (u @ t)" t c] vs(4)
  show ?case by (auto simp: vs(3))
next
  case (Group n a)
  from Group.IH [of u t c] Group.prems obtain c' where "(t, c') \<in> set (runs a (u @ t, c))" by auto
  then show ?case by (force intro!: exI [of _ "(n, u) # c'"] image_eqI [of _ _ "(t, c')"])
qed auto

theorem runs_iff_lang: "(\<exists>c'. (t, c') \<in> set (runs r (s, c))) \<longleftrightarrow> (\<exists>u \<in> lang r. s = u @ t)"
  using runs_sound [of "(t, _)" r "(s, c)"] runs_complete [of _ r t c] by auto

lemma full_match_iff: "full_match r s \<noteq> None \<longleftrightarrow> s \<in> lang r"
proof -
  have "full_match r s \<noteq> None \<longleftrightarrow> (\<exists>c. ([], c) \<in> set (runs r (s, [])))"
    by (auto simp: full_match_def find_None_iff)
  then show ?thesis using runs_iff_lang [of "[]" r s "[]"] by simp
qed

section \<open>Scanning a text\<close>

lemma next_match_parts:
  "next_match r s = Some (skip, (m, c), t) \<Longrightarrow> s = skip @ m @ t \<and> m \<in> lang r \<and> m \<noteq> []"
proof (induction s arbitrary: skip m c t)
  case (Cons x s)
  show ?case
  proof (cases "filter (\<lambda>t. length (fst t) < Suc (length s)) (runs r (x # s, []))")
    case Nil
    with Cons.prems obtain skip' where "skip = x # skip'" "next_match r s = Some (skip', (m, c), t)" by auto
    with Cons.IH show ?thesis by auto
  next
    case (Cons p ps)
    with Cons.prems have p: "skip = []" "m = take (Suc (length s) - length t) (x # s)" "p = (t, c)"
      by (cases p; simp)+
    from Cons have "p \<in> set (filter (\<lambda>t. length (fst t) < Suc (length s)) (runs r (x # s, [])))" by simp
    then have "p \<in> set (runs r (x # s, []))" "length t < Suc (length s)" by (auto simp: p(3))
    with runs_sound [of p r "(x # s, [])"] obtain u where u: "u \<in> lang r" "x # s = u @ t" by (auto simp: p(3))
    then have "Suc (length s) = length u + length t" by (metis length_Cons length_append)
    with u p(2) \<open>length t < Suc (length s)\<close> have "m = u" "u \<noteq> []" by auto
    with u p(1) show ?thesis by simp
  qed
qed simp

text \<open>A match is the leftmost one: none starts in what was skipped.\<close>

lemma next_match_leftmost:
  "next_match r s = Some (skip, m, t) \<Longrightarrow> i < length skip \<Longrightarrow> u \<in> lang r \<Longrightarrow> u \<noteq> [] \<Longrightarrow> \<nexists>v. drop i s = u @ v"
proof (induction s arbitrary: skip m t i)
  case (Cons x s)
  show ?case
  proof (cases "filter (\<lambda>t. length (fst t) < Suc (length s)) (runs r (x # s, []))")
    case Nil
    with Cons.prems obtain skip' where skip: "skip = x # skip'" "next_match r s = Some (skip', m, t)" by auto
    show ?thesis
    proof (cases i)
      case 0
      have "\<nexists>v. x # s = u @ v"
      proof
        assume "\<exists>v. x # s = u @ v"
        then obtain v where v: "x # s = u @ v" by blast
        from runs_complete [OF Cons.prems(3), of v "[]"] obtain c where "(v, c) \<in> set (runs r (x # s, []))" by (auto simp: v)
        moreover have "length v < Suc (length s)" using v Cons.prems(4) by (cases u) auto
        ultimately show False using Nil by (auto simp: filter_empty_conv)
      qed
      with 0 show ?thesis by simp
    next
      case (Suc j)
      with Cons.IH [OF skip(2), of j] Cons.prems(2-4) skip(1) show ?thesis by simp
    qed
  qed (use Cons.prems in \<open>auto split: prod.splits\<close>)
qed simp

lemma next_match_none: "next_match r s = None \<Longrightarrow> u \<in> lang r \<Longrightarrow> u \<noteq> [] \<Longrightarrow> \<nexists>v w. s = v @ u @ w"
proof (induction s)
  case (Cons x s)
  then have none: "filter (\<lambda>t. length (fst t) < Suc (length s)) (runs r (x # s, [])) = []" "next_match r s = None"
    by (auto split: list.splits)
  show ?case
  proof
    assume "\<exists>v w. x # s = v @ u @ w"
    then obtain v w where v: "x # s = v @ u @ w" by blast
    show False
    proof (cases v)
      case Nil
      from runs_complete [OF Cons.prems(2), of w "[]"] obtain c where "(w, c) \<in> set (runs r (x # s, []))" by (auto simp: v Nil)
      moreover have "length w < Suc (length s)" using v Nil Cons.prems(3) by (cases u) auto
      ultimately show False using none(1) by (auto simp: filter_empty_conv)
    next
      case (Cons y v')
      with v have "s = v' @ u @ w" by simp
      with \<open>next_match r s = None\<close> Cons.IH Cons.prems(2,3) show False by blast
    qed
  qed
qed auto

text \<open>Nothing of the text is lost: what is skipped, what matches and the rest make it up.\<close>

lemma find_all_parts:
  "find_all r s = (ms, rest) \<Longrightarrow> concat (map (\<lambda>(skip, m, c). skip @ m) ms) @ rest = s \<and> (\<forall>(skip, m, c) \<in> set ms. m \<in> lang r \<and> m \<noteq> [])"
proof (induction r s arbitrary: ms rest rule: find_all.induct)
  case (1 r s)
  show ?case
  proof (cases "next_match r s")
    case None
    with "1.prems" show ?thesis by (simp add: find_all.simps [of r s])
  next
    case (Some p)
    then obtain skip m c t where p: "next_match r s = Some (skip, (m, c), t)" by (metis prod.exhaust)
    obtain ms' rest' where rec: "find_all r t = (ms', rest')" by (cases "find_all r t")
    with "1.prems" p have ms: "ms = (skip, (m, c)) # ms'" "rest = rest'" by (auto simp: find_all.simps [of r s])
    from "1.IH" [OF p refl refl rec] next_match_parts [OF p] show ?thesis by (auto simp: ms)
  qed
qed

end
