(* ===== verification/Research_Cards.thy ===== *)
theory Research_Cards
  imports Checkpoint_Prefix Go_Regexp
begin

text \<open>
  The claim cards of a Research Run (\<open>internal/agent/research_claims.go\<close>): a \<open>record_claim\<close> Action binds one
  claim to a quote of a Source; its card id is determined by the log, so that a crashed Action gets the
  same id again. A Research tree is the root Run with its subagents. Citing cards in a report is theory
  \<open>Card_Citations\<close>; the check of a quote against the text of its Source is left out.
\<close>

section \<open>Input of an Action\<close>

definition record_claim_action_name :: gostring where "record_claim_action_name = ''record_claim''"

definition claim_record_max_quote :: nat where "claim_record_max_quote = 2000"
definition claim_record_max_claim :: nat where "claim_record_max_claim = 1000"
definition claim_record_max_condit :: nat where "claim_record_max_condit = 500"
definition claim_record_max_question :: int where "claim_record_max_question = 30"

record record_claim_input =
  rci_source :: gostring
  rci_quote :: gostring
  rci_claim :: gostring
  rci_conditions :: gostring
  rci_question :: int
  rci_stance :: gostring

definition claim_fields :: "gostring list" where
  "claim_fields = [''source'', ''quote'', ''claim'', ''conditions'', ''question'', ''stance'']"

fun decode_claim_fields :: "raw \<Rightarrow> record_claim_input option" where
  "decode_claim_fields (Raw (JObj ms)) =
     (case (get_string ''source'' ms, get_string ''quote'' ms, get_string ''claim'' ms, get_string ''conditions'' ms,
            get_int ''question'' ms, get_string ''stance'' ms) of
        (Some s, Some q, Some c, Some d, Some n, Some st) \<Rightarrow>
          Some \<lparr>rci_source = s, rci_quote = q, rci_claim = c, rci_conditions = d, rci_question = n, rci_stance = st\<rparr>
      | _ \<Rightarrow> None)"
| "decode_claim_fields (Raw JNull) =
     Some \<lparr>rci_source = [], rci_quote = [], rci_claim = [], rci_conditions = [], rci_question = 0, rci_stance = []\<rparr>"
| "decode_claim_fields _ = None"

fun only_fields :: "gostring list \<Rightarrow> raw \<Rightarrow> bool" where
  "only_fields names (Raw (JObj ms)) \<longleftrightarrow> known_members names ms"
| "only_fields names _ \<longleftrightarrow> True"

datatype card_error = Invalid_Card_Input | Invalid_Card_Question | Invalid_Card_Stance

definition decode_record_claim_input :: "raw \<Rightarrow> (card_error, record_claim_input) result" where
  "decode_record_claim_input raw =
     (case (if only_fields claim_fields raw then decode_claim_fields raw else None) of
        None \<Rightarrow> Inl Invalid_Card_Input
      | Some i0 \<Rightarrow>
          let i = i0\<lparr>rci_source := trim_space (rci_source i0), rci_quote := trim_space (rci_quote i0),
                     rci_claim := trim_space (rci_claim i0), rci_conditions := trim_space (rci_conditions i0)\<rparr>
          in if rci_source i = [] \<or> length (rci_source i) > 4096 \<or> rci_quote i = [] \<or> rci_claim i = []
                \<or> rune_count (rci_quote i) > claim_record_max_quote \<or> rune_count (rci_claim i) > claim_record_max_claim
                \<or> rune_count (rci_conditions i) > claim_record_max_condit
             then Inl Invalid_Card_Input
             else if rci_question i < 0 \<or> rci_question i > claim_record_max_question then Inl Invalid_Card_Question
             else if rci_stance i \<noteq> [] \<and> rci_stance i \<noteq> ''supports'' \<and> rci_stance i \<noteq> ''contradicts'' \<and> rci_stance i \<noteq> ''qualifies''
             then Inl Invalid_Card_Stance
             else Inr i)"

section \<open>The tree and the ids of its cards\<close>

record claim_run =
  cr_run_id :: gostring
  cr_namespace :: gostring
  cr_prefix :: checkpoint_prefix

type_synonym claim_tree = "claim_run list"

definition tree_run :: "claim_tree \<Rightarrow> gostring \<Rightarrow> claim_run option" where
  "tree_run tree r = find (\<lambda>x. cr_run_id x = r) tree"

definition prefix_actions :: "checkpoint_prefix \<Rightarrow> accepted_action list" where
  "prefix_actions p = concat (map apr_actions (cx_proposals p))"

definition namespaced_id :: "gostring \<Rightarrow> int \<Rightarrow> gostring" where
  "namespaced_id namespace n = (if namespace = [] then ''c'' @ itoa n else namespace @ itoa n)"

fun claim_ordinal :: "int \<Rightarrow> gostring \<Rightarrow> accepted_action list \<Rightarrow> int" where
  "claim_ordinal n action_id [] = n + 1"
| "claim_ordinal n action_id (a # rest) =
     (if aa_name a \<noteq> record_claim_action_name then claim_ordinal n action_id rest
      else if aa_action_id a = action_id then n + 1
      else claim_ordinal (n + 1) action_id rest)"

definition research_claim_id :: "claim_run \<Rightarrow> gostring \<Rightarrow> gostring" where
  "research_claim_id run action_id =
     namespaced_id (cr_namespace run) (claim_ordinal 0 action_id (prefix_actions (cr_prefix run)))"

definition child_claim_letters :: gostring where "child_claim_letters = ''abdefghijklmnopqrstuvwxyz''"

definition claim_namespace :: "int \<Rightarrow> gostring" where
  "claim_namespace child =
     (let letters = int (length child_claim_letters)
      in if child < 0 \<or> child \<ge> letters * (letters + 1) then []
         else if child < letters then [child_claim_letters ! nat child]
         else [child_claim_letters ! nat (child div letters - 1), child_claim_letters ! nat (child mod letters)])"

text \<open>The root has no namespace, the subagents theirs in the order they were spawned.\<close>

definition claim_runs :: "(gostring \<times> checkpoint_prefix) list \<Rightarrow> claim_tree" where
  "claim_runs ps =
     map (\<lambda>(i, (r, p)). \<lparr>cr_run_id = r, cr_namespace = (if i > 0 then claim_namespace (int i - 1) else []), cr_prefix = p\<rparr>)
       (List.enumerate 0 ps)"

section \<open>Recording and collecting\<close>

definition card_letters :: "char \<Rightarrow> bool" where "card_letters c \<longleftrightarrow> lower c \<and> c \<noteq> CHR ''c''"
definition hex_char :: "char \<Rightarrow> bool" where "hex_char c \<longleftrightarrow> decimal c \<or> in_range 97 102 c"
definition ordinal_regex :: regex where "ordinal_regex = Cat (One (\<lambda>c. decimal c \<and> c \<noteq> CHR ''0'')) (Many (One decimal))"
definition hex4_regex :: regex where
  "hex4_regex = Cat (One hex_char) (Cat (One hex_char) (Cat (One hex_char) (One hex_char)))"
definition letters_regex :: regex where "letters_regex = Cat (One card_letters) (opt (One card_letters))"

definition claim_id_regex :: regex where
  "claim_id_regex =
     Cat (Or (Cat (opt (Cat hex4_regex (Lit ''-''))) (Lit ''c'')) letters_regex) ordinal_regex"

definition claim_id_ok :: "gostring \<Rightarrow> bool" where
  "claim_id_ok s \<longleftrightarrow> full_match claim_id_regex s \<noteq> None"

record card_output =
  co_id :: gostring
  co_status :: gostring
  co_source :: gostring
  co_title :: gostring
  co_url :: gostring

fun decode_card_output :: "raw \<Rightarrow> card_output option" where
  "decode_card_output (Raw (JObj ms)) =
     (case (get_string ''id'' ms, get_string ''status'' ms, get_string ''source'' ms, get_string ''title'' ms,
            get_string ''url'' ms, get_string ''nearest_excerpt'' ms, get_string ''note'' ms) of
        (Some i, Some st, Some s, Some t, Some u, Some _, Some _) \<Rightarrow>
          Some \<lparr>co_id = i, co_status = st, co_source = s, co_title = t, co_url = u\<rparr>
      | _ \<Rightarrow> None)"
| "decode_card_output (Raw JNull) = Some \<lparr>co_id = [], co_status = [], co_source = [], co_title = [], co_url = []\<rparr>"
| "decode_card_output _ = None"

record research_claim = card_output +
  rc_quote :: gostring
  rc_claim :: gostring
  rc_conditions :: gostring
  rc_question :: int
  rc_stance :: gostring

text \<open>A Result that an Action got, of one that succeeded.\<close>

definition succeeded_output :: "gostring \<Rightarrow> accepted_action \<Rightarrow> raw option" where
  "succeeded_output name a =
     (if aa_name a \<noteq> name then None
      else case aa_result a of
        None \<Rightarrow> None
      | Some r \<Rightarrow> if ar_status r = action_succeeded then Some (ar_output r) else None)"

definition collect_claim :: "accepted_action \<Rightarrow> research_claim option" where
  "collect_claim a =
     (case succeeded_output record_claim_action_name a of
        None \<Rightarrow> None
      | Some out \<Rightarrow>
          (case (decode_claim_fields (aa_input a), decode_card_output out) of
             (Some i, Some c) \<Rightarrow>
               if claim_id_ok (co_id c)
               then Some \<lparr>co_id = co_id c, co_status = co_status c, co_source = co_source c, co_title = co_title c,
                          co_url = co_url c, rc_quote = trim_space (rci_quote i), rc_claim = trim_space (rci_claim i),
                          rc_conditions = trim_space (rci_conditions i), rc_question = rci_question i, rc_stance = rci_stance i\<rparr>
               else None
           | _ \<Rightarrow> None))"

definition collect_run :: "claim_run \<Rightarrow> research_claim list" where
  "collect_run run = List.map_filter collect_claim (prefix_actions (cr_prefix run))"

definition collect_research_claims :: "claim_tree \<Rightarrow> research_claim list" where
  "collect_research_claims tree = concat (map collect_run tree)"


section \<open>An id is written as one\<close>

lemma itoa_nat_canonical: "1 \<le> n \<Longrightarrow> \<exists>d ds. itoa_nat n = digit d # ds \<and> 1 \<le> d \<and> d < 10 \<and> (\<forall>c \<in> set ds. decimal c)"
proof (induction n rule: itoa_nat.induct)
  case (1 n)
  show ?case
  proof (cases "n < 10")
    case True
    with "1.prems" show ?thesis by (intro exI [of _ n] exI [of _ "[]"]) (simp add: itoa_nat.simps [of n])
  next
    case False
    then have "1 \<le> n div 10" by simp
    from "1.IH" [OF False this] obtain d ds where
      "itoa_nat (n div 10) = digit d # ds" "1 \<le> d" "d < 10" "\<forall>c \<in> set ds. decimal c" by blast
    with False show ?thesis
      by (intro exI [of _ d] exI [of _ "ds @ [digit (n mod 10)]"]) (simp add: itoa_nat.simps [of n] decimal_digit)
  qed
qed

lemma itoa_head:
  assumes "1 \<le> n"
  obtains d ds where "itoa n = digit d # ds" "1 \<le> d" "d < 10" "\<forall>c \<in> set ds. decimal c"
proof -
  from assms have "1 \<le> nat n" "itoa n = itoa_nat (nat n)" by (simp_all add: itoa_def)
  with itoa_nat_canonical [of "nat n"] that show thesis by metis
qed

lemma digit_nonzero: "1 \<le> d \<Longrightarrow> d < 10 \<Longrightarrow> digit d \<noteq> CHR ''0''"
  using byte_digit [of d] by (auto simp: byte_def)

lemma lang_CatI: "u \<in> lang a \<Longrightarrow> v \<in> lang b \<Longrightarrow> u @ v \<in> lang (Cat a b)"
  by auto

lemma lang_ManyI: "\<forall>c \<in> set u. P c \<Longrightarrow> u \<in> lang (Many (One P))"
  by (auto intro!: exI [of _ "map (\<lambda>c. [c]) u"])

lemma ordinal_lang:
  assumes "1 \<le> n"
  shows "itoa n \<in> lang ordinal_regex"
proof -
  from assms obtain d ds where d: "itoa n = digit d # ds" "1 \<le> d" "d < 10" "\<forall>c \<in> set ds. decimal c" by (rule itoa_head)
  have "[digit d] \<in> lang (One (\<lambda>c. decimal c \<and> c \<noteq> CHR ''0''))" using d by (simp add: decimal_digit digit_nonzero)
  from lang_CatI [OF this lang_ManyI [OF d(4)]] show ?thesis by (simp only: ordinal_regex_def d(1) append.simps)
qed

definition namespace_ok :: "gostring \<Rightarrow> bool" where
  "namespace_ok ns \<longleftrightarrow> length ns \<le> 2 \<and> list_all card_letters ns"

lemma namespace_lang: "namespace_ok ns \<Longrightarrow> ns \<noteq> [] \<Longrightarrow> ns \<in> lang letters_regex"
proof -
  assume ns: "namespace_ok ns" "ns \<noteq> []"
  then consider c where "ns = [c]" "card_letters c" | c d where "ns = [c, d]" "card_letters c" "card_letters d"
    by (cases ns; cases "tl ns") (auto simp: namespace_ok_def)
  then show ?thesis
  proof cases
    case 1
    then show ?thesis using lang_CatI [of "[c]" "One card_letters" "[]" "opt (One card_letters)"]
      by (simp add: letters_regex_def opt_def)
  next
    case 2
    then show ?thesis using lang_CatI [of "[c]" "One card_letters" "[d]" "opt (One card_letters)"]
      by (simp add: letters_regex_def opt_def)
  qed
qed

lemma namespaced_id_ok: "namespace_ok ns \<Longrightarrow> 1 \<le> n \<Longrightarrow> claim_id_ok (namespaced_id ns n)"
proof -
  assume ns: "namespace_ok ns" and n: "1 \<le> n"
  have "''c'' \<in> lang (Cat (opt (Cat hex4_regex (Lit ''-''))) (Lit ''c''))"
    using lang_CatI [of "[]" "opt (Cat hex4_regex (Lit ''-''))" "''c''" "Lit ''c''"] by (simp add: opt_def)
  then have head: "(if ns = [] then ''c'' else ns) \<in> lang (Or (Cat (opt (Cat hex4_regex (Lit ''-''))) (Lit ''c'')) letters_regex)"
    using namespace_lang [OF ns] by (simp del: lang.simps(3))
  have "namespaced_id ns n = (if ns = [] then ''c'' else ns) @ itoa n" by (simp add: namespaced_id_def)
  with lang_CatI [OF head ordinal_lang [OF n]] have "namespaced_id ns n \<in> lang claim_id_regex"
    by (simp only: claim_id_regex_def)
  then show ?thesis by (simp only: claim_id_ok_def full_match_iff not_False_eq_True)
qed

lemma lower_not_decimal: "lower c \<Longrightarrow> \<not> decimal c"
  by (simp add: lower_def decimal_def in_range_def)

lemma namespaced_id_letters:
  assumes "namespace_ok ns" and "1 \<le> n"
  shows "takeWhile (\<lambda>c. \<not> decimal c) (namespaced_id ns n) = (if ns = [] then ''c'' else ns)"
proof -
  from assms(2) obtain d ds where "itoa n = digit d # ds" "d < 10" by (rule itoa_head)
  then have stop: "takeWhile (\<lambda>c. \<not> decimal c) (itoa n) = []" by (simp add: decimal_digit)
  have "\<not> decimal c" if "c \<in> set (if ns = [] then ''c'' else ns)" for c
  proof (cases "ns = []")
    case True
    with that have "c = CHR ''c''" by simp
    then show ?thesis using lower_not_decimal [of "CHR ''c''"] by (simp add: lower_def in_range_def byte_def)
  next
    case False
    with that assms(1) show ?thesis by (simp add: namespace_ok_def list_all_iff card_letters_def lower_not_decimal)
  qed
  then have "takeWhile (\<lambda>c. \<not> decimal c) ((if ns = [] then ''c'' else ns) @ itoa n) = (if ns = [] then ''c'' else ns)"
    by (subst takeWhile_append2) (auto simp: stop)
  moreover have "namespaced_id ns n = (if ns = [] then ''c'' else ns) @ itoa n" by (simp add: namespaced_id_def)
  ultimately show ?thesis by (simp only:)
qed

lemma namespaced_id_inject:
  assumes "namespaced_id ns m = namespaced_id ns' n" "namespace_ok ns" "namespace_ok ns'" "1 \<le> m" "1 \<le> n"
  shows "ns = ns' \<and> m = n"
proof -
  from assms have "(if ns = [] then ''c'' else ns) = (if ns' = [] then ''c'' else ns')"
    by (metis namespaced_id_letters)
  moreover have "\<not> card_letters CHR ''c''" by (simp add: card_letters_def)
  ultimately have ns: "ns = ns'" using assms(2,3) by (auto simp: namespace_ok_def split: if_splits)
  with assms(1) show ?thesis by (simp add: namespaced_id_def split: if_splits)
qed

section \<open>The place of an Action in the log\<close>

abbreviation records_claim :: "accepted_action \<Rightarrow> bool" where
  "records_claim a \<equiv> aa_name a = record_claim_action_name"

lemma claim_ordinal_records:
  "claim_ordinal n i as = n + 1 + int (length (takeWhile (\<lambda>a. aa_action_id a \<noteq> i) (filter records_claim as)))"
  by (induction n i as rule: claim_ordinal.induct) auto

lemma claim_ordinal_pos: "1 \<le> claim_ordinal 0 i as"
  by (simp add: claim_ordinal_records)

lemma claim_ordinal_inject:
  assumes "a \<in> set as" "records_claim a" "claim_ordinal 0 (aa_action_id a) as = claim_ordinal 0 i as"
  shows "aa_action_id a = i \<or> (\<forall>b \<in> set as. records_claim b \<longrightarrow> aa_action_id b \<noteq> i)"
proof -
  let ?R = "filter records_claim as"
  let ?k = "\<lambda>i. length (takeWhile (\<lambda>a. aa_action_id a \<noteq> i) ?R)"
  from assms(3) have k: "?k (aa_action_id a) = ?k i" by (simp add: claim_ordinal_records)
  have "?k (aa_action_id a) < length ?R"
  proof -
    from assms(1,2) have "\<not> (\<forall>b \<in> set ?R. aa_action_id b \<noteq> aa_action_id a)" by auto
    then have "takeWhile (\<lambda>b. aa_action_id b \<noteq> aa_action_id a) ?R \<noteq> ?R" by (simp only: takeWhile_eq_all_conv) blast
    then show ?thesis by (metis length_takeWhile_le nat_less_le takeWhile_eq_take take_all_iff)
  qed
  with k have "\<not> aa_action_id (?R ! ?k i) \<noteq> i" "\<not> aa_action_id (?R ! ?k (aa_action_id a)) \<noteq> aa_action_id a"
    using nth_length_takeWhile [of "\<lambda>a. aa_action_id a \<noteq> i" ?R]
      nth_length_takeWhile [of "\<lambda>b. aa_action_id b \<noteq> aa_action_id a" ?R] by simp_all
  with k show ?thesis by simp
qed

lemma claim_ordinal_append:
  assumes "a \<in> set as" "records_claim a" "aa_action_id a = i"
  shows "claim_ordinal n i (as @ bs) = claim_ordinal n i as"
proof -
  from assms have "a \<in> set (filter records_claim as)" by simp
  then have "takeWhile (\<lambda>b. aa_action_id b \<noteq> i) (filter records_claim as @ filter records_claim bs)
      = takeWhile (\<lambda>b. aa_action_id b \<noteq> i) (filter records_claim as)"
    using assms(3) by (intro takeWhile_append1) auto
  then show ?thesis by (simp add: claim_ordinal_records)
qed

lemma claim_ordinal_cong:
  "map (\<lambda>a. (aa_action_id a, aa_name a)) as = map (\<lambda>a. (aa_action_id a, aa_name a)) bs
   \<Longrightarrow> claim_ordinal n i as = claim_ordinal n i bs"
proof (induction n i as arbitrary: bs rule: claim_ordinal.induct)
  case (2 n i a rest)
  then obtain b bs' where "bs = b # bs'" "aa_action_id a = aa_action_id b" "aa_name a = aa_name b"
    "map (\<lambda>a. (aa_action_id a, aa_name a)) rest = map (\<lambda>a. (aa_action_id a, aa_name a)) bs'" by (cases bs) auto
  with 2 show ?case by simp
qed simp

text \<open>A row that is appended adds Actions or Results; the Actions that were there keep id and name.\<close>

definition action_heads :: "checkpoint_prefix \<Rightarrow> (gostring \<times> gostring) list" where
  "action_heads p = map (\<lambda>a. (aa_action_id a, aa_name a)) (prefix_actions p)"

lemma set_result_heads:
  "i < length (apr_actions p) \<Longrightarrow>
   map (\<lambda>a. (aa_action_id a, aa_name a)) (apr_actions (set_result p i r)) = map (\<lambda>a. (aa_action_id a, aa_name a)) (apr_actions p)"
  by (rule nth_equalityI) (auto simp: set_result_def nth_list_update)

lemma load_kind_heads: "load_kind s c = Inr t \<Longrightarrow> \<exists>new. action_heads (ls_prefix t) = action_heads (ls_prefix s) @ new"
proof (cases "pc_kind c")
  case Action_Proposal
  assume "load_kind s c = Inr t"
  then show ?thesis
    by (auto simp: Action_Proposal load_kind_def load_proposal_def Let_def action_heads_def prefix_actions_def
        split: if_splits option.splits)
next
  case Action_Result
  assume "load_kind s c = Inr t"
  then have run: "load_result s c = Inr t" by (simp add: load_kind_def Action_Result)
  from run obtain k r where k: "0 \<le> k" "k < int (length (apr_actions (last (cx_proposals (ls_prefix s)))))"
    and ne: "cx_proposals (ls_prefix s) \<noteq> []"
    and t: "t = s\<lparr>ls_prefix := (ls_prefix s)\<lparr>cx_proposals := butlast (cx_proposals (ls_prefix s))
              @ [set_result (last (cx_proposals (ls_prefix s))) (nat k) r]\<rparr>\<rparr>"
    by (auto simp: load_result_def Let_def not_less split: if_splits option.splits)
  from k have i: "nat k < length (apr_actions (last (cx_proposals (ls_prefix s))))" by simp
  let ?ps = "cx_proposals (ls_prefix s)"
  have "action_heads (ls_prefix s) = concat (map (\<lambda>p. map (\<lambda>a. (aa_action_id a, aa_name a)) (apr_actions p)) (butlast ?ps @ [last ?ps]))"
    unfolding append_butlast_last_id [OF ne] by (simp add: action_heads_def prefix_actions_def map_concat comp_def)
  then have "action_heads (ls_prefix t) = action_heads (ls_prefix s)"
    unfolding t by (simp add: action_heads_def prefix_actions_def map_concat comp_def set_result_heads [OF i])
  then show ?thesis by simp
qed (auto simp: load_kind_def load_final_def load_steering_def Let_def action_heads_def prefix_actions_def
    split: if_splits option.splits)

lemma load_step_heads: "load_step s c = Inr t \<Longrightarrow> \<exists>new. action_heads (ls_prefix t) = action_heads (ls_prefix s) @ new"
  by (auto simp: load_step_def result_simps dest!: load_kind_heads split: if_splits)

lemma fold_load_heads: "fold_result load_step s cs = Inr t \<Longrightarrow> \<exists>new. action_heads (ls_prefix t) = action_heads (ls_prefix s) @ new"
proof (induction cs arbitrary: s)
  case (Cons c cs)
  then obtain u where "load_step s c = Inr u" "fold_result load_step u cs = Inr t" by (auto simp: result_simps)
  with Cons.IH [of u] load_step_heads show ?case by fastforce
qed simp

lemma itoa_no_slash: "c \<in> set (itoa n) \<Longrightarrow> c \<noteq> CHR ''/''"
proof
  assume "c \<in> set (itoa n)" "c = CHR ''/''"
  then have "\<exists>d<10. CHR ''/'' = digit d" using itoa_nat_digits by (fastforce simp: itoa_def split: if_splits)
  then obtain d where "d < 10" "byte (CHR ''/'') = byte (digit d)" by metis
  then show False by (simp add: byte_def [of "CHR ''/''"])
qed

lemma action_key_inject: "action_key n i = action_key m j \<longleftrightarrow> n = m \<and> i = j"
proof
  have number: "takeWhile (\<lambda>c. c \<noteq> CHR ''/'') (itoa k @ ''/action:'' @ x) = itoa k" for k x
    using itoa_no_slash [of _ k] by (subst takeWhile_append2) auto
  assume "action_key n i = action_key m j"
  then have eq: "itoa n @ ''/action:'' @ itoa i = itoa m @ ''/action:'' @ itoa j" by (simp add: action_key_def)
  with number have "itoa n = itoa m" by metis
  with eq show "n = m \<and> i = j" by simp
qed simp

lemma prefix_action_unique:
  assumes wf: "prefix_wf p" and a: "a \<in> set (prefix_actions p)" and b: "b \<in> set (prefix_actions p)"
    and id: "aa_action_id a = aa_action_id b"
  shows "a = b"
proof -
  let ?ps = "cx_proposals p"
  have key: "\<exists>q \<in> set ?ps. \<exists>i < length (apr_actions q). x = apr_actions q ! i \<and> aa_action_id x = action_key (apr_decision_no q) (int i)"
    if "x \<in> set (prefix_actions p)" for x
  proof -
    from that obtain q i where q: "q \<in> set ?ps" "i < length (apr_actions q)" "x = apr_actions q ! i"
      by (auto simp: prefix_actions_def in_set_conv_nth)
    with wf show ?thesis by (auto simp: prefix_wf_def list_all_iff proposal_wf_def action_wf_def)
  qed
  from key [OF a] obtain q i where q: "q \<in> set ?ps" "a = apr_actions q ! i" "aa_action_id a = action_key (apr_decision_no q) (int i)" by blast
  from key [OF b] obtain r j where r: "r \<in> set ?ps" "b = apr_actions r ! j" "aa_action_id b = action_key (apr_decision_no r) (int j)" by blast
  from id q(3) r(3) have same: "apr_decision_no q = apr_decision_no r" "i = j" by (simp_all add: action_key_inject)
  have "map apr_decision_no ?ps = map int [1..<Suc (length ?ps)]" using wf by (simp add: prefix_wf_def del: upt_Suc)
  then have "distinct (map apr_decision_no ?ps)" by (simp add: distinct_map del: upt_Suc)
  with q(1) r(1) same(1) have "q = r" by (auto simp: distinct_map inj_on_def)
  with q(2) r(2) same(2) show ?thesis by simp
qed

section \<open>Namespaces of a tree\<close>

definition max_claim_runs :: nat where "max_claim_runs = 651"

lemma child_letters: "i < 25 \<Longrightarrow> card_letters (child_claim_letters ! i)"
proof -
  have "list_all card_letters child_claim_letters" by (simp add: child_claim_letters_def card_letters_def lower_def in_range_def byte_def)
  moreover assume "i < 25"
  moreover have "length child_claim_letters = 25" by (simp add: child_claim_letters_def)
  ultimately show ?thesis by (simp add: list_all_length)
qed

lemma child_letters_inject: "i < 25 \<Longrightarrow> j < 25 \<Longrightarrow> child_claim_letters ! i = child_claim_letters ! j \<longleftrightarrow> i = j"
  by (rule nth_eq_iff_index_eq) (simp_all add: child_claim_letters_def)

lemma claim_namespace_ok:
  assumes "0 \<le> i" "i < 650"
  shows "namespace_ok (claim_namespace i) \<and> claim_namespace i \<noteq> []"
proof -
  have "nat (i div 25 - 1) < 25" "nat (i mod 25) < 25" using assms by auto
  then have "card_letters (child_claim_letters ! nat (i div 25 - 1))" "card_letters (child_claim_letters ! nat (i mod 25))"
    by (auto intro: child_letters)
  moreover have "i < 25 \<Longrightarrow> card_letters (child_claim_letters ! nat i)" using assms by (auto intro: child_letters)
  moreover have "int (length child_claim_letters) = 25" by (simp add: child_claim_letters_def)
  ultimately show ?thesis using assms by (simp add: claim_namespace_def namespace_ok_def Let_def)
qed

lemma later_letters: "25 \<le> (i :: int) \<Longrightarrow> 0 \<le> i div 25 - 1 \<and> 0 \<le> i mod 25"
  by presburger

lemma claim_namespace_inject:
  assumes "0 \<le> i" "i < 650" "0 \<le> j" "j < 650" "claim_namespace i = claim_namespace j"
  shows "i = j"
proof -
  have len: "int (length child_claim_letters) = 25" by (simp add: child_claim_letters_def)
  have ns: "claim_namespace k = (if k < 25 then [child_claim_letters ! nat k]
      else [child_claim_letters ! nat (k div 25 - 1), child_claim_letters ! nat (k mod 25)])" if "0 \<le> k" "k < 650" for k
    using that by (simp add: claim_namespace_def Let_def len)
  consider "i < 25" "j < 25" | "25 \<le> i" "25 \<le> j" using assms(5) ns [OF assms(1,2)] ns [OF assms(3,4)]
    by (auto simp: not_less [symmetric] split: if_splits)
  then show ?thesis
  proof cases
    case 1
    with assms ns [OF assms(1,2)] ns [OF assms(3,4)] show ?thesis by (simp add: child_letters_inject)
  next
    case 2
    have bounds: "nat (i div 25 - 1) < 25" "nat (i mod 25) < 25" "nat (j div 25 - 1) < 25" "nat (j mod 25) < 25"
      using assms by auto
    from 2 assms(5) ns [OF assms(1,2)] ns [OF assms(3,4)] have
      "child_claim_letters ! nat (i div 25 - 1) = child_claim_letters ! nat (j div 25 - 1)"
      "child_claim_letters ! nat (i mod 25) = child_claim_letters ! nat (j mod 25)" by simp_all
    with bounds have "nat (i div 25 - 1) = nat (j div 25 - 1)" "nat (i mod 25) = nat (j mod 25)"
      by (simp_all only: child_letters_inject)
    then have "i div 25 - 1 = j div 25 - 1" "i mod 25 = j mod 25"
      using later_letters [OF 2(1)] later_letters [OF 2(2)] by (simp_all only: eq_nat_nat_iff)
    then have "i div 25 = j div 25" "i mod 25 = j mod 25" by simp_all
    then show ?thesis by (metis div_mult_mod_eq)
  qed
qed

definition loaded :: "checkpoint_prefix \<Rightarrow> bool" where
  "loaded p \<longleftrightarrow> (\<exists>cs. load_checkpoint_prefix cs = Inr p)"

lemma loaded_wf: "loaded p \<Longrightarrow> prefix_wf p"
  by (auto simp: loaded_def load_prefix_state load_inv_def dest!: load_run_inv)

lemma claim_runs_nth:
  "i < length ps \<Longrightarrow> claim_runs ps ! i =
     \<lparr>cr_run_id = fst (ps ! i), cr_namespace = (if i > 0 then claim_namespace (int i - 1) else []), cr_prefix = snd (ps ! i)\<rparr>"
  by (simp add: claim_runs_def nth_enumerate_eq split: prod.splits)

lemma length_claim_runs [simp]: "length (claim_runs ps) = length ps"
  by (simp add: claim_runs_def)

lemma claim_runs_namespace_ok: "i < length ps \<Longrightarrow> length ps \<le> max_claim_runs \<Longrightarrow> namespace_ok (cr_namespace (claim_runs ps ! i))"
proof (cases "i = 0")
  case False
  assume "i < length ps" "length ps \<le> max_claim_runs"
  then have "0 \<le> int i - 1" "int i - 1 < 650" using False by (auto simp: max_claim_runs_def)
  with \<open>i < length ps\<close> show ?thesis using claim_namespace_ok False by (simp add: claim_runs_nth)
qed (simp add: claim_runs_nth namespace_ok_def)

lemma claim_runs_namespace_inject:
  assumes "i < length ps" "j < length ps" "length ps \<le> max_claim_runs"
    and "cr_namespace (claim_runs ps ! i) = cr_namespace (claim_runs ps ! j)"
  shows "i = j"
proof -
  have child: "claim_namespace (int k - 1) \<noteq> []" if "k < length ps" "k > 0" for k
  proof -
    have "0 \<le> int k - 1" "int k - 1 < 650" using that assms(3) by (auto simp: max_claim_runs_def)
    then show ?thesis using claim_namespace_ok by blast
  qed
  show ?thesis
  proof (cases "i > 0 \<and> j > 0")
    case True
    then have b: "0 \<le> int i - 1" "int i - 1 < 650" "0 \<le> int j - 1" "int j - 1 < 650"
      using assms(1-3) by (auto simp: max_claim_runs_def)
    have "claim_namespace (int i - 1) = claim_namespace (int j - 1)"
      using assms True by (simp add: claim_runs_nth)
    with claim_namespace_inject [OF b] show ?thesis by simp
  next
    case False
    with assms child [of i] child [of j] show ?thesis by (auto simp: claim_runs_nth split: if_splits)
  qed
qed

section \<open>A sample\<close>

definition sample_claim :: "action_proposal list" where
  "sample_claim = [\<lparr>ap_name = record_claim_action_name, ap_input = Raw (JObj [(''source'', JStr ''x'')])\<rparr>]"

lemma sample_claim_checkpoint: "\<exists>c. new_proposal_checkpoint 1 sample_claim = Inr c"
  by (simp add: new_proposal_checkpoint_def sample_claim_def record_claim_action_name_def action_name_ok_def go_eval Let_def)

lemma sample_claim_loads:
  "\<exists>c p. new_proposal_checkpoint 1 sample_claim = Inr c
     \<and> load_checkpoint_prefix [\<lparr>cp_sequence_no = 1, cp_pending = c\<rparr>] = Inr p \<and> cx_proposals p = [proposal_of 1 sample_claim]"
proof -
  obtain c where c: "new_proposal_checkpoint 1 sample_claim = Inr c" using sample_claim_checkpoint by blast
  have "load_run [] = Inr load_start" by (simp add: load_run_def)
  moreover have "\<exists>s. load_kind load_start c = Inr s \<and> cx_proposals (ls_prefix s) = [proposal_of 1 sample_claim]"
    using load_new_proposal [of load_start sample_claim c] c
    by (simp add: load_start_def empty_prefix_def has_incomplete_proposal_def)
  ultimately have "\<exists>p. load_checkpoint_prefix [\<lparr>cp_sequence_no = 1, cp_pending = c\<rparr>] = Inr p
      \<and> cx_proposals p = [proposal_of 1 sample_claim]"
    using load_run_snoc [of "[]"] by (auto simp: load_prefix_state load_step_def load_start_def)
  with c show ?thesis by blast
qed

lemma sample_claim_action:
  "prefix_actions p = apr_actions (proposal_of 1 sample_claim) \<Longrightarrow> \<exists>a. prefix_actions p = [a] \<and> records_claim a"
  by (auto simp: proposal_of_def sample_claim_def)

section \<open>Properties\<close>

text \<open>
  C14: card ids never clash in a Research tree, and each is a well-formed id. Two record_claim Actions of
  the Runs of one tree (the root and at most 650 subagents, each with a log that loads) get the same card
  id only if they are the same Action of the same Run.
\<close>

theorem card_ids_never_clash:
  assumes "length ps \<le> max_claim_runs" and "\<forall>(r, p) \<in> set ps. loaded p"
    and "i < length ps" and "a \<in> set (prefix_actions (snd (ps ! i)))" and "records_claim a"
    and "j < length ps" and "b \<in> set (prefix_actions (snd (ps ! j)))" and "records_claim b"
    and "research_claim_id (claim_runs ps ! i) (aa_action_id a) = research_claim_id (claim_runs ps ! j) (aa_action_id b)"
  shows "i = j \<and> a = b \<and> claim_id_ok (research_claim_id (claim_runs ps ! i) (aa_action_id a))"
proof -
  let ?o = "\<lambda>i a. claim_ordinal 0 (aa_action_id a) (prefix_actions (snd (ps ! i)))"
  have ns: "namespace_ok (cr_namespace (claim_runs ps ! i))" "namespace_ok (cr_namespace (claim_runs ps ! j))"
    using assms by (simp_all add: claim_runs_namespace_ok)
  have id: "research_claim_id (claim_runs ps ! k) (aa_action_id x) = namespaced_id (cr_namespace (claim_runs ps ! k)) (?o k x)"
    if "k < length ps" for k x
    using that by (simp add: research_claim_id_def claim_runs_nth)
  from assms(9) id [OF assms(3)] id [OF assms(6)] namespaced_id_inject [OF _ ns claim_ordinal_pos claim_ordinal_pos]
  have same: "cr_namespace (claim_runs ps ! i) = cr_namespace (claim_runs ps ! j)" "?o i a = ?o j b" by metis+
  with assms have ij: "i = j" by (blast intro: claim_runs_namespace_inject)
  have "aa_action_id a = aa_action_id b"
    using claim_ordinal_inject [OF assms(4,5) same(2) [folded ij]] assms(7,8) ij by blast
  moreover have "prefix_wf (snd (ps ! i))" using assms(2,3) by (fastforce intro: loaded_wf dest: nth_mem)
  ultimately have "a = b" using prefix_action_unique assms(4,7) ij by blast
  moreover have "claim_id_ok (research_claim_id (claim_runs ps ! i) (aa_action_id a))"
    unfolding id [OF assms(3)] by (rule namespaced_id_ok [OF ns(1) claim_ordinal_pos])
  ultimately show ?thesis using ij by blast
qed

theorem card_ids_never_clash_witness:
  "\<exists>p a. let ps = [(''r1'', p), (''r2'', p)] in loaded p \<and> a \<in> set (prefix_actions p)
     \<and> research_claim_id (claim_runs ps ! 1) (aa_action_id a) = ''a1''
     \<and> claim_id_ok (research_claim_id (claim_runs ps ! 1) (aa_action_id a))"
proof -
  obtain c p where load: "load_checkpoint_prefix [\<lparr>cp_sequence_no = 1, cp_pending = c\<rparr>] = Inr p"
    and ps: "cx_proposals p = [proposal_of 1 sample_claim]" using sample_claim_loads by blast
  obtain a where a: "prefix_actions p = [a]" "records_claim a"
    using sample_claim_action [of p] ps by (auto simp: prefix_actions_def)
  have one: "itoa 1 = ''1''" by code_simp
  have "loaded p" using load by (auto simp: loaded_def)
  with card_ids_never_clash [of "[(''r1'', p), (''r2'', p)]" 1 a 1 a] a
  have "claim_id_ok (research_claim_id (claim_runs [(''r1'', p), (''r2'', p)] ! 1) (aa_action_id a))"
    by (simp add: max_claim_runs_def)
  moreover have "research_claim_id (claim_runs [(''r1'', p), (''r2'', p)] ! 1) (aa_action_id a) = ''a1''"
    using a claim_runs_nth [of 1 "[(''r1'', p), (''r2'', p)]"]
    by (simp add: research_claim_id_def namespaced_id_def claim_namespace_def child_claim_letters_def one [simplified])
  ultimately show ?thesis using \<open>loaded p\<close> a(1) by (auto simp: Let_def simp del: One_nat_def intro!: exI [of _ p] exI [of _ a])
qed

text \<open>
  C38: a card id survives crashes and replays. The id that an accepted record_claim Action has in a log is
  the id it has in every log that continues it, whatever rows were appended since.
\<close>

theorem card_id_survives_replay:
  assumes "load_checkpoint_prefix cs = Inr p" and "load_checkpoint_prefix (cs @ ds) = Inr q"
    and "a \<in> set (prefix_actions p)" and "records_claim a"
  shows "research_claim_id (r\<lparr>cr_prefix := q\<rparr>) (aa_action_id a) = research_claim_id (r\<lparr>cr_prefix := p\<rparr>) (aa_action_id a)"
proof -
  from assms(1,2) obtain s t where s: "load_run cs = Inr s" "ls_prefix s = p" and t: "fold_result load_step s ds = Inr t" "ls_prefix t = q"
    by (auto simp: load_prefix_state load_run_def fold_result_append result_simps)
  from fold_load_heads [OF t(1)] s(2) t(2) obtain new where new: "action_heads q = action_heads p @ new" by auto
  let ?k = "length (prefix_actions p)"
  have "length (action_heads p) = ?k" by (simp add: action_heads_def)
  with new have "action_heads p = take ?k (action_heads q)" by simp
  then have same: "map (\<lambda>a. (aa_action_id a, aa_name a)) (prefix_actions p) = map (\<lambda>a. (aa_action_id a, aa_name a)) (take ?k (prefix_actions q))"
    by (simp only: action_heads_def take_map)
  from assms(3) have "(aa_action_id a, aa_name a) \<in> set (map (\<lambda>a. (aa_action_id a, aa_name a)) (take ?k (prefix_actions q)))"
    unfolding same [symmetric] by auto
  then obtain b where b: "b \<in> set (take ?k (prefix_actions q))" "records_claim b" "aa_action_id b = aa_action_id a"
    using assms(4) by auto
  have "claim_ordinal 0 (aa_action_id a) (prefix_actions q)
      = claim_ordinal 0 (aa_action_id a) (take ?k (prefix_actions q) @ drop ?k (prefix_actions q))" by simp
  also have "\<dots> = claim_ordinal 0 (aa_action_id a) (take ?k (prefix_actions q))" by (rule claim_ordinal_append [OF b])
  also have "\<dots> = claim_ordinal 0 (aa_action_id a) (prefix_actions p)" by (rule claim_ordinal_cong [OF same, symmetric])
  finally show ?thesis by (simp add: research_claim_id_def)
qed

theorem card_id_survives_replay_witness:
  "\<exists>c p q a. load_checkpoint_prefix [c] = Inr p \<and> load_checkpoint_prefix ([c] @ []) = Inr q \<and> a \<in> set (prefix_actions p)
     \<and> research_claim_id \<lparr>cr_run_id = ''r'', cr_namespace = [], cr_prefix = q\<rparr> (aa_action_id a)
       = research_claim_id \<lparr>cr_run_id = ''r'', cr_namespace = [], cr_prefix = p\<rparr> (aa_action_id a)"
proof -
  obtain c p where load: "load_checkpoint_prefix [\<lparr>cp_sequence_no = 1, cp_pending = c\<rparr>] = Inr p"
    and ps: "cx_proposals p = [proposal_of 1 sample_claim]" using sample_claim_loads by blast
  obtain a where a: "prefix_actions p = [a]" "records_claim a"
    using sample_claim_action [of p] ps by (auto simp: prefix_actions_def)
  from card_id_survives_replay [OF load _ _ a(2), of "[]" p "\<lparr>cr_run_id = ''r'', cr_namespace = [], cr_prefix = p\<rparr>"] load a(1)
  show ?thesis by (intro exI [of _ "\<lparr>cp_sequence_no = 1, cp_pending = c\<rparr>"] exI [of _ p] exI [of _ a]) simp
qed

end
