(* ===== verification/Card_Citations.thy ===== *)
theory Card_Citations
  imports Research_Cards "HOL-Library.Word"
begin

text \<open>
  Claim cards cited in a report (\<open>internal/agent/research_claims.go\<close>): \<open>[c3]\<close>, \<open>[b1, c3]\<close> or a range
  \<open>[c3-c5]\<close> cites cards, and publication turns each citation into numbered links, one number per
  distinct source. The loop that lists the cards of a range counts with a 64-bit \<open>int\<close> and, at the
  largest one, never ends: it is a \<open>partial_function (option)\<close>, \<open>None\<close> is not returning, and what lists
  cited cards carries that.
\<close>

section \<open>Citations in prose\<close>

definition re_space :: "char \<Rightarrow> bool" where "re_space c \<longleftrightarrow> byte c \<in> {9, 10, 12, 13, 32}"

definition spaces_regex :: regex where "spaces_regex = Many (One re_space)"

definition en_dash :: gostring where "en_dash = map char_of [226, 128, 147 :: nat]"
definition em_dash :: gostring where "em_dash = map char_of [226, 128, 148 :: nat]"
definition wide_comma :: gostring where "wide_comma = map char_of [239, 188, 140 :: nat]"
definition wide_semicolon :: gostring where "wide_semicolon = map char_of [239, 188, 155 :: nat]"
definition enumeration_comma :: gostring where "enumeration_comma = map char_of [227, 128, 129 :: nat]"

definition dash_regex :: regex where
  "dash_regex = Or (Lit ''-'') (Or (Lit en_dash) (Or (Lit em_dash) (Lit ''~'')))"

definition comma_regex :: regex where
  "comma_regex = Or (Lit '','') (Or (Lit wide_comma) (Or (Lit '';'') (Or (Lit wide_semicolon) (Lit enumeration_comma))))"

definition split_regex :: regex where
  "split_regex = Cat spaces_regex (Cat comma_regex spaces_regex)"

definition range_namespace_regex :: regex where
  "range_namespace_regex = Or letters_regex (Lit ''c'')"

definition citation_element :: regex where
  "citation_element =
     Or (Cat range_namespace_regex (Cat ordinal_regex (Cat spaces_regex (Cat dash_regex (Cat spaces_regex
           (Cat (opt range_namespace_regex) ordinal_regex))))))
     (Or (Cat letters_regex ordinal_regex)
         (Cat (opt (Cat (opt (Lit ''c'')) (Cat hex4_regex (opt (Lit ''-''))))) (Cat (Lit ''c'') ordinal_regex)))"

definition citation_regex :: regex where
  "citation_regex = Cat (Lit ''['') (Cat (Group 1 (Cat citation_element (Many (Cat split_regex citation_element)))) (Lit '']''))"

definition range_regex :: regex where
  "range_regex = Cat (Group 1 range_namespace_regex) (Cat (Group 2 ordinal_regex) (Cat spaces_regex (Cat dash_regex (Cat spaces_regex
     (Cat (opt range_namespace_regex) (Group 3 ordinal_regex))))))"

definition variant_regex :: regex where
  "variant_regex = Cat (opt (Lit ''c'')) (Cat (Group 1 hex4_regex) (Cat (opt (Lit ''-'')) (Cat (Lit ''c'') (Group 2 ordinal_regex))))"

definition canonical_claim_id :: "gostring \<Rightarrow> gostring" where
  "canonical_claim_id s =
     (case full_match variant_regex s of Some m \<Rightarrow> group 1 m @ ''-c'' @ group 2 m | None \<Rightarrow> s)"

section \<open>Ranges\<close>

definition max_int :: int where "max_int = 2 ^ 63 - 1"

text \<open>\<open>strconv.Atoi\<close> of digits, its error ignored: a number that is too large reads as the largest one.\<close>

definition atoi_clamped :: "gostring \<Rightarrow> int" where
  "atoi_clamped s = (case read_digits 0 s of Some n \<Rightarrow> min (int n) max_int | None \<Rightarrow> 0)"

partial_function (option) range_loop :: "gostring \<Rightarrow> 64 word \<Rightarrow> 64 word \<Rightarrow> gostring list option" where
  "range_loop namespace n to =
     (if word_sle n to
      then Option.bind (range_loop namespace (n + 1) to) (\<lambda>ids. Some (namespaced_id namespace (sint n) # ids))
      else Some [])"

declare range_loop.simps [code]

definition research_claim_max_range :: int where "research_claim_max_range = 30"

definition cited_range :: "gostring \<Rightarrow> (gostring \<times> int \<times> int) option" where
  "cited_range part =
     (case full_match range_regex (trim_space part) of
        None \<Rightarrow> None
      | Some m \<Rightarrow>
          let from = atoi_clamped (group 2 m); to = atoi_clamped (group 3 m)
          in if to \<ge> from \<and> to - from < research_claim_max_range
             then Some (if group 1 m = ''c'' then [] else group 1 m, from, to) else None)"

definition cited_part :: "gostring \<Rightarrow> gostring list option" where
  "cited_part part =
     (case cited_range part of
        Some (namespace, from, to) \<Rightarrow> range_loop namespace (word_of_int from) (word_of_int to)
      | None \<Rightarrow> Some [canonical_claim_id part])"

definition concat_options :: "'a list option list \<Rightarrow> 'a list option" where
  "concat_options xs = map_option concat (those xs)"

definition cited_claim_ids :: "gostring \<Rightarrow> gostring list option" where
  "cited_claim_ids xs = concat_options (map cited_part (split_all split_regex xs))"

definition cited_in :: "gostring \<Rightarrow> gostring list option" where
  "cited_in report = concat_options (map (\<lambda>(m, c). cited_claim_ids (group 1 c)) (all_matches citation_regex report))"

definition cited_research_claim_ids :: "gostring \<Rightarrow> research_claim list \<Rightarrow> gostring list option" where
  "cited_research_claim_ids report claims =
     map_option (filter (\<lambda>i. i \<in> co_id ` set claims)) (cited_in report)"

section \<open>Rendering\<close>

definition first_non_empty :: "gostring list \<Rightarrow> gostring" where
  "first_non_empty vs = (case find (\<lambda>v. trim_space v \<noteq> []) vs of Some v \<Rightarrow> v | None \<Rightarrow> [])"

text \<open>The last card of an id counts.\<close>

definition claim_by_id :: "research_claim list \<Rightarrow> gostring \<Rightarrow> research_claim option" where
  "claim_by_id claims i = find (\<lambda>c. co_id c = i) (rev claims)"

record citation_stats =
  st_cited :: nat
  st_unknown :: "gostring list"

record render_state =
  rs_stats :: citation_stats
  rs_numbers :: "(gostring \<times> nat) list"

definition source_key :: "research_claim \<Rightarrow> gostring" where
  "source_key c = (if co_url c = [] then ''source:'' @ co_source c else co_url c)"

definition link_text :: "research_claim \<Rightarrow> nat \<Rightarrow> gostring" where
  "link_text c n =
     (if co_url c = [] then ''['' @ first_non_empty [co_title c, co_source c] @ '']''
      else ''['' @ itoa (int n) @ ''](''  @ co_url c @ '')'')"

fun render_ids :: "research_claim list \<Rightarrow> gostring list \<Rightarrow> render_state \<Rightarrow> gostring list \<Rightarrow> gostring \<times> render_state" where
  "render_ids claims seen s [] = ([], s)"
| "render_ids claims seen s (i # ids) =
     (case claim_by_id claims i of
        None \<Rightarrow> render_ids claims seen (s\<lparr>rs_stats := (rs_stats s)\<lparr>st_unknown := st_unknown (rs_stats s) @ [i]\<rparr>\<rparr>) ids
      | Some c \<Rightarrow>
          let s1 = s\<lparr>rs_stats := (rs_stats s)\<lparr>st_cited := st_cited (rs_stats s) + 1\<rparr>\<rparr>; key = source_key c
          in if key \<in> set seen then render_ids claims seen s1 ids
             else (case map_of (rs_numbers s1) key of
                 Some n \<Rightarrow> (case render_ids claims (key # seen) s1 ids of (t, s') \<Rightarrow> (link_text c n @ t, s'))
               | None \<Rightarrow>
                   let n = length (rs_numbers s1) + 1
                   in (case render_ids claims (key # seen) (s1\<lparr>rs_numbers := (key, n) # rs_numbers s1\<rparr>) ids of
                         (t, s') \<Rightarrow> (link_text c n @ t, s'))))"

definition following :: "(gostring \<times> gostring \<times> captures) list \<Rightarrow> gostring \<Rightarrow> gostring" where
  "following ms rest = concat (map (\<lambda>(skip, m, c). skip @ m) ms) @ rest"

text \<open>A citation that a parenthesis follows is a link already and stays.\<close>

fun render_matches ::
  "research_claim list \<Rightarrow> render_state \<Rightarrow> (gostring \<times> gostring \<times> captures) list \<Rightarrow> gostring \<Rightarrow> (gostring \<times> render_state) option" where
  "render_matches claims s [] rest = Some (rest, s)"
| "render_matches claims s ((skip, m, c) # ms) rest =
     (if take 1 (following ms rest) = ''('' then
        Option.bind (render_matches claims s ms rest) (\<lambda>(t, s'). Some (skip @ m @ t, s'))
      else Option.bind (cited_claim_ids (group 1 c)) (\<lambda>ids.
        case render_ids claims [] s ids of (links, s1) \<Rightarrow>
          Option.bind (render_matches claims s1 ms rest) (\<lambda>(t, s'). Some (skip @ links @ t, s'))))"

definition rendered_link_regex :: regex where
  "rendered_link_regex = Cat (Lit ''['') (Cat (one_or_more (One decimal)) (Cat (Lit '']('' )
     (Cat (one_or_more (One (\<lambda>c. c \<noteq> CHR '')'' \<and> \<not> re_space c))) (Lit '')''))))"

text \<open>Of adjacent equal links one is kept; \<open>previous\<close> is the last link, if nothing has followed it yet.\<close>

fun collapse_links :: "gostring option \<Rightarrow> (gostring \<times> gostring \<times> captures) list \<Rightarrow> gostring" where
  "collapse_links previous [] = []"
| "collapse_links previous ((skip, m, c) # ms) =
     (if skip = [] \<and> previous = Some m then collapse_links previous ms else skip @ m @ collapse_links (Some m) ms)"

definition collapse_repeated_citation_links :: "gostring \<Rightarrow> gostring" where
  "collapse_repeated_citation_links xs =
     (case find_all rendered_link_regex xs of (ms, rest) \<Rightarrow> collapse_links None ms @ rest)"

definition empty_render :: render_state where
  "empty_render = \<lparr>rs_stats = \<lparr>st_cited = 0, st_unknown = []\<rparr>, rs_numbers = []\<rparr>"

definition render_research_claim_citations ::
  "gostring \<Rightarrow> research_claim list \<Rightarrow> (gostring \<times> citation_stats) option" where
  "render_research_claim_citations report claims =
     (case find_all citation_regex report of (ms, rest) \<Rightarrow>
        map_option (\<lambda>(t, s). (collapse_repeated_citation_links t, rs_stats s)) (render_matches claims empty_render ms rest))"

section \<open>The loop over a range\<close>

lemma sint_int: "0 \<le> n \<Longrightarrow> n \<le> max_int \<Longrightarrow> sint (word_of_int n :: 64 word) = n"
  by (simp add: sint_uint uint_word_of_int max_int_def signed_take_bit_int_eq_self take_bit_int_eq_self)

lemma range_loop_returns:
  assumes "0 \<le> from" "0 \<le> to" "from \<le> to + 1" "to < max_int"
  shows "range_loop ns (word_of_int from) (word_of_int to) = Some (map (namespaced_id ns) [from..to])"
  using assms
proof (induction "nat (to + 1 - from)" arbitrary: "from")
  case 0
  then have "from = to + 1" by simp
  then have "\<not> word_sle (word_of_int from :: 64 word) (word_of_int to)"
    using 0 sint_int [of "from"] sint_int [of to] by (simp add: word_sle_eq max_int_def signed_take_bit_int_eq_self)
  with \<open>from = to + 1\<close> show ?case by (simp add: range_loop.simps)
next
  case (Suc k)
  then have le: "from \<le> to" by simp
  have "word_of_int from + 1 = (word_of_int (from + 1) :: 64 word)" by simp
  moreover have "range_loop ns (word_of_int (from + 1)) (word_of_int to) = Some (map (namespaced_id ns) [from + 1..to])"
    using Suc.hyps(2) Suc.prems le by (intro Suc.hyps(1)) simp_all
  moreover have "word_sle (word_of_int from :: 64 word) (word_of_int to)" "sint (word_of_int from :: 64 word) = from"
    using le Suc.prems sint_int [of "from"] sint_int [of to] by (simp_all add: word_sle_eq)
  ultimately show ?case using le by (simp add: range_loop.simps [of ns "word_of_int from"] upto_rec1)
qed

lemma range_loop_stuck: "range_loop ns n to = Some ids \<Longrightarrow> sint to < max_int"
proof (induction rule: range_loop.raw_induct [rotated, consumes 1, case_names step])
  case (step f ns n to ids)
  then show ?case
  proof (cases "word_sle n to")
    case True
    with step show ?thesis by (auto simp: bind_eq_Some_conv)
  next
    case False
    then have "sint to < sint n" by (simp add: word_sle_eq)
    moreover have "sint n \<le> max_int" using sint_range_size [of n] by (simp add: max_int_def word_size)
    ultimately show ?thesis by simp
  qed
qed

lemma range_loop_value:
  assumes "0 \<le> from" "from \<le> to" "to \<le> max_int"
  shows "range_loop ns (word_of_int from) (word_of_int to)
    = (if to = max_int then None else Some (map (namespaced_id ns) [from..to]))"
proof (cases "to = max_int")
  case True
  have "sint (word_of_int to :: 64 word) = to" using assms by (intro sint_int) simp_all
  with True range_loop_stuck [of ns "word_of_int from" "word_of_int to"] show ?thesis by fastforce
next
  case False
  with assms show ?thesis by (simp add: range_loop_returns)
qed

lemma atoi_clamped_bounds: "0 \<le> atoi_clamped s \<and> atoi_clamped s \<le> max_int"
  by (auto simp: atoi_clamped_def max_int_def split: option.split)

lemma cited_range_bounds: "cited_range part = Some (ns, from, to) \<Longrightarrow> 0 \<le> from \<and> from \<le> to \<and> to \<le> max_int \<and> to - from < research_claim_max_range"
  using atoi_clamped_bounds by (auto simp: cited_range_def Let_def split: option.splits if_splits)

text \<open>What a part of a citation stands for.\<close>

definition part_ids :: "gostring \<Rightarrow> gostring list" where
  "part_ids part =
     (case cited_range part of
        Some (namespace, from, to) \<Rightarrow> map (namespaced_id namespace) [from..to]
      | None \<Rightarrow> [canonical_claim_id part])"

definition endless_range :: "gostring \<Rightarrow> bool" where
  "endless_range part \<longleftrightarrow> (case cited_range part of Some (namespace, from, to) \<Rightarrow> to = max_int | None \<Rightarrow> False)"

lemma cited_part_value: "cited_part part = (if endless_range part then None else Some (part_ids part))"
proof (cases "cited_range part")
  case (Some r)
  obtain ns f t where r: "r = (ns, f, t)" by (cases r)
  with Some have b: "0 \<le> f \<and> f \<le> t \<and> t \<le> max_int \<and> t - f < research_claim_max_range"
    by (intro cited_range_bounds) simp
  have "cited_part part = range_loop ns (word_of_int f) (word_of_int t)" by (simp add: cited_part_def Some r)
  also have "\<dots> = (if t = max_int then None else Some (map (namespaced_id ns) [f..t]))"
    using b by (intro range_loop_value) simp_all
  finally show ?thesis by (simp add: endless_range_def part_ids_def Some r)
qed (simp add: cited_part_def endless_range_def part_ids_def)

lemma concat_options_value:
  "concat_options (map (\<lambda>x. if P x then None else Some (f x)) xs) = (if list_ex P xs then None else Some (concat (map f xs)))"
  by (induction xs) (auto simp: concat_options_def)

lemma part_ids_length: "length (part_ids part) \<le> 30"
proof (cases "cited_range part")
  case (Some r)
  obtain ns f t where r: "r = (ns, f, t)" by (cases r)
  with Some cited_range_bounds [of part ns f t] have "t - f < 30" by (simp add: research_claim_max_range_def)
  then have "nat (t - f + 1) \<le> 30" by simp
  with Some r show ?thesis by (simp add: part_ids_def)
qed (simp add: part_ids_def)

lemma cited_claim_ids_value:
  "cited_claim_ids xs = (if list_ex endless_range (split_all split_regex xs) then None
     else Some (concat (map part_ids (split_all split_regex xs))))"
  by (simp add: cited_claim_ids_def cited_part_value concat_options_value cong: map_cong)

lemma cited_in_value:
  "cited_in report = (if list_ex (\<lambda>(m, c). list_ex endless_range (split_all split_regex (group 1 c))) (all_matches citation_regex report) then None
     else Some (concat (map (\<lambda>(m, c). concat (map part_ids (split_all split_regex (group 1 c)))) (all_matches citation_regex report))))"
proof -
  have "cited_in report = concat_options (map (\<lambda>x. if list_ex endless_range (split_all split_regex (group 1 (snd x))) then None
      else Some (concat (map part_ids (split_all split_regex (group 1 (snd x)))))) (all_matches citation_regex report))"
    by (simp add: cited_in_def cited_claim_ids_value case_prod_beta' del: One_nat_def)
  then show ?thesis by (simp only: concat_options_value) (simp add: case_prod_beta' del: One_nat_def)
qed

section \<open>Numbers of sources\<close>

definition known_card :: "research_claim list \<Rightarrow> gostring \<Rightarrow> bool" where
  "known_card claims i \<longleftrightarrow> i \<in> co_id ` set claims"

lemma claim_by_id_known: "claim_by_id claims i \<noteq> None \<longleftrightarrow> known_card claims i"
  by (auto simp: claim_by_id_def known_card_def find_None_iff)

definition card_key :: "research_claim list \<Rightarrow> gostring \<Rightarrow> gostring" where
  "card_key claims i = (case claim_by_id claims i of Some c \<Rightarrow> source_key c | None \<Rightarrow> [])"

text \<open>Elements in the order they first appear, after those there already.\<close>

definition add_new :: "'a list \<Rightarrow> 'a list \<Rightarrow> 'a list" where
  "add_new xs ys = fold (\<lambda>y zs. if y \<in> set zs then zs else zs @ [y]) ys xs"

lemma add_new_simps [simp]:
  "add_new xs [] = xs"
  "add_new xs (y # ys) = add_new (if y \<in> set xs then xs else xs @ [y]) ys"
  "add_new xs (ys @ zs) = add_new (add_new xs ys) zs"
  by (simp_all add: add_new_def)

lemma add_new_distinct: "distinct xs \<Longrightarrow> distinct (add_new xs ys) \<and> set (add_new xs ys) = set xs \<union> set ys"
  by (induction ys arbitrary: xs) auto

definition numbered_keys :: "render_state \<Rightarrow> gostring list" where
  "numbered_keys s = rev (map fst (rs_numbers s))"

definition render_inv :: "render_state \<Rightarrow> bool" where
  "render_inv s \<longleftrightarrow> distinct (numbered_keys s) \<and> map snd (rs_numbers s) = rev [1..<Suc (length (rs_numbers s))]"

text \<open>What the ids of the citations do to the state, links aside.\<close>

definition after_ids :: "research_claim list \<Rightarrow> render_state \<Rightarrow> gostring list \<Rightarrow> render_state \<Rightarrow> bool" where
  "after_ids claims s ids s' \<longleftrightarrow>
     st_cited (rs_stats s') = st_cited (rs_stats s) + length (filter (known_card claims) ids)
     \<and> st_unknown (rs_stats s') = st_unknown (rs_stats s) @ filter (\<lambda>i. \<not> known_card claims i) ids
     \<and> numbered_keys s' = add_new (numbered_keys s) (map (card_key claims) (filter (known_card claims) ids))"

lemma after_ids_trans: "after_ids claims s xs t \<Longrightarrow> after_ids claims t ys u \<Longrightarrow> after_ids claims s (xs @ ys) u"
  by (simp add: after_ids_def)

lemma render_inv_stats [simp]: "render_inv (s\<lparr>rs_stats := x\<rparr>) = render_inv s" "numbered_keys (s\<lparr>rs_stats := x\<rparr>) = numbered_keys s"
  by (simp_all add: render_inv_def numbered_keys_def)

lemma numbered_keys_set: "k \<in> set (numbered_keys s) \<longleftrightarrow> map_of (rs_numbers s) k \<noteq> None"
  by (simp add: numbered_keys_def map_of_eq_None_iff)

lemma number_new_key:
  assumes "render_inv s" "map_of (rs_numbers s) k = None"
  shows "render_inv (s\<lparr>rs_numbers := (k, length (rs_numbers s) + 1) # rs_numbers s\<rparr>)"
    "numbered_keys (s\<lparr>rs_numbers := (k, n) # rs_numbers s\<rparr>) = numbered_keys s @ [k]"
  using assms numbered_keys_set [of k s] by (simp_all add: render_inv_def numbered_keys_def map_of_eq_None_iff)

lemma render_ids_after:
  "render_ids claims seen s ids = (t, s') \<Longrightarrow> set seen \<subseteq> set (numbered_keys s) \<Longrightarrow> render_inv s \<Longrightarrow>
   after_ids claims s ids s' \<and> render_inv s'"
proof (induction claims seen s ids arbitrary: t s' rule: render_ids.induct)
  case (1 claims seen s)
  then show ?case by (simp add: after_ids_def)
next
  case (2 claims seen s i ids)
  show ?case
  proof (cases "claim_by_id claims i")
    case None
    with claim_by_id_known [of claims i] have "\<not> known_card claims i" by simp
    with "2.IH"(1) [OF None, of t s'] "2.prems" None show ?thesis by (simp add: after_ids_def)
  next
    case (Some c)
    with claim_by_id_known [of claims i] have k: "known_card claims i" "card_key claims i = source_key c"
      by (simp_all add: card_key_def)
    let ?s = "s\<lparr>rs_stats := (rs_stats s)\<lparr>st_cited := st_cited (rs_stats s) + 1\<rparr>\<rparr>"
    show ?thesis
    proof (cases "source_key c \<in> set seen")
      case True
      with "2.prems"(2) have "source_key c \<in> set (numbered_keys s)" by blast
      with "2.IH"(2) [OF Some refl refl True, of t s'] "2.prems" Some True k show ?thesis by (simp add: after_ids_def)
    next
      case False
      show ?thesis
      proof (cases "map_of (rs_numbers s) (source_key c)")
        case (Some n)
        then have old: "source_key c \<in> set (numbered_keys s)" by (simp add: numbered_keys_set)
        from "2.prems"(1) \<open>claim_by_id claims i = Some c\<close> False Some obtain u where
          "render_ids claims (source_key c # seen) ?s ids = (u, s')" by (auto simp: Let_def split: prod.splits)
        with "2.IH"(4) [OF \<open>claim_by_id claims i = Some c\<close> refl refl False, of n u s'] Some "2.prems"(2,3) old k
        show ?thesis by (simp add: after_ids_def)
      next
        case None
        let ?u = "?s\<lparr>rs_numbers := (source_key c, length (rs_numbers ?s) + 1) # rs_numbers ?s\<rparr>"
        have new: "render_inv ?u" "numbered_keys ?u = numbered_keys s @ [source_key c]"
          using number_new_key [of ?s "source_key c"] None "2.prems"(3) by simp_all
        from "2.prems"(1) \<open>claim_by_id claims i = Some c\<close> False None obtain u where
          "render_ids claims (source_key c # seen) ?u ids = (u, s')" by (auto simp: Let_def split: prod.splits)
        with "2.IH"(3) [OF \<open>claim_by_id claims i = Some c\<close> refl refl False _ refl, of u s'] None "2.prems"(2) new k numbered_keys_set [of "source_key c" s]
        show ?thesis by (auto simp: after_ids_def)
      qed
    qed
  qed
qed

fun ids_to_render :: "(gostring \<times> gostring \<times> captures) list \<Rightarrow> gostring \<Rightarrow> gostring list" where
  "ids_to_render [] rest = []"
| "ids_to_render ((skip, m, c) # ms) rest =
     (if take 1 (following ms rest) = ''('' then [] else concat (map part_ids (split_all split_regex (group 1 c))))
     @ ids_to_render ms rest"

lemma render_matches_after:
  "render_matches claims s ms rest = Some (t, s') \<Longrightarrow> render_inv s \<Longrightarrow>
   after_ids claims s (ids_to_render ms rest) s' \<and> render_inv s'"
proof (induction claims s ms rest arbitrary: t s' rule: render_matches.induct)
  case (1 claims s rest)
  then show ?case by (simp add: after_ids_def)
next
  case (2 claims s skip m c ms rest)
  show ?case
  proof (cases "take 1 (following ms rest) = ''(''")
    case True
    with "2.prems"(1) obtain u where "render_matches claims s ms rest = Some (u, s')" by (auto simp: bind_eq_Some_conv)
    with "2.IH"(1) [OF True] "2.prems"(2) True show ?thesis by simp
  next
    case False
    with "2.prems"(1) obtain ids where ids: "cited_claim_ids (group 1 c) = Some ids"
      by (cases "cited_claim_ids (group 1 c)") simp_all
    obtain links s1 where links: "render_ids claims [] s ids = (links, s1)" by (cases "render_ids claims [] s ids")
    from "2.prems"(1) False ids links obtain u where u: "render_matches claims s1 ms rest = Some (u, s')"
      by (auto simp: bind_eq_Some_conv)
    from ids have ids': "ids = concat (map part_ids (split_all split_regex (group 1 c)))"
      by (simp add: cited_claim_ids_value split: if_splits)
    from render_ids_after [OF links] "2.prems"(2) have one: "after_ids claims s ids s1" "render_inv s1" by simp_all
    from "2.IH"(2) [OF False _ _ u, of ids] ids links one(2) have "after_ids claims s1 (ids_to_render ms rest) s'" "render_inv s'"
      by auto
    with after_ids_trans [OF one(1)] False ids' show ?thesis by simp
  qed
qed

lemma rendered_numbers:
  assumes "render_inv s"
  shows "rev (rs_numbers s) = zip (numbered_keys s) [1..<Suc (length (numbered_keys s))]"
proof -
  have "map snd (rev (rs_numbers s)) = [1..<Suc (length (rs_numbers s))]"
    using assms by (simp add: render_inv_def rev_map [symmetric] del: upt_Suc)
  then show ?thesis
    by (metis length_map length_rev numbered_keys_def rev_map zip_map_fst_snd)
qed

section \<open>Citing one card\<close>

primrec no_groups :: "regex \<Rightarrow> bool" where
  "no_groups (One P) = True"
| "no_groups (Lit x) = True"
| "no_groups (Cat a b) = (no_groups a \<and> no_groups b)"
| "no_groups (Or a b) = (no_groups a \<and> no_groups b)"
| "no_groups (Many a) = no_groups a"
| "no_groups (Group n a) = False"

lemma star_runs_captures:
  assumes "\<And>s t. t \<in> set (f s) \<Longrightarrow> snd t = snd s"
  shows "t \<in> set (star_runs f n s) \<Longrightarrow> snd t = snd s"
proof (induction n arbitrary: s)
  case (Suc n)
  then consider "t = s" | u where "u \<in> set (f s)" "t \<in> set (star_runs f n u)" by auto
  then show ?case
  proof cases
    case 2
    from assms [OF 2(1)] Suc.IH [OF 2(2)] show ?thesis by simp
  qed simp
qed simp

lemma runs_captures: "no_groups r \<Longrightarrow> t \<in> set (runs r s) \<Longrightarrow> snd t = snd s"
proof (induction r arbitrary: s t)
  case (Cat a b)
  then obtain u where "u \<in> set (runs a s)" "t \<in> set (runs b u)" by auto
  with Cat.IH(1) [of u s] Cat.IH(2) [of t u] Cat.prems(1) show ?case by simp
next
  case (Many a)
  then have "t \<in> set (star_runs (runs a) (length (fst s)) s)" by simp
  then show ?case by (rule star_runs_captures [rotated]) (use Many in auto)
qed (auto split: list.splits if_splits)

definition id_char :: "char \<Rightarrow> bool" where "id_char c \<longleftrightarrow> lower c \<or> decimal c"

lemma namespaced_id_chars:
  assumes "namespace_ok ns" "1 \<le> n" "c \<in> set (namespaced_id ns n)"
  shows "id_char c"
proof -
  have c: "lower CHR ''c''" by (simp add: lower_def in_range_def byte_def)
  obtain d ds where "itoa n = digit d # ds" "d < 10" "\<forall>c \<in> set ds. decimal c" using assms(2) by (rule itoa_head)
  then have "\<forall>c \<in> set (itoa n). decimal c" by (simp add: decimal_digit)
  with assms c show ?thesis
    by (auto simp: namespaced_id_def namespace_ok_def list_all_iff card_letters_def id_char_def split: if_splits)
qed

definition separators :: "gostring list" where
  "separators = ['','', wide_comma, '';'', wide_semicolon, enumeration_comma, ''-'', en_dash, em_dash, ''~'', ''['', '']'']"

lemma separators_not_in_ids: "list_all (list_ex (\<lambda>c. \<not> id_char c)) separators"
  by code_simp

lemma separator_char: "u \<in> set separators \<Longrightarrow> \<exists>c \<in> set u. \<not> id_char c"
  using separators_not_in_ids by (simp add: list_all_iff list_ex_iff)

lemma bracket_char: "\<not> id_char CHR '']''"
  using separator_char [of "'']''"] by (simp add: separators_def)

lemma comma_words: "u \<in> lang comma_regex \<Longrightarrow> \<exists>c \<in> set u. \<not> id_char c"
  by (rule separator_char) (auto simp: comma_regex_def separators_def)

lemma dash_words: "u \<in> lang dash_regex \<Longrightarrow> \<exists>c \<in> set u. \<not> id_char c"
  by (rule separator_char) (auto simp: dash_regex_def separators_def)

lemma lang_CatE:
  assumes "u \<in> lang (Cat a b)"
  obtains v w where "u = v @ w" "v \<in> lang a" "w \<in> lang b"
  using assms by auto

lemma split_words: "u \<in> lang split_regex \<Longrightarrow> \<exists>c \<in> set u. \<not> id_char c"
  unfolding split_regex_def using comma_words by (elim lang_CatE) force

lemma range_words: "u \<in> lang range_regex \<Longrightarrow> \<exists>c \<in> set u. \<not> id_char c"
  unfolding range_regex_def using dash_words by (elim lang_CatE) force

lemma trim_space_set: "set (trim_space s) \<subseteq> set s"
  unfolding trim_space_def set_rev
  using set_mono_suffix [OF strip_suffix [of "map rev space_encodings" "rev (strip space_encodings s)"]]
    set_mono_suffix [OF strip_suffix [of space_encodings s]] by simp

lemma no_split:
  assumes "\<forall>c \<in> set s. id_char c"
  shows "split_all split_regex s = [s]"
proof -
  have "next_match split_regex s = None"
  proof (rule ccontr)
    assume "next_match split_regex s \<noteq> None"
    then obtain skip m c t where "next_match split_regex s = Some (skip, (m, c), t)" by auto
    from next_match_parts [OF this] split_words [of m] assms show False by auto
  qed
  then show ?thesis by (simp add: split_all_def find_all.simps [of _ s])
qed

lemma no_range:
  assumes "\<forall>c \<in> set s. id_char c"
  shows "cited_range s = None"
proof -
  have "trim_space s \<notin> lang range_regex" using range_words trim_space_set [of s] assms by blast
  then have "full_match range_regex (trim_space s) = None" using full_match_iff by metis
  then show ?thesis by (simp add: cited_range_def)
qed

text \<open>The fourth byte of an id, and each after it, is a digit; a variant has a letter there.\<close>

lemma namespaced_id_tail:
  assumes "namespace_ok ns" "1 \<le> n" "3 \<le> k" "k < length (namespaced_id ns n)"
  shows "decimal (namespaced_id ns n ! k)"
proof -
  obtain d ds where d: "itoa n = digit d # ds" "d < 10" "\<forall>c \<in> set ds. decimal c" using assms(2) by (rule itoa_head)
  let ?h = "if ns = [] then ''c'' else ns"
  have id: "namespaced_id ns n = ?h @ itoa n" and h: "length ?h \<le> 2"
    using assms(1) by (simp_all add: namespaced_id_def namespace_ok_def)
  have "\<forall>c \<in> set (itoa n). decimal c" using d by (simp add: decimal_digit)
  moreover have "k - length ?h < length (itoa n)" using assms(3,4) h id by simp
  ultimately have "decimal (itoa n ! (k - length ?h))" by simp
  then show ?thesis using assms(3) h by (simp add: id nth_append)
qed

lemma hex4_length: "u \<in> lang hex4_regex \<Longrightarrow> length u = 4"
  by (auto simp: hex4_regex_def)

lemma variant_letter: "u \<in> lang variant_regex \<Longrightarrow> \<exists>k. 3 \<le> k \<and> k < length u \<and> u ! k = CHR ''c''"
proof -
  assume "u \<in> lang variant_regex"
  then obtain x v where x: "u = x @ v" "v \<in> lang (Cat (Group 1 hex4_regex) (Cat (opt (Lit ''-'')) (Cat (Lit ''c'') (Group 2 ordinal_regex))))"
    unfolding variant_regex_def by (rule lang_CatE)
  from x(2) obtain h w where h: "v = h @ w" "h \<in> lang (Group 1 hex4_regex)" "w \<in> lang (Cat (opt (Lit ''-'')) (Cat (Lit ''c'') (Group 2 ordinal_regex)))"
    by (rule lang_CatE)
  from h(3) obtain y z where y: "w = y @ z" "z \<in> lang (Cat (Lit ''c'') (Group 2 ordinal_regex))" by (rule lang_CatE)
  from y(2) obtain l o' where l: "z = l @ o'" "l \<in> lang (Lit ''c'')" by (rule lang_CatE)
  have u: "u = x @ h @ y @ ''c'' @ o'" "h \<in> lang (Group 1 hex4_regex)" using x h y l by simp_all
  from u(2) hex4_length have "length h = 4" by simp
  with u(1) show ?thesis by (intro exI [of _ "length (x @ h @ y)"]) (simp add: nth_append)
qed

lemma canonical_namespaced: "namespace_ok ns \<Longrightarrow> 1 \<le> n \<Longrightarrow> canonical_claim_id (namespaced_id ns n) = namespaced_id ns n"
proof -
  assume ok: "namespace_ok ns" "1 \<le> n"
  have "\<not> decimal CHR ''c''" using lower_not_decimal [of "CHR ''c''"] by (simp add: lower_def in_range_def byte_def)
  then have "namespaced_id ns n \<notin> lang variant_regex"
    using variant_letter [of "namespaced_id ns n"] namespaced_id_tail [OF ok] by metis
  then have "full_match variant_regex (namespaced_id ns n) = None" using full_match_iff by metis
  then show ?thesis by (simp add: canonical_claim_id_def)
qed

lemma part_ids_namespaced:
  assumes "namespace_ok ns" "1 \<le> n"
  shows "cited_claim_ids (namespaced_id ns n) = Some [namespaced_id ns n]"
proof -
  have chars: "\<forall>c \<in> set (namespaced_id ns n). id_char c" using namespaced_id_chars assms by blast
  show ?thesis
    by (simp add: cited_claim_ids_value no_split [OF chars] endless_range_def part_ids_def no_range [OF chars] canonical_namespaced assms)
qed

lemma namespaced_element:
  assumes "namespace_ok ns" "1 \<le> n"
  shows "namespaced_id ns n \<in> lang citation_element"
proof (cases "ns = []")
  case True
  have "''c'' @ itoa n \<in> lang (Cat (Lit ''c'') ordinal_regex)" by (rule lang_CatI) (simp_all add: ordinal_lang assms)
  then have "[] @ (''c'' @ itoa n) \<in> lang (Cat (opt (Cat (opt (Lit ''c'')) (Cat hex4_regex (opt (Lit ''-''))))) (Cat (Lit ''c'') ordinal_regex))"
    by (intro lang_CatI) (simp_all add: opt_def)
  with True show ?thesis unfolding citation_element_def lang.simps(4) namespaced_id_def by auto
next
  case False
  then have "ns @ itoa n \<in> lang (Cat letters_regex ordinal_regex)" by (intro lang_CatI ordinal_lang namespace_lang assms)
  with False show ?thesis unfolding citation_element_def lang.simps(4) namespaced_id_def by simp
qed

lemma no_groups_element: "no_groups (Cat citation_element (Many (Cat split_regex citation_element)))"
  by (simp add: citation_element_def split_regex_def range_namespace_regex_def ordinal_regex_def spaces_regex_def
      dash_regex_def comma_regex_def letters_regex_def hex4_regex_def opt_def)

lemma bracketed_runs:
  assumes X: "no_groups X" and s: "CHR '']'' \<notin> set s" and t: "t \<in> set (runs (Cat (Lit ''['') (Cat (Group 1 X) (Lit '']''))) (''['' @ s @ '']'', []))"
  shows "t = ([], [(1, s)])"
proof -
  have "runs (Lit ''['') (''['' @ s @ '']'', []) = [(s @ '']'', [])]" by simp
  with t have "t \<in> set (concat (map (runs (Lit '']'')) (runs (Group 1 X) (s @ '']'', []))))"
    by (simp del: runs.simps(2,6))
  then obtain u where u: "u \<in> set (runs (Group 1 X) (s @ '']'', []))" "t \<in> set (runs (Lit '']'') u)"
    unfolding set_concat set_map by blast
  from u(1) obtain v where v: "v \<in> set (runs X (s @ '']'', []))" "u = (fst v, [(1, take (length (s @ '']'') - length (fst v)) (s @ '']''))])"
    using runs_captures [OF X] by fastforce
  from u(2) have t': "fst u = '']'' @ fst t" "snd t = snd u"
    by (auto split: if_splits) (metis append_Cons append_Nil append_take_drop_id)
  from runs_sound [OF v(1)] obtain w where "s @ '']'' = w @ fst v" by auto
  with t'(1) v(2) have eq: "s @ '']'' = w @ '']'' @ fst t" by simp
  have "fst t = []"
  proof (rule ccontr)
    assume "fst t \<noteq> []"
    then obtain ys y where "fst t = ys @ [y]" by (metis rev_exhaust)
    with eq have "s = w @ '']'' @ ys" by simp
    with s show False by simp
  qed
  with eq t' v(2) have "w = s" "fst v = '']''" by simp_all
  with \<open>fst t = []\<close> t' v(2) show ?thesis by (cases t) simp
qed

lemma cited_alone:
  assumes el: "s \<in> lang citation_element" and b: "CHR '']'' \<notin> set s"
  shows "all_matches citation_regex (''['' @ s @ '']'') = [(''['' @ s @ '']'', [(1, s)])]"
proof -
  let ?X = "Cat citation_element (Many (Cat split_regex citation_element))"
  let ?s = "''['' @ s @ '']''"
  have "s @ [] \<in> lang ?X" by (rule lang_CatI [OF el]) (auto intro: exI [of _ "[]"])
  then have "s @ '']'' \<in> lang (Cat (Group 1 ?X) (Lit '']''))" by (intro lang_CatI) simp_all
  then have "?s \<in> lang citation_regex" unfolding citation_regex_def by (intro lang_CatI [of "''[''"]) simp_all
  from runs_complete [OF this, of "[]" "[]"] obtain c where "([], c) \<in> set (runs citation_regex (?s, []))" by auto
  then have ne: "runs citation_regex (?s, []) \<noteq> []" by auto
  have all: "\<forall>t \<in> set (runs citation_regex (?s, [])). t = ([], [(1, s)])"
    using bracketed_runs [OF no_groups_element b] unfolding citation_regex_def by blast
  with ne obtain ts where ts: "runs citation_regex (?s, []) = ([], [(1, s)]) # ts" by (cases "runs citation_regex (?s, [])") auto
  have next_one: "next_match citation_regex ?s = Some ([], (?s, [(1, s)]), [])"
    using ts by simp
  have "find_all citation_regex [] = ([], [])" by (simp add: find_all.simps [of _ "[]"])
  then have "find_all citation_regex ?s = ([([], ?s, [(1, s)])], [])"
    unfolding find_all.simps [of citation_regex ?s] next_one by simp
  then show ?thesis by (simp only: all_matches_def) simp
qed

lemma card_id_cites_itself:
  assumes "namespace_ok ns" "1 \<le> n"
  shows "cited_in (''['' @ namespaced_id ns n @ '']'') = Some [namespaced_id ns n]"
proof -
  have "CHR '']'' \<notin> set (namespaced_id ns n)" using namespaced_id_chars [OF assms] bracket_char by blast
  from cited_alone [OF namespaced_element [OF assms] this] show ?thesis
    by (simp add: cited_in_def group_def part_ids_namespaced assms concat_options_def)
qed

section \<open>Ranges that surprise\<close>

definition largest_range :: gostring where "largest_range = ''c9223372036854775807-c9223372036854775807''"

lemma largest_range_match:
  "full_match range_regex (trim_space largest_range) =
     Some [(3, ''9223372036854775807''), (2, ''9223372036854775807''), (1, ''c'')]"
  by code_simp

text \<open>
  A report that cites the range of the largest \<open>int\<close> makes the loop over the range run forever, since
  incrementing the largest \<open>int\<close> wraps around.
\<close>

lemma largest_range_never_returns: "cited_claim_ids largest_range = None"
proof -
  have "digit_value CHR ''9'' = Some 9" "digit_value CHR ''2'' = Some 2" "digit_value CHR ''3'' = Some 3" "digit_value CHR ''7'' = Some 7"
    "digit_value CHR ''0'' = Some 0" "digit_value CHR ''6'' = Some 6" "digit_value CHR ''8'' = Some 8" "digit_value CHR ''5'' = Some 5"
    "digit_value CHR ''4'' = Some 4" by code_simp+
  then have big: "atoi_clamped ''9223372036854775807'' = max_int" by (simp add: atoi_clamped_def max_int_def)
  have groups: "group 2 [(3, ''9223372036854775807''), (2, ''9223372036854775807''), (1, ''c'')] = ''9223372036854775807''"
    "group 3 [(3, ''9223372036854775807''), (2, ''9223372036854775807''), (1, ''c'')] = ''9223372036854775807''"
    by (simp_all add: group_def)
  have "cited_range largest_range = Some ([], max_int, max_int)"
    unfolding cited_range_def largest_range_match option.case Let_def groups big
    by (simp add: group_def research_claim_max_range_def)
  then have "endless_range largest_range" by (simp add: endless_range_def)
  moreover have "split_all split_regex largest_range = [largest_range]" by code_simp
  ultimately show ?thesis by (simp add: cited_claim_ids_value)
qed

text \<open>The namespace of a range's second end is not looked at.\<close>

lemma mixed_range: "cited_claim_ids ''a2-b5'' = Some [''a2'', ''a3'', ''a4'', ''a5'']"
  by code_simp

section \<open>Properties\<close>

text \<open>
  C16: listing the cards of a citation returns unless one of its ranges ends at the largest 64-bit int,
  and then never does; what it returns is, for each part between separators, the ids of its range or the
  canonical form of its id, and no part gives more than 30.
\<close>

theorem citation_lists_end:
  "cited_claim_ids xs =
     (if list_ex endless_range (split_all split_regex xs) then None
      else Some (concat (map part_ids (split_all split_regex xs))))
   \<and> list_all (\<lambda>part. length (part_ids part) \<le> 30) (split_all split_regex xs)"
  by (simp only: cited_claim_ids_value list_all_iff part_ids_length) simp

text \<open>
  C15: the id that a card was given, written in brackets, cites exactly that card: what
  \<open>research_claim_id\<close> makes for a Run of a tree (of the root and at most 650 subagents), the pattern of
  citations recognises, and the list of cited ids is that id.
\<close>

theorem card_id_round_trip:
  assumes "i < length ps" and "length ps \<le> max_claim_runs"
  shows "cited_in (''['' @ research_claim_id (claim_runs ps ! i) action_id @ '']'')
    = Some [research_claim_id (claim_runs ps ! i) action_id]"
  unfolding research_claim_id_def
  by (rule card_id_cites_itself [OF claim_runs_namespace_ok [OF assms] claim_ordinal_pos])

theorem card_id_round_trip_witness:
  "cited_in (''['' @ research_claim_id (claim_runs [(''r1'', empty_prefix), (''r2'', empty_prefix)] ! 1) ''x'' @ '']'')
    = Some [research_claim_id (claim_runs [(''r1'', empty_prefix), (''r2'', empty_prefix)] ! 1) ''x'']"
  by (rule card_id_round_trip) (simp_all add: max_claim_runs_def)


definition sample_card :: "gostring \<Rightarrow> gostring \<Rightarrow> research_claim" where
  "sample_card i u = \<lparr>co_id = i, co_status = ''verified'', co_source = ''s'', co_title = ''t'', co_url = u, rc_quote = [], rc_claim = [],
     rc_conditions = [], rc_question = 0, rc_stance = []\<rparr>"


end
