(* ===== verification/Object_Store.thy ===== *)
theory Object_Store
  imports Json_Values
begin

text \<open>
  The object store (\<open>internal/objectstore\<close>): the interface \<open>Store\<close> as a locale, with what its clients
  rely on, and the in-memory implementation (\<open>memory.go\<close>), which satisfies it. Time stamps and the
  cancellation of the context are left out.
\<close>

datatype object_error = Object_Not_Found | Object_Too_Large | Bad_Object | Bad_Read_Limit | Bad_List_Limit

type_synonym object_store = "(gostring \<times> gostring) list"

record object_info =
  oi_key :: gostring
  oi_size :: int

definition store_put :: "object_store \<Rightarrow> gostring \<Rightarrow> gostring \<Rightarrow> (object_error, object_store) result" where
  "store_put st key payload =
     (if blank key \<or> payload = [] then Inl Bad_Object else Inr (put_member key payload st))"

definition store_get :: "object_store \<Rightarrow> gostring \<Rightarrow> int \<Rightarrow> (object_error, gostring) result" where
  "store_get st key max_bytes =
     (if max_bytes < 1 then Inl Bad_Read_Limit
      else (case map_of st key of
          None \<Rightarrow> Inl Object_Not_Found
        | Some payload \<Rightarrow> if int (length payload) > max_bytes then Inl Object_Too_Large else Inr payload))"

definition store_stat :: "object_store \<Rightarrow> gostring \<Rightarrow> (object_error, object_info) result" where
  "store_stat st key =
     (case map_of st key of
        None \<Rightarrow> Inl Object_Not_Found
      | Some payload \<Rightarrow> Inr \<lparr>oi_key = key, oi_size = int (length payload)\<rparr>)"

definition store_delete :: "object_store \<Rightarrow> gostring \<Rightarrow> object_store" where
  "store_delete st key = filter (\<lambda>(k, v). k \<noteq> key) st"

definition store_list :: "object_store \<Rightarrow> gostring \<Rightarrow> gostring \<Rightarrow> int \<Rightarrow> (object_error, object_info list) result" where
  "store_list st pre after limit =
     (if limit < 1 then Inl Bad_List_Limit
      else Inr (take (nat limit)
        (map (\<lambda>(k, v). \<lparr>oi_key = k, oi_size = int (length v)\<rparr>) (filter (\<lambda>(k, v). prefix pre k \<and> k > after) st))))"

text \<open>What a client relies on: a read gives what was last written under the key, and a write leaves the
  other keys alone.\<close>

locale object_storage =
  fixes put :: "'s \<Rightarrow> gostring \<Rightarrow> gostring \<Rightarrow> (object_error, 's) result"
    and get :: "'s \<Rightarrow> gostring \<Rightarrow> int \<Rightarrow> (object_error, gostring) result"
    and ok :: "'s \<Rightarrow> bool"
  assumes put_ok: "ok s \<Longrightarrow> put s k v = Inr t \<Longrightarrow> ok t"
    and get_put_same: "ok s \<Longrightarrow> put s k v = Inr t \<Longrightarrow> int (length v) \<le> n \<Longrightarrow> get t k n = Inr v"
    and get_put_other: "ok s \<Longrightarrow> put s k v = Inr t \<Longrightarrow> k' \<noteq> k \<Longrightarrow> get t k' n = get s k' n"
begin

lemma get_put_only: "ok s \<Longrightarrow> put s k v = Inr t \<Longrightarrow> get t k' n = Inr w \<Longrightarrow> get s k' n = Inr w \<or> k' = k"
  by (cases "k' = k") (simp_all add: get_put_other)

lemma put_same_again:
  "ok s \<Longrightarrow> get s k' n = Inr w \<Longrightarrow> put s k v = Inr t \<Longrightarrow> k' = k \<longrightarrow> v = w \<Longrightarrow> int (length w) \<le> n \<Longrightarrow> get t k' n = Inr w"
  by (cases "k' = k") (simp_all add: get_put_other get_put_same)

end

lemma store_put_nonempty: "store_put st k v = Inr t \<Longrightarrow> v \<noteq> []"
  by (simp add: store_put_def split: if_splits)

interpretation memory: object_storage store_put store_get sorted_members
proof
  fix s t k v k' n
  assume s: "sorted_members s" and p: "store_put s k v = Inr t"
  from p have t: "t = put_member k v s" by (simp add: store_put_def split: if_splits)
  show "sorted_members t" by (simp add: t put_member_sorted s)
  have m: "map_of t = (map_of s)(k \<mapsto> v)" by (simp add: t map_of_put_member s)
  show "int (length v) \<le> n \<Longrightarrow> store_get t k n = Inr v"
    using store_put_nonempty [OF p] by (cases v) (simp_all add: store_get_def m)
  show "k' \<noteq> k \<Longrightarrow> store_get t k' n = store_get s k' n" by (simp add: store_get_def m)
qed

lemma store_delete_sorted: "sorted_members st \<Longrightarrow> sorted_members (store_delete st k)"
  by (induction st) (auto simp: store_delete_def sorted_members_def)

lemma store_get_delete: "store_get (store_delete st k) k' n = (if k' = k \<and> n \<ge> 1 then Inl Object_Not_Found else store_get st k' n)"
proof -
  have "map_of (store_delete st k) k' = (if k' = k then None else map_of st k')"
    by (induction st) (auto simp: store_delete_def)
  then show ?thesis by (cases "k' = k") (simp_all add: store_get_def)
qed

text \<open>A listing is in the order of the keys, below the limit, and each entry is an object of the prefix.\<close>

lemma store_list_sorted:
  "sorted_members st \<Longrightarrow> store_list st pre after limit = Inr xs \<Longrightarrow>
   sorted_wrt (<) (map oi_key xs) \<and> int (length xs) \<le> limit
   \<and> list_all (\<lambda>x. prefix pre (oi_key x) \<and> after < oi_key x \<and> store_stat st (oi_key x) = Inr x) xs"
proof -
  assume st: "sorted_members st" and l: "store_list st pre after limit = Inr xs"
  let ?f = "\<lambda>(k, v :: gostring). \<lparr>oi_key = k, oi_size = int (length v)\<rparr>"
  let ?ys = "filter (\<lambda>(k, v). prefix pre k \<and> k > after) st"
  from l have xs: "xs = take (nat limit) (map ?f ?ys)" "1 \<le> limit" by (auto simp: store_list_def split: if_splits)
  have "map oi_key xs = take (nat limit) (map fst ?ys)" by (simp add: xs take_map comp_def case_prod_beta)
  moreover have "sorted_wrt (<) (map fst ?ys)" using st by (simp add: sorted_members_def sorted_wrt_map sorted_wrt_filter)
  ultimately have "sorted_wrt (<) (map oi_key xs)" by (simp add: sorted_wrt_take)
  moreover have "int (length xs) \<le> limit" using xs by simp
  moreover have "prefix pre (oi_key x) \<and> after < oi_key x \<and> store_stat st (oi_key x) = Inr x" if "x \<in> set xs" for x
  proof -
    from that have "x \<in> set (map ?f ?ys)" unfolding xs(1) by (rule in_set_takeD)
    then obtain p where p: "p \<in> set ?ys" "x = ?f p" unfolding set_map by (rule imageE)
    obtain k v where "p = (k, v)" by (cases p)
    with p have kv: "(k, v) \<in> set st" "prefix pre k" "after < k" "x = ?f (k, v)" by simp_all
    have "distinct (map fst st)" using st strict_sorted_iff by (auto simp: sorted_members_def)
    with kv have "map_of st k = Some v" by simp
    with kv show ?thesis by (simp add: store_stat_def)
  qed
  ultimately show ?thesis by (simp add: list_all_iff)
qed

end
