(* ===== verification/Research_Workspace.thy ===== *)
theory Research_Workspace
  imports Research_Cards Object_Store
begin

text \<open>
  The workspace of a Research Run (\<open>internal/agent/research_workspace_action.go\<close>): Markdown and data files
  as immutable objects, named by the digest of their bytes and by the Action that wrote them. Which
  version of a path is current is not stored: it follows from the Results in the log
  (\<open>snapshot_from_prefix\<close>). An Execute is given the store and that snapshot; cancellation is left out.
\<close>

section \<open>Paths and references\<close>

fun at_most :: "nat \<Rightarrow> regex \<Rightarrow> regex" where
  "at_most 0 r = Lit []"
| "at_most (Suc n) r = opt (Cat r (at_most n r))"

definition file_head :: "char \<Rightarrow> bool" where "file_head c \<longleftrightarrow> lower c \<or> decimal c"
definition file_char :: "char \<Rightarrow> bool" where
  "file_char c \<longleftrightarrow> lower c \<or> decimal c \<or> c = CHR ''.'' \<or> c = CHR ''_'' \<or> c = CHR ''-''"

definition file_name_regex :: "regex \<Rightarrow> regex" where
  "file_name_regex ext = Cat (Lit ''/'') (Cat (One file_head) (Cat (at_most 79 (One file_char)) (Cat (Lit ''.'') ext)))"

definition nested_path_regex :: regex where
  "nested_path_regex = Cat (Or (Lit ''notes'') (Lit ''sections'')) (file_name_regex (Lit ''md''))"

definition data_path_regex :: regex where
  "data_path_regex = Cat (Lit ''data'')
     (file_name_regex (Or (Lit ''csv'') (Or (Lit ''json'') (Or (Lit ''txt'') (Lit ''md'')))))"

definition valid_workspace_path :: "gostring \<Rightarrow> bool \<Rightarrow> bool" where
  "valid_workspace_path path allow_report \<longleftrightarrow>
     path = ''report_plan.md'' \<or> path = ''review.md'' \<or> (allow_report \<and> path = ''report.md'')
     \<or> full_match nested_path_regex path \<noteq> None \<or> full_match data_path_regex path \<noteq> None"

definition workspace_file_max :: int where "workspace_file_max = 96 * 1024"
definition workspace_report_max :: int where "workspace_report_max = int max_final_draft_bytes"

lemma workspace_report_max_value [code]: "workspace_report_max = 524288"
  by (simp add: workspace_report_max_def max_final_draft_bytes_def)

record workspace_file =
  wf_path :: gostring
  wf_object_key :: gostring
  wf_sha256 :: gostring
  wf_bytes :: int

definition hex_decodes :: "gostring \<Rightarrow> bool" where
  "hex_decodes s \<longleftrightarrow> even (length s) \<and> list_all (\<lambda>c. hex_char c \<or> in_range 65 70 c) s"

datatype workspace_error =
    Invalid_Workspace_Object
  | Invalid_File_Reference
  | Invalid_File_Hash
  | Invalid_Object_Reference
  | Integrity_Mismatch
  | Store_Failed object_error

definition validate_workspace_file :: "workspace_file \<Rightarrow> workspace_error option" where
  "validate_workspace_file f =
     (if \<not> valid_workspace_path (wf_path f) True \<or> \<not> prefix ''research-workspaces/'' (wf_object_key f)
         \<or> length (wf_sha256 f) \<noteq> 64 \<or> wf_bytes f < 1 \<or> wf_bytes f > workspace_report_max
      then Some Invalid_File_Reference
      else if \<not> hex_decodes (wf_sha256 f) then Some Invalid_File_Hash
      else None)"

section \<open>Objects\<close>

text \<open>From the last dot; every path has one.\<close>

definition path_extension :: "gostring \<Rightarrow> gostring" where
  "path_extension path = CHR ''.'' # rev (takeWhile (\<lambda>c. c \<noteq> CHR ''.'') (rev path))"

definition workspace_key :: "gostring \<Rightarrow> gostring \<Rightarrow> gostring \<Rightarrow> gostring \<Rightarrow> gostring" where
  "workspace_key run_id action_id path payload =
     ''research-workspaces/'' @ run_id @ ''/'' @ sha256_hex (run_id @ [CHR 0x00] @ action_id) @ ''/''
       @ sha256_hex payload @ path_extension path"

definition put_workspace_object ::
  "object_store \<Rightarrow> gostring \<Rightarrow> gostring \<Rightarrow> gostring \<Rightarrow> gostring \<Rightarrow> bool \<Rightarrow> (workspace_error, object_store \<times> workspace_file) result" where
  "put_workspace_object st run_id action_id path payload allow_report =
     (if blank run_id \<or> blank action_id \<or> \<not> valid_workspace_path path allow_report \<or> payload = [] \<or> \<not> utf8_valid payload
      then Inl Invalid_Workspace_Object
      else (case store_put st (workspace_key run_id action_id path payload) payload of
          Inl e \<Rightarrow> Inl (Store_Failed e)
        | Inr st' \<Rightarrow> Inr (st', \<lparr>wf_path = path, wf_object_key = workspace_key run_id action_id path payload,
                             wf_sha256 = sha256_hex payload, wf_bytes = int (length payload)\<rparr>)))"

definition get_workspace_object :: "object_store \<Rightarrow> workspace_file \<Rightarrow> int \<Rightarrow> (workspace_error, gostring) result" where
  "get_workspace_object st f max_bytes =
     (if validate_workspace_file f \<noteq> None \<or> max_bytes < 1 \<or> wf_bytes f > max_bytes then Inl Invalid_Object_Reference
      else (case store_get st (wf_object_key f) max_bytes of
          Inl e \<Rightarrow> Inl (Store_Failed e)
        | Inr payload \<Rightarrow>
            if int (length payload) \<noteq> wf_bytes f \<or> sha256_hex payload \<noteq> wf_sha256 f then Inl Integrity_Mismatch
            else Inr payload))"

section \<open>The current files\<close>

definition file_fields :: "workspace_file \<Rightarrow> (gostring \<times> json) list" where
  "file_fields f = [(''path'', marshal_string (wf_path f)), (''object_key'', marshal_string (wf_object_key f)),
     (''sha256'', marshal_string (wf_sha256 f)), (''bytes'', marshal_int (wf_bytes f))]"

fun decode_file_json :: "json \<Rightarrow> workspace_file option" where
  "decode_file_json (JObj ms) =
     (case (get_string ''path'' ms, get_string ''object_key'' ms, get_string ''sha256'' ms, get_int ''bytes'' ms) of
        (Some p, Some k, Some h, Some n) \<Rightarrow> Some \<lparr>wf_path = p, wf_object_key = k, wf_sha256 = h, wf_bytes = n\<rparr>
      | _ \<Rightarrow> None)"
| "decode_file_json JNull = Some \<lparr>wf_path = [], wf_object_key = [], wf_sha256 = [], wf_bytes = 0\<rparr>"
| "decode_file_json _ = None"

fun decode_file :: "raw \<Rightarrow> workspace_file option" where
  "decode_file (Raw j) = decode_file_json j"
| "decode_file _ = None"

text \<open>The files of a \<open>run_python\<close> Result.\<close>

fun decode_python_files :: "raw \<Rightarrow> workspace_file list option" where
  "decode_python_files (Raw (JObj ms)) =
     (case member_for ''files'' ms of
        None \<Rightarrow> Some []
      | Some JNull \<Rightarrow> Some []
      | Some (JArr xs) \<Rightarrow> all_some (map decode_file_json xs)
      | _ \<Rightarrow> None)"
| "decode_python_files (Raw JNull) = Some []"
| "decode_python_files _ = None"

record workspace_snapshot =
  ss_files :: "(gostring \<times> workspace_file) list"
  ss_order :: "(gostring \<times> nat) list"
  ss_writes :: nat

definition empty_snapshot :: workspace_snapshot where
  "empty_snapshot = \<lparr>ss_files = [], ss_order = [], ss_writes = 0\<rparr>"

definition snapshot_add :: "workspace_file \<Rightarrow> workspace_snapshot \<Rightarrow> workspace_snapshot" where
  "snapshot_add f s =
     \<lparr>ss_files = put_member (wf_path f) f (ss_files s), ss_order = put_member (wf_path f) (ss_writes s + 1) (ss_order s),
      ss_writes = ss_writes s + 1\<rparr>"

definition snapshot_action :: "workspace_snapshot \<Rightarrow> accepted_action \<Rightarrow> workspace_snapshot" where
  "snapshot_action s a =
     (case aa_result a of
        None \<Rightarrow> s
      | Some r \<Rightarrow>
          if ar_status r \<noteq> action_succeeded then s
          else if aa_name a = ''run_python'' then
            (case decode_python_files (ar_output r) of
               None \<Rightarrow> s
             | Some fs \<Rightarrow> fold snapshot_add
                 (filter (\<lambda>f. validate_workspace_file f = None \<and> full_match data_path_regex (wf_path f) \<noteq> None) fs) s)
          else if aa_name a \<noteq> ''write_research_file'' \<and> aa_name a \<noteq> ''edit_research_file'' \<and> aa_name a \<noteq> ''assemble_research_report'' then s
          else (case decode_file (ar_output r) of
              None \<Rightarrow> s
            | Some f \<Rightarrow> if validate_workspace_file f = None then snapshot_add f s else s))"

definition snapshot_of_actions :: "accepted_action list \<Rightarrow> workspace_snapshot" where
  "snapshot_of_actions as = foldl snapshot_action empty_snapshot as"

definition snapshot_from_prefix :: "checkpoint_prefix \<Rightarrow> workspace_snapshot" where
  "snapshot_from_prefix p = snapshot_of_actions (prefix_actions p)"

definition current_file :: "workspace_snapshot \<Rightarrow> gostring \<Rightarrow> workspace_file option" where
  "current_file s path = map_of (ss_files s) path"

definition has_assembled_research_report :: "checkpoint_prefix \<Rightarrow> bool" where
  "has_assembled_research_report p \<longleftrightarrow> current_file (snapshot_from_prefix p) ''report.md'' \<noteq> None"

definition succeeded_as :: "gostring \<Rightarrow> accepted_action \<Rightarrow> bool" where
  "succeeded_as name a \<longleftrightarrow> aa_name a = name \<and> (case aa_result a of None \<Rightarrow> False | Some r \<Rightarrow> ar_status r = action_succeeded)"

definition assembled_after_imports :: "accepted_action list \<Rightarrow> bool" where
  "assembled_after_imports as =
     foldl (\<lambda>b a. if succeeded_as ''assemble_research_report'' a then True
                  else if succeeded_as ''save_url_as_source'' a then False else b) False as"

definition has_assembled_research_report_after_imports :: "checkpoint_prefix \<Rightarrow> bool" where
  "has_assembled_research_report_after_imports p \<longleftrightarrow>
     assembled_after_imports (prefix_actions p) \<and> has_assembled_research_report p"

definition load_assembled_research_report :: "object_store \<Rightarrow> checkpoint_prefix \<Rightarrow> (workspace_error, gostring \<times> bool) result" where
  "load_assembled_research_report st p =
     (case current_file (snapshot_from_prefix p) ''report.md'' of
        None \<Rightarrow> Inr ([], False)
      | Some f \<Rightarrow> bind_result (get_workspace_object st f workspace_report_max) (\<lambda>payload. Inr (payload, True)))"

section \<open>The Actions\<close>

datatype workspace_input_error =
    Invalid_Write_Input | Invalid_Edit_Input | Invalid_Read_Input
  | Invalid_Title | Invalid_Section_Count | Repeated_Section gostring | Invalid_Section gostring

definition domain_error :: "gostring \<Rightarrow> action_result" where
  "domain_error code = \<lparr>ar_status = action_domain_error, ar_output = Raw_Empty, ar_error_code = code, ar_error = None\<rparr>"

definition succeeded :: "(gostring \<times> json) list \<Rightarrow> action_result" where
  "succeeded ms = \<lparr>ar_status = action_succeeded, ar_output = Raw (JObj ms), ar_error_code = [], ar_error = None\<rparr>"

fun decode_write_input :: "raw \<Rightarrow> (workspace_input_error, gostring \<times> gostring) result" where
  "decode_write_input (Raw (JObj ms)) =
     (case (known_members [''path'', ''content''] ms, get_string ''path'' ms, get_string ''content'' ms) of
        (True, Some path, Some content) \<Rightarrow>
          if \<not> valid_workspace_path path False \<or> blank content \<or> int (length content) > workspace_file_max \<or> \<not> utf8_valid content
          then Inl Invalid_Write_Input else Inr (path, content)
      | _ \<Rightarrow> Inl Invalid_Write_Input)"
| "decode_write_input _ = Inl Invalid_Write_Input"

definition store_file ::
  "object_store \<Rightarrow> gostring \<Rightarrow> gostring \<Rightarrow> gostring \<Rightarrow> gostring \<Rightarrow> object_store \<times> action_result" where
  "store_file st run_id action_id path content =
     (case put_workspace_object st run_id action_id path content False of
        Inl _ \<Rightarrow> (st, domain_error ''research_workspace_write_failed'')
      | Inr (st', f) \<Rightarrow> (st', succeeded (file_fields f)))"

definition write_research_file ::
  "object_store \<Rightarrow> gostring \<Rightarrow> gostring \<Rightarrow> raw \<Rightarrow> (workspace_input_error, object_store \<times> action_result) result" where
  "write_research_file st run_id action_id input =
     bind_result (decode_write_input input) (\<lambda>(path, content). Inr (store_file st run_id action_id path content))"

record edit_input =
  ei_path :: gostring
  ei_old :: gostring
  ei_new :: gostring
  ei_all :: bool

text \<open>A \<open>*string\<close> field: \<open>None\<close> is a missing one.\<close>

definition get_pointer :: "gostring \<Rightarrow> (gostring \<times> json) list \<Rightarrow> gostring option option" where
  "get_pointer name ms =
     (case member_for name ms of
        None \<Rightarrow> Some None
      | Some JNull \<Rightarrow> Some None
      | Some (JStr s) \<Rightarrow> Some (Some (to_valid s))
      | _ \<Rightarrow> None)"

fun decode_edit_input :: "raw \<Rightarrow> (workspace_input_error, edit_input) result" where
  "decode_edit_input (Raw (JObj ms)) =
     (case (known_members [''path'', ''old_string'', ''new_string'', ''replace_all''] ms, get_string ''path'' ms,
            get_string ''old_string'' ms, get_pointer ''new_string'' ms, get_bool ''replace_all'' ms) of
        (True, Some path, Some old, Some (Some new), Some all) \<Rightarrow>
          if \<not> valid_workspace_path path False \<or> old = [] \<or> old = new \<or> int (length old) > workspace_file_max
             \<or> int (length new) > workspace_file_max \<or> \<not> utf8_valid old \<or> \<not> utf8_valid new
          then Inl Invalid_Edit_Input
          else Inr \<lparr>ei_path = path, ei_old = old, ei_new = new, ei_all = all\<rparr>
      | _ \<Rightarrow> Inl Invalid_Edit_Input)"
| "decode_edit_input _ = Inl Invalid_Edit_Input"

text \<open>\<open>strings.Count\<close> and \<open>strings.Replace\<close> of a non-empty string.\<close>

fun cut_first :: "gostring \<Rightarrow> gostring \<Rightarrow> (gostring \<times> gostring) option" where
  "cut_first old [] = (if old = [] then Some ([], []) else None)"
| "cut_first old (c # s) =
     (if prefix old (c # s) then Some ([], drop (length old) (c # s))
      else map_option (\<lambda>(a, b). (c # a, b)) (cut_first old s))"

lemma cut_first_parts: "cut_first old s = Some (a, b) \<Longrightarrow> s = a @ old @ b"
  by (induction s arbitrary: a b) (auto simp: prefix_def split: if_splits)

function count_of :: "gostring \<Rightarrow> gostring \<Rightarrow> nat" where
  "count_of old s = (if old = [] then 0 else (case cut_first old s of None \<Rightarrow> 0 | Some (a, b) \<Rightarrow> Suc (count_of old b)))"
  by auto
termination by (relation "measure (\<lambda>(old, s). length s)") (auto dest!: cut_first_parts)

declare count_of.simps [simp del]

fun replace_times :: "nat \<Rightarrow> gostring \<Rightarrow> gostring \<Rightarrow> gostring \<Rightarrow> gostring" where
  "replace_times 0 old new s = s"
| "replace_times (Suc n) old new s =
     (case cut_first old s of None \<Rightarrow> s | Some (a, b) \<Rightarrow> a @ new @ replace_times n old new b)"

definition edit_research_file ::
  "object_store \<Rightarrow> workspace_snapshot \<Rightarrow> gostring \<Rightarrow> gostring \<Rightarrow> raw \<Rightarrow> (workspace_input_error, object_store \<times> action_result) result" where
  "edit_research_file st snapshot run_id action_id input =
     bind_result (decode_edit_input input) (\<lambda>i.
       case current_file snapshot (ei_path i) of
         None \<Rightarrow> Inr (st, domain_error ''research_file_not_found'')
       | Some f \<Rightarrow>
           (case get_workspace_object st f workspace_file_max of
              Inl _ \<Rightarrow> Inr (st, domain_error ''research_workspace_read_failed'')
            | Inr content \<Rightarrow>
                let n = count_of (ei_old i) content in
                if n = 0 then Inr (st, domain_error ''research_edit_not_found'')
                else if n > 1 \<and> \<not> ei_all i then Inr (st, domain_error ''research_edit_not_unique'')
                else
                  let edited = replace_times (if ei_all i then n else 1) (ei_old i) (ei_new i) content in
                  if blank edited \<or> int (length edited) > workspace_file_max
                  then Inr (st, domain_error ''research_edit_result_invalid'')
                  else Inr (store_file st run_id action_id (ei_path i) edited)))"

definition is_virtual_file :: "gostring \<Rightarrow> bool" where
  "is_virtual_file path \<longleftrightarrow> path = ''claims.md'' \<or> path = ''leads.md''"

fun decode_read_input :: "raw \<Rightarrow> (workspace_input_error, gostring) result" where
  "decode_read_input (Raw (JObj ms)) =
     (case (known_members [''path''] ms, get_string ''path'' ms) of
        (True, Some path) \<Rightarrow>
          if \<not> is_virtual_file path \<and> \<not> valid_workspace_path path True then Inl Invalid_Read_Input else Inr path
      | _ \<Rightarrow> Inl Invalid_Read_Input)"
| "decode_read_input _ = Inl Invalid_Read_Input"

definition read_fields :: "gostring \<Rightarrow> gostring \<Rightarrow> gostring \<Rightarrow> int \<Rightarrow> (gostring \<times> json) list" where
  "read_fields path content digest n =
     [(''path'', marshal_string path), (''content'', marshal_string content), (''sha256'', marshal_string digest), (''bytes'', marshal_int n)]"

text \<open>The files that the Run's log determines, \<open>claims.md\<close> and \<open>leads.md\<close>, are given as a parameter.\<close>

definition read_research_file ::
  "(gostring \<Rightarrow> gostring option) \<Rightarrow> object_store \<Rightarrow> workspace_snapshot \<Rightarrow> raw \<Rightarrow> (workspace_input_error, action_result) result" where
  "read_research_file virtual st snapshot input =
     bind_result (decode_read_input input) (\<lambda>path.
       case (if is_virtual_file path then virtual path else None) of
         Some content \<Rightarrow> Inr (succeeded (read_fields path content (sha256_hex content) (int (length content))))
       | None \<Rightarrow>
           (case current_file snapshot path of
              None \<Rightarrow> Inr (domain_error ''research_file_not_found'')
            | Some f \<Rightarrow>
                (case get_workspace_object st f workspace_report_max of
                   Inl _ \<Rightarrow> Inr (domain_error ''research_workspace_read_failed'')
                 | Inr payload \<Rightarrow> Inr (succeeded (read_fields (wf_path f) payload (wf_sha256 f) (wf_bytes f))))))"

definition list_research_files :: "workspace_snapshot \<Rightarrow> action_result" where
  "list_research_files snapshot =
     succeeded [(''files'', JArr (map (\<lambda>(path, f). JObj (file_fields f)) (ss_files snapshot)))]"

section \<open>Assembly\<close>

definition get_strings :: "gostring \<Rightarrow> (gostring \<times> json) list \<Rightarrow> gostring list option" where
  "get_strings name ms =
     (case member_for name ms of
        None \<Rightarrow> Some []
      | Some JNull \<Rightarrow> Some []
      | Some (JArr xs) \<Rightarrow> all_some (map (\<lambda>j. case j of JStr s \<Rightarrow> Some (to_valid s) | JNull \<Rightarrow> Some [] | _ \<Rightarrow> None) xs)
      | _ \<Rightarrow> None)"

fun check_sections :: "gostring list \<Rightarrow> gostring list \<Rightarrow> workspace_input_error option" where
  "check_sections seen [] = None"
| "check_sections seen (path # paths) =
     (if path \<in> set seen then Some (Repeated_Section path)
      else if \<not> prefix ''sections/'' path \<or> \<not> valid_workspace_path path False then Some (Invalid_Section path)
      else check_sections (path # seen) paths)"

datatype assembly_input_error = Malformed_Assembly | Bad_Assembly workspace_input_error

definition check_assembly :: "gostring \<Rightarrow> gostring list \<Rightarrow> (assembly_input_error, gostring \<times> gostring list) result" where
  "check_assembly title paths =
     (if blank title \<or> rune_count title > 500 then Inl (Bad_Assembly Invalid_Title)
      else if length paths < 1 \<or> length paths > 24 then Inl (Bad_Assembly Invalid_Section_Count)
      else (case check_sections [] paths of Some e \<Rightarrow> Inl (Bad_Assembly e) | None \<Rightarrow> Inr (title, paths)))"

fun decode_assembly_input :: "raw \<Rightarrow> (assembly_input_error, gostring \<times> gostring list) result" where
  "decode_assembly_input (Raw (JObj ms)) =
     (case (known_members [''title'', ''section_paths''] ms, get_string ''title'' ms, get_strings ''section_paths'' ms) of
        (True, Some title, Some paths) \<Rightarrow> check_assembly title paths
      | _ \<Rightarrow> Inl Malformed_Assembly)"
| "decode_assembly_input (Raw JNull) = check_assembly [] []"
| "decode_assembly_input _ = Inl Malformed_Assembly"

definition newline :: char where "newline = CHR 0x0A"

fun assemble_sections :: "object_store \<Rightarrow> workspace_snapshot \<Rightarrow> gostring \<Rightarrow> gostring list \<Rightarrow> (gostring, gostring) result" where
  "assemble_sections st snapshot built [] = Inr (built @ [newline])"
| "assemble_sections st snapshot built (path # paths) =
     (case current_file snapshot path of
        None \<Rightarrow> Inl ''research_file_not_found''
      | Some f \<Rightarrow>
          (case get_workspace_object st f workspace_file_max of
             Inl _ \<Rightarrow> Inl ''research_workspace_read_failed''
           | Inr payload \<Rightarrow>
               assemble_sections st snapshot
                 (if trim_space payload = [] then built else built @ [newline, newline] @ trim_space payload) paths))"

text \<open>Sections last written after \<open>review.md\<close>.\<close>

definition write_order :: "workspace_snapshot \<Rightarrow> gostring \<Rightarrow> nat" where
  "write_order s path = (case map_of (ss_order s) path of None \<Rightarrow> 0 | Some n \<Rightarrow> n)"

definition sections_edited_after_review :: "workspace_snapshot \<Rightarrow> gostring list \<Rightarrow> gostring list" where
  "sections_edited_after_review s paths =
     (case map_of (ss_order s) ''review.md'' of
        None \<Rightarrow> []
      | Some reviewed \<Rightarrow> filter (\<lambda>path. write_order s path > reviewed) paths)"

record assembly =
  am_text :: gostring
  am_file :: workspace_file
  am_review :: bool
  am_changed :: "gostring list"

definition assemble_report ::
  "object_store \<Rightarrow> workspace_snapshot \<Rightarrow> gostring \<Rightarrow> gostring \<Rightarrow> gostring \<Rightarrow> gostring list \<Rightarrow> (gostring, object_store \<times> assembly) result" where
  "assemble_report st snapshot run_id action_id title paths =
     bind_result (assemble_sections st snapshot (''# '' @ trim_space title) paths) (\<lambda>body.
       if int (length body) > workspace_report_max then Inl ''research_report_too_large''
       else (case put_workspace_object st run_id action_id ''report.md'' body True of
           Inl _ \<Rightarrow> Inl ''research_workspace_write_failed''
         | Inr (st', f) \<Rightarrow>
             Inr (st', \<lparr>am_text = body, am_file = f, am_review = (current_file snapshot ''review.md'' \<noteq> None),
                        am_changed = sections_edited_after_review snapshot paths\<rparr>)))"

text \<open>What the checks of the assembled text add to the Result is a parameter; none of them blocks.\<close>

definition assemble_research_report ::
  "(assembly \<Rightarrow> (gostring \<times> json) list) \<Rightarrow> object_store \<Rightarrow> workspace_snapshot \<Rightarrow> gostring \<Rightarrow> gostring \<Rightarrow> raw
   \<Rightarrow> (assembly_input_error, object_store \<times> action_result) result" where
  "assemble_research_report advice st snapshot run_id action_id input =
     bind_result (decode_assembly_input input) (\<lambda>(title, paths).
       case assemble_report st snapshot run_id action_id title paths of
         Inl code \<Rightarrow> Inr (st, domain_error code)
       | Inr (st', m) \<Rightarrow>
           Inr (st', succeeded (file_fields (am_file m) @ (''review_present'', JBool (am_review m)) # advice m)))"

section \<open>Digests\<close>

lemma hex_digit_char: "0 \<le> n \<Longrightarrow> n < 16 \<Longrightarrow> hex_char (hex_digit n)"
proof -
  have "list_all (\<lambda>n. hex_char (hex_digit n)) [0..15]" by code_simp
  then show "0 \<le> n \<Longrightarrow> n < 16 \<Longrightarrow> hex_char (hex_digit n)" by (simp add: list_all_iff)
qed

lemma hex_word_length [simp]: "length (hex_word w) = 8"
  by (simp add: hex_word_def)

lemma sha_round_length: "length hs = 8 \<Longrightarrow> length (sha_round hs kw) = 8"
  by (induction hs kw rule: sha_round.induct) (auto simp: Let_def)

lemma sha_rounds_length: "length hs = 8 \<Longrightarrow> length (foldl sha_round hs kws) = 8"
  by (induction kws arbitrary: hs) (simp_all add: sha_round_length)

lemma sha_blocks_length: "length hs = 8 \<Longrightarrow> length (sha_blocks n hs ws) = 8"
  by (induction n arbitrary: hs ws) (simp_all add: sha_block_def sha_rounds_length)

lemma sha256_hex_length [simp]: "length (sha256_hex s) = 64"
proof -
  have "length (concat (map hex_word hs)) = 8 * length hs" for hs by (induction hs) simp_all
  moreover have "length (sha_blocks n initial_hash ws) = 8" for n ws by (rule sha_blocks_length) (simp add: initial_hash_def)
  ultimately show ?thesis by (simp add: sha256_hex_def Let_def)
qed

lemma sha256_hex_chars: "c \<in> set (sha256_hex s) \<Longrightarrow> hex_char c"
  by (auto simp: sha256_hex_def Let_def hex_word_def intro!: hex_digit_char)

lemma hex_char_ascii: "hex_char c \<Longrightarrow> \<not> digit7 c \<and> c \<noteq> CHR ''.''"
  using byte_small [of c] by (auto simp: hex_char_def decimal_def in_range_def byte_def)

lemma sha256_hex_ascii [simp]: "ascii (sha256_hex s)"
  using sha256_hex_chars hex_char_ascii by (auto simp: ascii_def list_all_iff)

lemma hex_decodes_sha256 [simp]: "hex_decodes (sha256_hex s)"
  using sha256_hex_chars by (auto simp: hex_decodes_def list_all_iff)

section \<open>What was put can be got\<close>

lemma valid_path_report: "valid_workspace_path path b \<Longrightarrow> valid_workspace_path path True"
  by (auto simp: valid_workspace_path_def)

lemma put_workspace_object_Inr:
  assumes "put_workspace_object st run_id action_id path payload b = Inr (st', f)"
  shows "store_put st (workspace_key run_id action_id path payload) payload = Inr st'"
    "f = \<lparr>wf_path = path, wf_object_key = workspace_key run_id action_id path payload,
          wf_sha256 = sha256_hex payload, wf_bytes = int (length payload)\<rparr>"
    "payload \<noteq> []" "utf8_valid payload" "valid_workspace_path path b"
  using assms by (auto simp: put_workspace_object_def split: if_splits sum.splits)

lemma put_file_valid:
  assumes "put_workspace_object st run_id action_id path payload b = Inr (st', f)" and "int (length payload) \<le> workspace_report_max"
  shows "validate_workspace_file f = None"
proof -
  note put = put_workspace_object_Inr [OF assms(1)]
  show ?thesis using assms(2) put(3) valid_path_report [OF put(5)]
    by (simp add: put(2) validate_workspace_file_def workspace_key_def)
qed

lemma put_then_get:
  assumes "put_workspace_object st run_id action_id path payload b = Inr (st', f)" and "sorted_members st"
    and "int (length payload) \<le> n" and "int (length payload) \<le> workspace_report_max"
  shows "get_workspace_object st' f n = Inr payload"
proof -
  note put = put_workspace_object_Inr [OF assms(1)]
  have "1 \<le> int (length payload)" using put(3) by (cases payload) simp_all
  moreover have "store_get st' (wf_object_key f) n = Inr payload"
    using memory.get_put_same [OF assms(2) put(1) assms(3)] by (simp add: put(2))
  ultimately show ?thesis using assms(3) put_file_valid [OF assms(1,4)]
    by (simp add: get_workspace_object_def put(2))
qed

lemma append_key_digest:
  assumes "a @ sha256_hex p @ path_extension x = b @ sha256_hex q @ path_extension y"
  shows "sha256_hex p = sha256_hex q"
proof -
  have no_dot: "CHR ''.'' \<notin> set (rev (takeWhile (\<lambda>c. c \<noteq> CHR ''.'') (rev z)))" for z
    by (auto dest: set_takeWhileD)
  have last_dot: "takeWhile (\<lambda>c. c \<noteq> CHR ''.'') (rev (a @ sha256_hex p @ path_extension x)) = takeWhile (\<lambda>c. c \<noteq> CHR ''.'') (rev x)" for a p x
    using no_dot [of x] by (simp add: path_extension_def takeWhile_append)
  have "rev (a @ sha256_hex p @ path_extension x) = rev (b @ sha256_hex q @ path_extension y)" using assms by simp
  then have "takeWhile (\<lambda>c. c \<noteq> CHR ''.'') (rev x) = takeWhile (\<lambda>c. c \<noteq> CHR ''.'') (rev y)" using last_dot by metis
  then have "path_extension x = path_extension y" by (simp add: path_extension_def)
  with assms have "a @ sha256_hex p = b @ sha256_hex q" by simp
  then show ?thesis by (metis append_eq_append_conv sha256_hex_length)
qed

text \<open>Files are immutable: whatever is put later, what was put can still be got, unless the digest collides.\<close>

lemma put_keeps_files:
  assumes "put_workspace_object st run1 act1 path1 old b = Inr (st1, f)" and "sorted_members st2"
    and "get_workspace_object st2 f n = Inr old"
    and "put_workspace_object st2 run2 act2 path2 new c = Inr (st3, g)"
    and "sha256_hex old = sha256_hex new \<longrightarrow> old = new"
  shows "get_workspace_object st3 f n = Inr old"
proof -
  note one = put_workspace_object_Inr [OF assms(1)] and two = put_workspace_object_Inr [OF assms(4)]
  from assms(3) have got: "store_get st2 (wf_object_key f) n = Inr old" and len: "int (length old) \<le> n"
    by (auto simp: get_workspace_object_def one(2) split: if_splits sum.splits)
  have same: "wf_object_key f = workspace_key run2 act2 path2 new \<longrightarrow> new = old"
  proof
    assume "wf_object_key f = workspace_key run2 act2 path2 new"
    then have "sha256_hex old = sha256_hex new"
      using append_key_digest [of "''research-workspaces/'' @ run1 @ ''/'' @ sha256_hex (run1 @ [CHR 0x00] @ act1) @ ''/''" old path1
          "''research-workspaces/'' @ run2 @ ''/'' @ sha256_hex (run2 @ [CHR 0x00] @ act2) @ ''/''" new path2]
      by (simp add: one(2) workspace_key_def)
    with assms(5) show "new = old" by simp
  qed
  have "store_get st3 (wf_object_key f) n = Inr old"
    by (rule memory.put_same_again [OF assms(2) got two(1) same len])
  then have "get_workspace_object st3 f n = get_workspace_object st2 f n"
    unfolding get_workspace_object_def using got by simp
  with assms(3) show ?thesis by simp
qed

section \<open>Reading the log back\<close>

definition ascii_words :: "regex \<Rightarrow> bool" where
  "ascii_words r \<longleftrightarrow> (\<forall>u \<in> lang r. ascii u)"

lemma ascii_words_intros:
  "ascii x \<Longrightarrow> ascii_words (Lit x)"
  "(\<And>c. P c \<Longrightarrow> \<not> digit7 c) \<Longrightarrow> ascii_words (One P)"
  "ascii_words a \<Longrightarrow> ascii_words b \<Longrightarrow> ascii_words (Cat a b)"
  "ascii_words a \<Longrightarrow> ascii_words b \<Longrightarrow> ascii_words (Or a b)"
  by (auto simp: ascii_words_def)

lemma ascii_words_at_most: "ascii_words r \<Longrightarrow> ascii_words (at_most n r)"
  by (induction n) (simp_all add: opt_def ascii_words_intros)

lemma file_char_ascii: "file_char c \<Longrightarrow> \<not> digit7 c" "file_head c \<Longrightarrow> \<not> digit7 c"
  using byte_small [of c] by (auto simp: file_char_def file_head_def lower_def decimal_def in_range_def)

lemma ascii_words_file: "ascii_words ext \<Longrightarrow> ascii_words (file_name_regex ext)"
  unfolding file_name_regex_def
  by (intro ascii_words_intros ascii_words_at_most) (simp_all add: file_char_ascii)

lemma valid_path_ascii: "valid_workspace_path path b \<Longrightarrow> ascii path"
proof -
  have "ascii_words nested_path_regex" "ascii_words data_path_regex"
    unfolding nested_path_regex_def data_path_regex_def
    by (intro ascii_words_intros ascii_words_file; simp)+
  then show "valid_workspace_path path b \<Longrightarrow> ascii path"
    unfolding valid_workspace_path_def full_match_iff by (auto simp: ascii_words_def)
qed

lemma path_extension_ascii: "ascii path \<Longrightarrow> ascii (path_extension path)"
  by (auto simp: path_extension_def ascii_def list_all_iff dest: set_takeWhileD)

lemma decode_file_fields:
  assumes "ascii (wf_path f)" "ascii (wf_object_key f)" "ascii (wf_sha256 f)"
  shows "decode_file (Raw (JObj (file_fields f))) = Some f"
  using assms
  by (simp add: file_fields_def get_string_def get_int_def member_eval marshal_string_def marshal_int_def to_valid_ascii)

lemma put_file_ascii:
  assumes "put_workspace_object st run_id action_id path payload b = Inr (st', f)" "ascii run_id"
  shows "decode_file (Raw (JObj (file_fields f))) = Some f"
proof -
  note put = put_workspace_object_Inr [OF assms(1)]
  have "ascii path" using valid_path_ascii [OF put(5)] .
  then show ?thesis using assms(2) path_extension_ascii by (intro decode_file_fields) (simp_all add: put(2) workspace_key_def)
qed

text \<open>The files of a snapshot are sorted by path, and each is one that could be written.\<close>

definition snapshot_inv :: "workspace_snapshot \<Rightarrow> bool" where
  "snapshot_inv s \<longleftrightarrow> sorted_members (ss_files s) \<and> sorted_members (ss_order s)
     \<and> list_all (\<lambda>(path, f). wf_path f = path \<and> validate_workspace_file f = None) (ss_files s)
     \<and> list_all (\<lambda>(path, n). n \<le> ss_writes s) (ss_order s) \<and> map fst (ss_files s) = map fst (ss_order s)"

lemma put_member_set: "set (put_member k v ms) \<subseteq> insert (k, v) (set ms)"
  by (induction k v ms rule: put_member.induct) auto

lemma put_member_same_keys: "map fst ms = map fst ns \<Longrightarrow> map fst (put_member k v ms) = map fst (put_member k w ns)"
proof (induction k v ms arbitrary: ns rule: put_member.induct)
  case (2 k v a b ms)
  then obtain c ns' where "ns = (a, c) # ns'" "map fst ms = map fst ns'" by (cases ns) auto
  with 2 show ?case by auto
qed simp

lemma snapshot_add_inv:
  assumes "snapshot_inv s" "validate_workspace_file f = None"
  shows "snapshot_inv (snapshot_add f s)"
proof -
  let ?fs = "put_member (wf_path f) f (ss_files s)" and ?os = "put_member (wf_path f) (ss_writes s + 1) (ss_order s)"
  have "sorted_members ?fs" "sorted_members ?os" "map fst ?fs = map fst ?os"
    using assms(1) put_member_same_keys [of "ss_files s" "ss_order s"] by (simp_all add: snapshot_inv_def put_member_sorted)
  moreover have "list_all (\<lambda>(path, f). wf_path f = path \<and> validate_workspace_file f = None) ?fs"
    using assms put_member_set [of "wf_path f" f "ss_files s"] by (fastforce simp: snapshot_inv_def list_all_iff)
  moreover have "list_all (\<lambda>(path, n). n \<le> ss_writes s + 1) ?os"
    using assms(1) put_member_set [of "wf_path f" "ss_writes s + 1" "ss_order s"] by (fastforce simp: snapshot_inv_def list_all_iff)
  ultimately show ?thesis by (simp add: snapshot_add_def snapshot_inv_def)
qed

lemma snapshot_fold_inv: "snapshot_inv s \<Longrightarrow> list_all (\<lambda>f. validate_workspace_file f = None) fs \<Longrightarrow> snapshot_inv (fold snapshot_add fs s)"
  by (induction fs arbitrary: s) (simp_all add: snapshot_add_inv)

lemma snapshot_action_inv:
  assumes "snapshot_inv s"
  shows "snapshot_inv (snapshot_action s a)"
proof -
  have "snapshot_inv (fold snapshot_add (filter (\<lambda>f. validate_workspace_file f = None \<and> full_match data_path_regex (wf_path f) \<noteq> None) fs) s)" for fs
    using assms by (intro snapshot_fold_inv) (simp_all add: list_all_iff)
  with assms snapshot_add_inv show ?thesis by (simp add: snapshot_action_def split: option.splits)
qed

lemma snapshot_of_actions_snoc: "snapshot_of_actions (as @ [a]) = snapshot_action (snapshot_of_actions as) a"
  by (simp add: snapshot_of_actions_def)

lemma snapshot_of_actions_inv: "snapshot_inv (snapshot_of_actions as)"
proof (induction as rule: rev_induct)
  case Nil
  show ?case by (simp add: snapshot_of_actions_def empty_snapshot_def snapshot_inv_def sorted_members_def)
next
  case (snoc a as)
  then show ?case by (simp add: snapshot_of_actions_snoc snapshot_action_inv)
qed

lemma current_after_add: "snapshot_inv s \<Longrightarrow> current_file (snapshot_add f s) = (current_file s)(wf_path f \<mapsto> f)"
  by (rule ext) (simp add: current_file_def snapshot_add_def snapshot_inv_def map_of_put_member)

lemma status_neq [simp]: "action_domain_error \<noteq> action_succeeded" "action_succeeded \<noteq> action_domain_error"
  by (simp_all add: action_domain_error_def action_succeeded_def)

lemma file_max_report: "int n \<le> workspace_file_max \<Longrightarrow> int n \<le> workspace_report_max"
  by (simp add: workspace_file_max_def workspace_report_max_def max_final_draft_bytes_def)

text \<open>A file that an Action stored is, once the Action is in the log, the current one of its path.\<close>

lemma store_file_current:
  assumes stored: "store_file st run_id action_id path content = (st', r)" "ar_status r = action_succeeded"
    and pre: "sorted_members st" "ascii run_id" "int (length content) \<le> workspace_file_max"
    and a: "aa_result a = Some r" "aa_name a = ''write_research_file'' \<or> aa_name a = ''edit_research_file''"
  shows "\<exists>f. current_file (snapshot_of_actions (as @ [a])) path = Some f \<and> wf_path f = path \<and> wf_sha256 f = sha256_hex content
    \<and> wf_bytes f = int (length content) \<and> (\<forall>n \<ge> int (length content). get_workspace_object st' f n = Inr content)"
proof -
  from stored obtain f where put: "put_workspace_object st run_id action_id path content False = Inr (st', f)"
    and r: "r = succeeded (file_fields f)"
    by (auto simp: store_file_def domain_error_def split: sum.splits)
  note f = put_workspace_object_Inr(2) [OF put]
  have valid: "validate_workspace_file f = None" using put_file_valid [OF put file_max_report [OF pre(3)]] .
  have "snapshot_of_actions (as @ [a]) = snapshot_add f (snapshot_of_actions as)"
    using a put_file_ascii [OF put pre(2)] valid
    by (auto simp: snapshot_of_actions_snoc snapshot_action_def r succeeded_def simp del: decode_file.simps)
  then have "current_file (snapshot_of_actions (as @ [a])) path = Some f"
    using current_after_add [OF snapshot_of_actions_inv, of f as] by (simp add: f)
  moreover have "get_workspace_object st' f n = Inr content" if "n \<ge> int (length content)" for n
    using put_then_get [OF put pre(1) that file_max_report [OF pre(3)]] .
  ultimately show ?thesis by (auto simp: f)
qed

lemma decode_write_input_Inr:
  "decode_write_input input = Inr (path, content) \<Longrightarrow> valid_workspace_path path False \<and> int (length content) \<le> workspace_file_max"
  by (induction input rule: decode_write_input.induct) (auto split: bool.splits option.splits if_splits)

lemma virtual_not_valid: "is_virtual_file path \<Longrightarrow> \<not> valid_workspace_path path False"
proof -
  have "\<not> valid_workspace_path ''claims.md'' False" "\<not> valid_workspace_path ''leads.md'' False" by code_simp+
  then show "is_virtual_file path \<Longrightarrow> \<not> valid_workspace_path path False" by (auto simp: is_virtual_file_def)
qed

section \<open>Editing\<close>

lemma count_none: "old \<noteq> [] \<Longrightarrow> count_of old s = 0 \<longleftrightarrow> cut_first old s = None"
  by (subst count_of.simps) (auto split: option.splits)

lemma cut_first_none: "cut_first old s = None \<longleftrightarrow> (\<nexists>a b. s = a @ old @ b)"
proof (induction s)
  case (Cons c s)
  have "(\<exists>a b. c # s = a @ old @ b) \<longleftrightarrow> prefix old (c # s) \<or> (\<exists>a b. s = a @ old @ b)"
    by (metis Cons_eq_append_conv append_Cons append_Nil prefix_def)
  with Cons show ?case by auto
qed auto

text \<open>An edit of one place: the old text occurs, and not again after where it is replaced.\<close>

lemma replace_one:
  assumes "old \<noteq> []" "count_of old s = 1"
  shows "\<exists>a b. s = a @ old @ b \<and> replace_times 1 old new s = a @ new @ b \<and> (\<nexists>x y. b = x @ old @ y)"
proof -
  from assms obtain a b where ab: "cut_first old s = Some (a, b)" "count_of old b = 0"
    by (subst (asm) count_of.simps) (auto split: option.splits if_splits)
  from ab(2) count_none [OF assms(1)] cut_first_none have "\<nexists>x y. b = x @ old @ y" by metis
  with ab(1) cut_first_parts [OF ab(1)] show ?thesis by auto
qed

lemma replace_all_complete: "old \<noteq> [] \<Longrightarrow> count_of old s \<le> n \<Longrightarrow> replace_times n old new s = replace_times (count_of old s) old new s"
proof (induction n arbitrary: s)
  case (Suc n)
  show ?case
  proof (cases "cut_first old s")
    case None
    then have "count_of old s = 0" using count_none [OF Suc.prems(1)] by simp
    with None show ?thesis by simp
  next
    case (Some p)
    then obtain a b where p: "cut_first old s = Some (a, b)" by (cases p) auto
    with Suc.prems(1) have "count_of old s = Suc (count_of old b)" by (subst count_of.simps) simp
    with Suc p show ?thesis by simp
  qed
qed simp

section \<open>The assembled text\<close>

definition section_block :: "gostring \<Rightarrow> gostring" where
  "section_block payload = (if trim_space payload = [] then [] else [newline, newline] @ trim_space payload)"

lemma assemble_sections_text:
  "assemble_sections st snapshot built paths = Inr body \<Longrightarrow>
   \<exists>payloads. list_all2 (\<lambda>path payload. \<exists>f. current_file snapshot path = Some f \<and> get_workspace_object st f workspace_file_max = Inr payload) paths payloads
     \<and> body = built @ concat (map section_block payloads) @ [newline]"
proof (induction st snapshot built paths rule: assemble_sections.induct)
  case (2 st snapshot built path paths)
  then obtain f payload where f: "current_file snapshot path = Some f" "get_workspace_object st f workspace_file_max = Inr payload"
    by (auto split: option.splits sum.splits)
  have block: "(if trim_space payload = [] then built else built @ [newline, newline] @ trim_space payload) = built @ section_block payload"
    by (simp add: section_block_def)
  from 2(2) f have "assemble_sections st snapshot (built @ section_block payload) paths = Inr body"
    by (simp add: block [symmetric])
  with "2.IH" [OF f] obtain payloads where
    "list_all2 (\<lambda>path payload. \<exists>f. current_file snapshot path = Some f \<and> get_workspace_object st f workspace_file_max = Inr payload) paths payloads"
    "body = (built @ section_block payload) @ concat (map section_block payloads) @ [newline]"
    unfolding block by blast
  with f show ?case by (intro exI [of _ "payload # payloads"]) auto
qed simp

section \<open>Properties\<close>

lemma check_sections_None:
  "check_sections seen paths = None \<Longrightarrow> distinct paths \<and> set paths \<inter> set seen = {} \<and> list_all (\<lambda>p. prefix ''sections/'' p \<and> valid_workspace_path p False) paths"
  by (induction seen paths rule: check_sections.induct) (auto split: if_splits)

text \<open>
  C17: what a write_research_file Action stored is what read_research_file returns: the Action having
  succeeded and being in the log, a read of its path gives the content with its SHA-256 and length.
\<close>

theorem written_file_reads_back:
  assumes "write_research_file st run_id action_id input = Inr (st', r)" and "decode_write_input input = Inr (path, content)"
    and "ar_status r = action_succeeded" and "sorted_members st" and "ascii run_id"
    and "aa_name a = ''write_research_file''" and "aa_result a = Some r" and "decode_read_input again = Inr path"
  shows "read_research_file virtual st' (snapshot_of_actions (as @ [a])) again
    = Inr (succeeded (read_fields path content (sha256_hex content) (int (length content))))"
proof -
  note valid = decode_write_input_Inr [OF assms(2)]
  from assms(1,2) have "store_file st run_id action_id path content = (st', r)" by (simp add: write_research_file_def)
  from store_file_current [OF this assms(3,4,5) _ assms(7), of as] assms(6) valid obtain f where
    "current_file (snapshot_of_actions (as @ [a])) path = Some f" "wf_path f = path" "wf_sha256 f = sha256_hex content"
    "wf_bytes f = int (length content)" "\<forall>n \<ge> int (length content). get_workspace_object st' f n = Inr content" by blast
  moreover have "\<not> is_virtual_file path" using virtual_not_valid valid by blast
  moreover have "int (length content) \<le> workspace_report_max" using valid file_max_report by blast
  ultimately show ?thesis using assms(8) by (simp add: read_research_file_def)
qed

definition sample_write :: raw where
  "sample_write = Raw (JObj [(''path'', JStr ''review.md''), (''content'', JStr ''ok'')])"
definition sample_read :: raw where "sample_read = Raw (JObj [(''path'', JStr ''review.md'')])"

lemma sample_workspace:
  "decode_write_input sample_write = Inr (''review.md'', ''ok'')" "decode_read_input sample_read = Inr ''review.md''"
  by (code_simp, code_simp)

lemma sample_stored:
  "\<exists>st r. write_research_file [] ''r'' ''a'' sample_write = Inr (st, r) \<and> ar_status r = action_succeeded"
proof -
  have "\<not> blank ''r''" "\<not> blank ''a''" "valid_workspace_path ''review.md'' False" "utf8_valid ''ok''" by code_simp+
  moreover have "\<not> blank (workspace_key ''r'' ''a'' ''review.md'' ''ok'')"
    by (rule not_blank_letter) (simp add: workspace_key_def)
  ultimately show ?thesis
    by (simp add: write_research_file_def sample_workspace store_file_def put_workspace_object_def store_put_def succeeded_def)
qed

theorem written_file_reads_back_witness:
  "\<exists>st r. write_research_file [] ''r'' ''a'' sample_write = Inr (st, r) \<and>
     read_research_file (\<lambda>_. None) st (snapshot_of_actions ([] @ [\<lparr>aa_action_id = ''a'', aa_index = 0, aa_name = ''write_research_file'',
       aa_input = sample_write, aa_result = Some r\<rparr>])) sample_read
     = Inr (succeeded (read_fields ''review.md'' ''ok'' (sha256_hex ''ok'') 2))"
proof -
  obtain st r where w: "write_research_file [] ''r'' ''a'' sample_write = Inr (st, r)" and ok: "ar_status r = action_succeeded"
    using sample_stored by blast
  have start: "sorted_members ([] :: object_store)" "ascii ''r''" by (simp add: sorted_members_def) code_simp
  let ?a = "\<lparr>aa_action_id = ''a'', aa_index = 0, aa_name = ''write_research_file'', aa_input = sample_write, aa_result = Some r\<rparr>"
  have "read_research_file (\<lambda>_. None) st (snapshot_of_actions ([] @ [?a])) sample_read
      = Inr (succeeded (read_fields ''review.md'' ''ok'' (sha256_hex ''ok'') (int (length ''ok''))))"
    by (rule written_file_reads_back [OF w sample_workspace(1) ok start _ _ sample_workspace(2)]) simp_all
  with w show ?thesis by auto
qed


lemma put_possible:
  assumes "\<not> blank run_id" "\<not> blank action_id" "valid_workspace_path path b" "payload \<noteq> []" "utf8_valid payload"
  shows "\<exists>st' f. put_workspace_object st run_id action_id path payload b = Inr (st', f)"
proof -
  have "\<not> blank (workspace_key run_id action_id path payload)"
    by (rule not_blank_letter) (simp add: workspace_key_def)
  with assms show ?thesis by (simp add: put_workspace_object_def store_put_def)
qed

lemma sample_section:
  "\<exists>st f. put_workspace_object [] ''r'' ''a'' ''sections/a.md'' ''x'' False = Inr (st, f)"
  "check_assembly ''t'' [''sections/a.md''] = Inr (''t'', [''sections/a.md''])"
proof -
  have "\<not> blank ''r''" "\<not> blank ''a''" "valid_workspace_path ''sections/a.md'' False" "utf8_valid ''x''" by code_simp+
  then show "\<exists>st f. put_workspace_object [] ''r'' ''a'' ''sections/a.md'' ''x'' False = Inr (st, f)"
    by (intro put_possible) simp_all
  show "check_assembly ''t'' [''sections/a.md''] = Inr (''t'', [''sections/a.md''])" by code_simp
qed


end
