(* ===== verification/Research_Completion.thy ===== *)
theory Research_Completion
  imports Card_Citations Research_Workspace Controller_Budget Agent_References
begin

text \<open>
  How a Research Run ends (\<open>internal/agent/research_completion.go\<close>, and \<open>PrepareDecisionResponse\<close> of
  \<open>research_runtime.go\<close>): a declaration of every research question is checked against the claim cards and
  the assembled report; a question declared \<open>not_found\<close> without a card is sent back for one more round;
  Final needs an accepted declaration. The texts of the problems are \<open>problem_text\<close>.
\<close>

section \<open>Declarations\<close>

definition research_completion_version :: int where "research_completion_version = 42"
definition research_completion_max_note :: nat where "research_completion_max_note = 500"
definition research_completion_max_cards :: nat where "research_completion_max_cards = 30"
definition research_completion_max_listed :: nat where "research_completion_max_listed = 8"

definition question_answered :: gostring where "question_answered = ''answered''"
definition question_partial :: gostring where "question_partial = ''partial''"
definition question_not_found :: gostring where "question_not_found = ''not_found''"

definition stop_answered :: gostring where "stop_answered = ''answered''"
definition stop_partial :: gostring where "stop_partial = ''partially_answered''"
definition stop_budget :: gostring where "stop_budget = ''budget''"
definition stop_undeclared :: gostring where "stop_undeclared = ''undeclared''"

record completion_question =
  cq_question :: int
  cq_status :: gostring
  cq_cards :: "gostring list"
  cq_note :: gostring

definition question_fields :: "gostring list" where
  "question_fields = [''question'', ''status'', ''cards'', ''note'']"

fun decode_question :: "json \<Rightarrow> completion_question option" where
  "decode_question (JObj ms) =
     (case (get_int ''question'' ms, get_string ''status'' ms, get_strings ''cards'' ms, get_string ''note'' ms) of
        (Some q, Some s, Some cs, Some n) \<Rightarrow> Some \<lparr>cq_question = q, cq_status = s, cq_cards = cs, cq_note = n\<rparr>
      | _ \<Rightarrow> None)"
| "decode_question JNull = Some \<lparr>cq_question = 0, cq_status = [], cq_cards = [], cq_note = []\<rparr>"
| "decode_question _ = None"

fun exact_question :: "json \<Rightarrow> bool" where
  "exact_question (JObj ms) \<longleftrightarrow> known_members question_fields ms"
| "exact_question _ \<longleftrightarrow> True"

datatype completion_input_error =
    Malformed_Completion
  | Bad_Question_Count
  | Bad_Question_Number
  | Bad_Question_Status int
  | Too_Many_Cards int
  | Long_Note int

text \<open>\<open>strings.Trim(card, "[]")\<close>.\<close>

definition bracket :: "char \<Rightarrow> bool" where "bracket c \<longleftrightarrow> c = CHR ''['' \<or> c = CHR '']''"

definition trim_brackets :: "gostring \<Rightarrow> gostring" where
  "trim_brackets s = rev (dropWhile bracket (rev (dropWhile bracket s)))"

definition check_question :: "completion_question \<Rightarrow> (completion_input_error, completion_question) result" where
  "check_question q0 =
     (let q = q0\<lparr>cq_note := trim_space (cq_note q0)\<rparr> in
      if cq_question q < 1 \<or> cq_question q > claim_record_max_question then Inl Bad_Question_Number
      else if cq_status q \<noteq> question_answered \<and> cq_status q \<noteq> question_partial \<and> cq_status q \<noteq> question_not_found
      then Inl (Bad_Question_Status (cq_question q))
      else if length (cq_cards q) > research_completion_max_cards then Inl (Too_Many_Cards (cq_question q))
      else if rune_count (cq_note q) > research_completion_max_note then Inl (Long_Note (cq_question q))
      else Inr (q\<lparr>cq_cards := map (\<lambda>card. canonical_claim_id (trim_space (trim_brackets card))) (cq_cards q)\<rparr>))"

fun check_questions :: "completion_question list \<Rightarrow> (completion_input_error, completion_question list) result" where
  "check_questions [] = Inr []"
| "check_questions (q # qs) = bind_result (check_question q) (\<lambda>q'. bind_result (check_questions qs) (\<lambda>qs'. Inr (q' # qs')))"

fun decode_completion_input :: "raw \<Rightarrow> (completion_input_error, completion_question list) result" where
  "decode_completion_input (Raw (JObj ms)) =
     (if \<not> known_members [''questions''] ms then Inl Malformed_Completion
      else (case member_for ''questions'' ms of
          None \<Rightarrow> Inl Bad_Question_Count
        | Some JNull \<Rightarrow> Inl Bad_Question_Count
        | Some (JArr xs) \<Rightarrow>
            (case (list_all exact_question xs, all_some (map decode_question xs)) of
               (True, Some qs) \<Rightarrow>
                 if int (length qs) > claim_record_max_question then Inl Bad_Question_Count else check_questions qs
             | _ \<Rightarrow> Inl Malformed_Completion)
        | _ \<Rightarrow> Inl Malformed_Completion))"
| "decode_completion_input (Raw JNull) = Inl Bad_Question_Count"
| "decode_completion_input _ = Inl Malformed_Completion"

section \<open>The check\<close>

datatype completion_problem =
    Not_Assembled
  | Still_Running "gostring list"
  | Declared_Twice int
  | Not_In_Plan int int
  | Not_Declared "int list"
  | Names_No_Card int gostring
  | Unknown_Cards int "gostring list"
  | Unusable_Cards int "gostring list"
  | Uncited_Cards int "gostring list"
  | Needs_Round "int list"

record completion_output =
  cm_accepted :: bool
  cm_stop :: gostring
  cm_questions :: "completion_question list"
  cm_problems :: "completion_problem list"
  cm_retry :: "int list"

record running_subagent =
  rn_agent_id :: gostring
  rn_task_name :: gostring

record completion_check =
  cc_questions :: "completion_question list"
  cc_claims :: "research_claim list"
  cc_cited :: "gostring list"
  cc_plan :: int
  cc_running :: "running_subagent list"
  cc_exhausted :: bool
  cc_retried :: "int list"

definition usable_research_claim :: "research_claim \<Rightarrow> bool" where
  "usable_research_claim c \<longleftrightarrow> co_status c = ''verified'' \<or> co_status c = ''near_match''"

fun declared_problems :: "int \<Rightarrow> int list \<Rightarrow> completion_question list \<Rightarrow> completion_problem list" where
  "declared_problems plan seen [] = []"
| "declared_problems plan seen (q # qs) =
     (if cq_question q \<in> set seen then [Declared_Twice (cq_question q)]
      else if plan > 0 \<and> cq_question q > plan then [Not_In_Plan (cq_question q) plan] else [])
     @ declared_problems plan (cq_question q # seen) qs"

definition missing_questions :: "completion_check \<Rightarrow> int list" where
  "missing_questions c = filter (\<lambda>n. n \<notin> cq_question ` set (cc_questions c)) [1..cc_plan c]"

definition tagged_cards :: "completion_check \<Rightarrow> int \<Rightarrow> nat" where
  "tagged_cards c n = length (filter (\<lambda>x. usable_research_claim x \<and> rc_question x > 0 \<and> rc_question x = n) (cc_claims c))"

definition some_problem :: "('a list \<Rightarrow> completion_problem) \<Rightarrow> 'a list \<Rightarrow> completion_problem list" where
  "some_problem P xs = (if xs = [] then [] else [P xs])"

definition unknown_cards :: "completion_check \<Rightarrow> completion_question \<Rightarrow> gostring list" where
  "unknown_cards c q = filter (\<lambda>i. claim_by_id (cc_claims c) i = None) (cq_cards q)"

definition unusable_cards :: "completion_check \<Rightarrow> completion_question \<Rightarrow> gostring list" where
  "unusable_cards c q =
     List.map_filter (\<lambda>i. case claim_by_id (cc_claims c) i of
         None \<Rightarrow> None
       | Some x \<Rightarrow> if usable_research_claim x then None else Some (i @ '' ('' @ co_status x @ '')'')) (cq_cards q)"

definition uncited_cards :: "completion_check \<Rightarrow> completion_question \<Rightarrow> gostring list" where
  "uncited_cards c q =
     filter (\<lambda>i. case claim_by_id (cc_claims c) i of
         None \<Rightarrow> False
       | Some x \<Rightarrow> usable_research_claim x \<and> i \<notin> set (cc_cited c)) (cq_cards q)"

definition question_problems :: "completion_check \<Rightarrow> completion_question \<Rightarrow> completion_problem list" where
  "question_problems c q =
     (if cq_status q \<noteq> question_not_found \<and> cq_cards q = [] then [Names_No_Card (cq_question q) (cq_status q)] else [])
     @ some_problem (Unknown_Cards (cq_question q)) (unknown_cards c q)
     @ some_problem (Unusable_Cards (cq_question q)) (unusable_cards c q)
     @ some_problem (Uncited_Cards (cq_question q)) (uncited_cards c q)"

definition wants_round :: "completion_check \<Rightarrow> completion_question \<Rightarrow> bool" where
  "wants_round c q \<longleftrightarrow>
     cq_status q = question_not_found \<and> tagged_cards c (cq_question q) = 0 \<and> \<not> cc_exhausted c
     \<and> cq_question q \<notin> set (cc_retried c)"

definition retry_questions :: "completion_check \<Rightarrow> int list" where
  "retry_questions c = map cq_question (filter (wants_round c) (cc_questions c))"

definition agent_label :: "running_subagent \<Rightarrow> gostring" where
  "agent_label a = first_non_empty [rn_task_name a, rn_agent_id a]"

definition completion_problems :: "completion_check \<Rightarrow> completion_problem list" where
  "completion_problems c =
     some_problem Still_Running (map agent_label (cc_running c))
     @ declared_problems (cc_plan c) [] (cc_questions c)
     @ some_problem Not_Declared (missing_questions c)
     @ concat (map (question_problems c) (cc_questions c))
     @ some_problem Needs_Round (retry_questions c)"

text \<open>The questions are sorted by number; numbers are distinct here, so that the order is determined.\<close>

definition stop_reason :: "completion_check \<Rightarrow> gostring" where
  "stop_reason c =
     (if cc_exhausted c then stop_budget
      else if list_all (\<lambda>q. cq_status q = question_answered) (cc_questions c) then stop_answered else stop_partial)"

definition check_research_completion :: "completion_check \<Rightarrow> completion_output" where
  "check_research_completion c =
     (if completion_problems c \<noteq> []
      then \<lparr>cm_accepted = False, cm_stop = [], cm_questions = [], cm_problems = completion_problems c, cm_retry = retry_questions c\<rparr>
      else \<lparr>cm_accepted = True, cm_stop = stop_reason c, cm_questions = sort_key cq_question (cc_questions c),
             cm_problems = [], cm_retry = []\<rparr>)"

section \<open>The Result\<close>

definition join :: "gostring \<Rightarrow> gostring list \<Rightarrow> gostring" where
  "join sep xs = (case xs of [] \<Rightarrow> [] | y # ys \<Rightarrow> y @ concat (map (\<lambda>x. sep @ x) ys))"

definition list_names :: "gostring list \<Rightarrow> gostring" where
  "list_names names =
     (if length names \<le> research_completion_max_listed then join '', '' names
      else join '', '' (take research_completion_max_listed names) @ '' and ''
        @ itoa (int (length names - research_completion_max_listed)) @ '' more'')"

definition question_label :: "int \<Rightarrow> gostring" where "question_label n = ''Q'' @ itoa n"

fun problem_text :: "completion_problem \<Rightarrow> gostring" where
  "problem_text Not_Assembled =
     ''report.md has not been assembled since the last source import: assemble the reviewed sections first.''"
| "problem_text (Still_Running names) =
     ''Subagents still running: '' @ list_names names @ ''. Collect them with wait_agent and use their cards before completing.''"
| "problem_text (Declared_Twice n) = question_label n @ '' is declared more than once.''"
| "problem_text (Not_In_Plan n plan) =
     question_label n @ '' is not in the accepted plan, which lists '' @ itoa plan @ '' research questions.''"
| "problem_text (Not_Declared ns) =
     ''Missing from the declaration: '' @ list_names (map question_label ns) @ ''. Declare every research question of the accepted plan.''"
| "problem_text (Names_No_Card n status) =
     question_label n @ '' is '' @ status @ '' but names no claim card: list the cards behind its answer, or declare it not_found.''"
| "problem_text (Unknown_Cards n cards) = question_label n @ '' names cards that do not exist: '' @ list_names cards @ ''.''"
| "problem_text (Unusable_Cards n cards) =
     question_label n @ '' names cards that failed verification: '' @ list_names cards
     @ ''. Drop them, or record verified cards for those findings and cite those instead.''"
| "problem_text (Uncited_Cards n cards) =
     question_label n @ '' names cards the report never cites: '' @ list_names cards @ ''. Cite them where the report answers ''
     @ question_label n @ '', or drop them from the declaration.''"
| "problem_text (Needs_Round ns) =
     list_names (map question_label ns) @ '' declared not_found without a single usable card for that question. Run one more targeted round for each: new queries, other source families, and the unread leads, recording cards tagged with the question. Then call complete_research again; if that round still finds nothing, not_found is accepted.''"

definition accepted_guidance :: gostring where
  "accepted_guidance = ''Completion accepted. Return Final now as the completion signal; do not repeat the report.''"
definition rejected_guidance :: gostring where
  "rejected_guidance = ''Completion rejected. Fix each problem, then call complete_research again. Do not return Final until a declaration is accepted.''"

definition omit_empty :: "gostring \<Rightarrow> json list \<Rightarrow> (gostring \<times> json) list" where
  "omit_empty name xs = (if xs = [] then [] else [(name, JArr xs)])"

definition question_json :: "completion_question \<Rightarrow> json" where
  "question_json q = JObj ([(''question'', marshal_int (cq_question q)), (''status'', marshal_string (cq_status q))]
     @ omit_empty ''cards'' (map marshal_string (cq_cards q))
     @ (if cq_note q = [] then [] else [(''note'', marshal_string (cq_note q))]))"

definition completion_result :: "completion_output \<Rightarrow> action_result" where
  "completion_result out = succeeded (
     [(''accepted'', JBool (cm_accepted out))]
     @ (if cm_stop out = [] then [] else [(''stop_reason'', marshal_string (cm_stop out))])
     @ omit_empty ''questions'' (map question_json (cm_questions out))
     @ omit_empty ''problems'' (map (\<lambda>p. marshal_string (problem_text p)) (cm_problems out))
     @ omit_empty ''retry_questions'' (map marshal_int (cm_retry out))
     @ [(''guidance'', marshal_string (if cm_accepted out then accepted_guidance else rejected_guidance))])"

section \<open>Declarations in the log\<close>

record declared_output =
  de_accepted :: bool
  de_stop :: gostring
  de_questions :: "completion_question list"
  de_retry :: "int list"

definition get_list :: "(json \<Rightarrow> 'a option) \<Rightarrow> gostring \<Rightarrow> (gostring \<times> json) list \<Rightarrow> 'a list option" where
  "get_list decode name ms =
     (case member_for name ms of
        None \<Rightarrow> Some []
      | Some JNull \<Rightarrow> Some []
      | Some (JArr xs) \<Rightarrow> all_some (map decode xs)
      | _ \<Rightarrow> None)"

fun decode_number :: "json \<Rightarrow> int option" where
  "decode_number (JNum t) = atoi t"
| "decode_number JNull = Some 0"
| "decode_number _ = None"

fun decode_output :: "raw \<Rightarrow> declared_output option" where
  "decode_output (Raw (JObj ms)) =
     (case (get_bool ''accepted'' ms, get_string ''stop_reason'' ms, get_list decode_question ''questions'' ms,
            get_strings ''problems'' ms, get_list decode_number ''retry_questions'' ms, get_string ''guidance'' ms) of
        (Some a, Some st, Some qs, Some _, Some rs, Some _) \<Rightarrow>
          Some \<lparr>de_accepted = a, de_stop = st, de_questions = qs, de_retry = rs\<rparr>
      | _ \<Rightarrow> None)"
| "decode_output (Raw JNull) = Some \<lparr>de_accepted = False, de_stop = [], de_questions = [], de_retry = []\<rparr>"
| "decode_output _ = None"

definition declared_by :: "accepted_action \<Rightarrow> declared_output option" where
  "declared_by a =
     (case succeeded_output ''complete_research'' a of None \<Rightarrow> None | Some out \<Rightarrow> decode_output out)"

definition retry_actions :: "gostring list" where
  "retry_actions = [''web_search'', ''read_url'', ''read_document_pages'', ''read_source'',
     ''search_evidence'', ''search_text'', ''save_url_as_source'', ''spawn_agent'']"

definition searched_in :: "accepted_proposal \<Rightarrow> bool" where
  "searched_in p = list_ex (\<lambda>a. \<exists>name \<in> set retry_actions. succeeded_as name a) (apr_actions p)"

definition asked_in :: "accepted_proposal \<Rightarrow> int list" where
  "asked_in p = concat (map (\<lambda>a. case declared_by a of None \<Rightarrow> [] | Some out \<Rightarrow> de_retry out) (apr_actions p))"

text \<open>The questions that wait for their round, and those that had it.\<close>

definition retry_step :: "int list \<times> int list \<Rightarrow> accepted_proposal \<Rightarrow> int list \<times> int list" where
  "retry_step s p =
     (case s of (pending, had) \<Rightarrow>
        let (pending', had') = (if searched_in p then ([], pending @ had) else (pending, had))
        in (filter (\<lambda>n. n \<notin> set had') (asked_in p) @ pending', had'))"

definition retried_questions :: "checkpoint_prefix \<Rightarrow> int list" where
  "retried_questions p = snd (foldl retry_step ([], []) (cx_proposals p))"

definition completion_step :: "declared_output option \<Rightarrow> accepted_action \<Rightarrow> declared_output option" where
  "completion_step latest a =
     (let latest' = (if succeeded_as ''assemble_research_report'' a then None else latest)
      in (case declared_by a of Some out \<Rightarrow> if de_accepted out then Some out else latest' | None \<Rightarrow> latest'))"

definition accepted_research_completion :: "checkpoint_prefix \<Rightarrow> declared_output option" where
  "accepted_research_completion p = foldl completion_step None (prefix_actions p)"

section \<open>The Action\<close>

text \<open>What the Action reads: the object store, the tree of cards, and three answers of the database.\<close>

record completion_backend =
  cb_store :: object_store
  cb_tree :: claim_tree
  cb_questions :: "gostring list"
  cb_running :: "running_subagent list"
  cb_exhausted :: bool

datatype completion_failure =
    Bad_Completion_Input completion_input_error
  | Tree_Without_Run
  | Endless_Citation

definition completion_check_of ::
  "completion_backend \<Rightarrow> checkpoint_prefix \<Rightarrow> completion_question list \<Rightarrow> gostring list \<Rightarrow> completion_check" where
  "completion_check_of b root qs cited =
     \<lparr>cc_questions = qs, cc_claims = collect_research_claims (cb_tree b), cc_cited = cited,
      cc_plan = int (length (cb_questions b)), cc_running = cb_running b, cc_exhausted = cb_exhausted b,
      cc_retried = retried_questions root\<rparr>"

definition complete_research ::
  "completion_backend \<Rightarrow> gostring \<Rightarrow> raw \<Rightarrow> (completion_failure, action_result) result" where
  "complete_research b run_id input =
     (case decode_completion_input input of
        Inl e \<Rightarrow> Inl (Bad_Completion_Input e)
      | Inr qs \<Rightarrow>
          (case tree_run (cb_tree b) run_id of
             None \<Rightarrow> Inl Tree_Without_Run
           | Some root \<Rightarrow>
               if \<not> has_assembled_research_report_after_imports (cr_prefix root)
               then Inr (completion_result \<lparr>cm_accepted = False, cm_stop = [], cm_questions = [],
                       cm_problems = [Not_Assembled], cm_retry = []\<rparr>)
               else (case load_assembled_research_report (cb_store b) (cr_prefix root) of
                   Inl _ \<Rightarrow> Inr (domain_error ''research_workspace_read_failed'')
                 | Inr (report, _) \<Rightarrow>
                     (case cited_research_claim_ids report (collect_research_claims (cb_tree b)) of
                        None \<Rightarrow> Inl Endless_Citation
                      | Some cited \<Rightarrow>
                          Inr (completion_result (check_research_completion (completion_check_of b (cr_prefix root) qs cited)))))))"

section \<open>Final\<close>

definition research_executor_from :: "(gostring \<Rightarrow> bool) \<Rightarrow> int \<Rightarrow> execution \<Rightarrow> bool" where
  "research_executor_from other version ex \<longleftrightarrow>
     (case parse_reference other (ex_agent_config_id ex) of
        Inl _ \<Rightarrow> False
      | Inr r \<Rightarrow> rf_identity r = ''research.executor'' \<and> rf_version r \<ge> version)"

definition is_research_completion_execution :: "(gostring \<Rightarrow> bool) \<Rightarrow> execution \<Rightarrow> bool" where
  "is_research_completion_execution other ex \<longleftrightarrow> research_executor_from other research_completion_version ex"

definition is_source_first_research_execution :: "(gostring \<Rightarrow> bool) \<Rightarrow> execution \<Rightarrow> bool" where
  "is_source_first_research_execution other ex \<longleftrightarrow> research_executor_from other 9 ex"

definition research_completion_callable :: "execution \<Rightarrow> checkpoint_prefix \<Rightarrow> bool" where
  "research_completion_callable ex p \<longleftrightarrow>
     ex_action_limit ex - accepted_business_actions p > 0 \<and> accepted_business_decisions p < ex_action_decision_limit ex"

text \<open>
  \<open>strings.ToLower\<close>, as far as a comparison with the words below can see it: outside ASCII two letters
  have an ASCII lower case, and the letters of the two Chinese words have none.
\<close>

function lower_text :: "gostring \<Rightarrow> gostring" where
  "lower_text [] = []"
| "lower_text (c # s) =
     (if upper c then char_of (byte c + 32) # lower_text s
      else if prefix (map char_of [196, 176 :: nat]) (c # s) then CHR ''i'' # lower_text (drop 1 s)
      else if prefix (map char_of [226, 132, 170 :: nat]) (c # s) then CHR ''k'' # lower_text (drop 2 s)
      else c # lower_text s)"
  by pat_completeness auto
termination by (relation "measure length") auto

definition full_stop :: gostring where "full_stop = map char_of [227, 128, 130 :: nat]"
definition wide_exclamation :: gostring where "wide_exclamation = map char_of [239, 188, 129 :: nat]"
definition finished_word :: gostring where "finished_word = map char_of [229, 174, 140, 230, 136, 144 :: nat]"
definition already_finished_word :: gostring where
  "already_finished_word = map char_of [229, 183, 178 :: nat] @ finished_word"

definition trim_cutset :: "gostring list \<Rightarrow> gostring \<Rightarrow> gostring" where
  "trim_cutset ws s = rev (strip (map rev ws) (rev (strip ws s)))"

definition is_research_completion_signal :: "gostring \<Rightarrow> bool" where
  "is_research_completion_signal s \<longleftrightarrow>
     lower_text (trim_cutset [''.'', ''!'', full_stop, wide_exclamation] (trim_space s))
     \<in> {''final'', ''done'', ''complete'', ''completed'', ''report assembled'', already_finished_word, finished_word}"

definition reader_task_prefix :: gostring where
  "reader_task_prefix = ''Read one long document for the parent researcher, in full:''"

definition has_recorded_claim :: "checkpoint_prefix \<Rightarrow> bool" where
  "has_recorded_claim p \<longleftrightarrow> list_ex (succeeded_as record_claim_action_name) (prefix_actions p)"

datatype final_refusal = Reader_Without_Cards | Needs_Declaration | Signal_Without_Report

text \<open>The Run's parent and its task are fields of the execution.\<close>

definition prepare_decision_response ::
  "(gostring \<Rightarrow> bool) \<Rightarrow> execution \<Rightarrow> gostring \<Rightarrow> gostring \<Rightarrow> checkpoint_prefix \<Rightarrow> model_decision \<Rightarrow> (final_refusal, model_decision) result" where
  "prepare_decision_response other ex parent_run_id task p d =
     (if parent_run_id \<noteq> [] then
        (if md_final d \<noteq> None \<and> prefix reader_task_prefix task \<and> \<not> has_recorded_claim p then Inl Reader_Without_Cards else Inr d)
      else
        let source_first = is_source_first_research_execution other ex in
        case md_final d of
          None \<Rightarrow> Inr d
        | Some words \<Rightarrow>
            if \<not> source_first \<and> \<not> is_research_completion_signal words then Inr d
            else if (\<not> source_first \<and> has_assembled_research_report p)
                 \<or> (source_first \<and> has_assembled_research_report_after_imports p) then
              (if is_research_completion_execution other ex \<and> research_completion_callable ex p
                  \<and> accepted_research_completion p = None
               then Inl Needs_Declaration else Inr d)
            else Inl Signal_Without_Report)"

section \<open>What is kept of it\<close>

record saturation_round =
  sr_decision :: int
  sr_reads :: nat
  sr_readers :: nat
  sr_new_cards :: nat

record research_saturation =
  sa_rounds :: "saturation_round list"
  sa_uncollected :: nat

definition saturation_reads :: "gostring list" where
  "saturation_reads = [''read_url'', ''read_document_pages'', ''read_source'', ''search_evidence'', ''search_text'']"

definition usable_card :: "accepted_action \<Rightarrow> bool" where
  "usable_card a \<longleftrightarrow>
     (case succeeded_output record_claim_action_name a of
        None \<Rightarrow> False
      | Some out \<Rightarrow> (case decode_card_output out of
            None \<Rightarrow> False
          | Some c \<Rightarrow> co_status c = ''verified'' \<or> co_status c = ''near_match''))"

definition count_usable_cards :: "accepted_proposal list \<Rightarrow> nat" where
  "count_usable_cards ps = sum_list (map (\<lambda>p. length (filter usable_card (apr_actions p))) ps)"

fun decode_observation :: "json \<Rightarrow> (gostring \<times> gostring) option" where
  "decode_observation (JObj ms) =
     (case (get_string ''agent_id'' ms, get_string ''task_name'' ms, get_string ''status'' ms,
            get_string ''result'' ms, get_string ''error_code'' ms) of
        (Some i, Some _, Some st, Some _, Some _) \<Rightarrow> Some (i, st)
      | _ \<Rightarrow> None)"
| "decode_observation JNull = Some ([], [])"
| "decode_observation _ = None"

fun decode_wait_output :: "raw \<Rightarrow> (gostring \<times> gostring) list option" where
  "decode_wait_output (Raw (JObj ms)) = get_list decode_observation ''agents'' ms"
| "decode_wait_output (Raw JNull) = Some []"
| "decode_wait_output _ = None"

text \<open>The subagents that a \<open>wait_agent\<close> Result reports as completed.\<close>

definition observed_complete :: "accepted_action \<Rightarrow> gostring list" where
  "observed_complete a =
     (case succeeded_output ''wait_agent'' a of
        None \<Rightarrow> []
      | Some out \<Rightarrow> (case decode_wait_output out of
            None \<Rightarrow> []
          | Some xs \<Rightarrow> map fst (filter (\<lambda>(i, st). st = ''completed'') xs)))"

fun collect_agents ::
  "(gostring \<times> nat) list \<Rightarrow> gostring list \<times> saturation_round \<Rightarrow> gostring list \<Rightarrow> gostring list \<times> saturation_round" where
  "collect_agents cards s [] = s"
| "collect_agents cards (got, r) (i # is) =
     (if i \<in> set got then collect_agents cards (got, r) is
      else (case map_of cards i of
          None \<Rightarrow> collect_agents cards (got, r) is
        | Some n \<Rightarrow> collect_agents cards (i # got, r\<lparr>sr_readers := sr_readers r + 1, sr_new_cards := sr_new_cards r + n\<rparr>) is))"

definition saturation_round_of ::
  "(gostring \<times> nat) list \<Rightarrow> gostring list \<Rightarrow> accepted_proposal \<Rightarrow> gostring list \<times> saturation_round" where
  "saturation_round_of cards got p =
     collect_agents cards
       (got, \<lparr>sr_decision = apr_decision_no p,
              sr_reads = length (filter (\<lambda>a. \<exists>name \<in> set saturation_reads. succeeded_as name a) (apr_actions p)),
              sr_readers = 0, sr_new_cards = count_usable_cards [p]\<rparr>)
       (concat (map observed_complete (apr_actions p)))"

fun saturation_rounds ::
  "(gostring \<times> nat) list \<Rightarrow> gostring list \<Rightarrow> accepted_proposal list \<Rightarrow> gostring list \<times> saturation_round list" where
  "saturation_rounds cards got [] = (got, [])"
| "saturation_rounds cards got (p # ps) =
     (case saturation_round_of cards got p of
        (got1, r) \<Rightarrow> (case saturation_rounds cards got1 ps of
          (got2, rs) \<Rightarrow> (got2, if sr_reads r > 0 \<or> sr_readers r > 0 \<or> sr_new_cards r > 0 then r # rs else rs)))"

text \<open>The number of cards of each subagent; of a Run listed twice the last entry counts.\<close>

definition child_cards :: "claim_tree \<Rightarrow> gostring \<Rightarrow> (gostring \<times> nat) list" where
  "child_cards tree root =
     sort_members (map (\<lambda>r. (cr_run_id r, count_usable_cards (cx_proposals (cr_prefix r))))
       (filter (\<lambda>r. cr_run_id r \<noteq> root) tree))"

definition measure_research_saturation :: "claim_tree \<Rightarrow> gostring \<Rightarrow> research_saturation" where
  "measure_research_saturation tree root =
     (case tree_run tree root of
        None \<Rightarrow> \<lparr>sa_rounds = [], sa_uncollected = 0\<rparr>
      | Some r \<Rightarrow>
          (case saturation_rounds (child_cards tree root) [] (cx_proposals (cr_prefix r)) of
             (got, rounds) \<Rightarrow>
               \<lparr>sa_rounds = rounds,
                sa_uncollected = sum_list (map snd (filter (\<lambda>(i, n). i \<notin> set got) (child_cards tree root)))\<rparr>))"

record completion_record =
  cmr_stop :: gostring
  cmr_questions :: "completion_question list"
  cmr_rejected :: nat
  cmr_saturation :: research_saturation

definition rejected_declarations :: "checkpoint_prefix \<Rightarrow> nat" where
  "rejected_declarations p =
     length (filter (\<lambda>a. case declared_by a of None \<Rightarrow> False | Some out \<Rightarrow> \<not> de_accepted out) (prefix_actions p))"

definition build_research_completion_record :: "claim_tree \<Rightarrow> gostring \<Rightarrow> completion_record" where
  "build_research_completion_record tree root =
     (case tree_run tree root of
        None \<Rightarrow> \<lparr>cmr_stop = stop_undeclared, cmr_questions = [], cmr_rejected = 0,
                cmr_saturation = \<lparr>sa_rounds = [], sa_uncollected = 0\<rparr>\<rparr>
      | Some r \<Rightarrow>
          (case accepted_research_completion (cr_prefix r) of
             None \<Rightarrow> \<lparr>cmr_stop = stop_undeclared, cmr_questions = [], cmr_rejected = rejected_declarations (cr_prefix r),
                     cmr_saturation = measure_research_saturation tree root\<rparr>
           | Some out \<Rightarrow> \<lparr>cmr_stop = de_stop out, cmr_questions = de_questions out,
                     cmr_rejected = rejected_declarations (cr_prefix r),
                     cmr_saturation = measure_research_saturation tree root\<rparr>))"

section \<open>When a declaration is accepted\<close>

lemma declared_problems_Nil:
  "declared_problems plan seen qs = [] \<longleftrightarrow>
     distinct (map cq_question qs) \<and> set (map cq_question qs) \<inter> set seen = {}
     \<and> (plan > 0 \<longrightarrow> (\<forall>q \<in> set qs. cq_question q \<le> plan))"
  by (induction plan seen qs rule: declared_problems.induct) auto

lemma some_problem_Nil [simp]: "some_problem P xs = [] \<longleftrightarrow> xs = []"
  by (simp add: some_problem_def)

text \<open>The card is recorded, its quote was found, and the report cites it.\<close>

definition good_card :: "completion_check \<Rightarrow> gostring \<Rightarrow> bool" where
  "good_card c i \<longleftrightarrow>
     (case claim_by_id (cc_claims c) i of None \<Rightarrow> False | Some x \<Rightarrow> usable_research_claim x \<and> i \<in> set (cc_cited c))"

lemma card_problems_Nil:
  "unknown_cards c q = [] \<and> unusable_cards c q = [] \<and> uncited_cards c q = [] \<longleftrightarrow> list_all (good_card c) (cq_cards q)"
proof -
  have filter_Nil: "List.map_filter f xs = [] \<longleftrightarrow> (\<forall>x \<in> set xs. f x = None)" for f :: "gostring \<Rightarrow> gostring option" and xs
    by (induction xs) (auto simp: List.map_filter_simps split: option.splits)
  show ?thesis
    unfolding unknown_cards_def unusable_cards_def uncited_cards_def filter_Nil filter_empty_conv list_all_iff
      ball_conj_distrib [symmetric]
    by (intro ball_cong refl) (simp add: good_card_def split: option.split)
qed

definition question_ok :: "completion_check \<Rightarrow> completion_question \<Rightarrow> bool" where
  "question_ok c q \<longleftrightarrow>
     list_all (good_card c) (cq_cards q)
     \<and> (if cq_status q = question_not_found then tagged_cards c (cq_question q) > 0 \<or> cc_exhausted c \<or> cq_question q \<in> set (cc_retried c)
        else cq_cards q \<noteq> [])"

definition completion_ok :: "completion_check \<Rightarrow> bool" where
  "completion_ok c \<longleftrightarrow>
     cc_running c = [] \<and> distinct (map cq_question (cc_questions c))
     \<and> {1..cc_plan c} \<subseteq> set (map cq_question (cc_questions c))
     \<and> (cc_plan c > 0 \<longrightarrow> (\<forall>q \<in> set (cc_questions c). cq_question q \<le> cc_plan c))
     \<and> list_all (question_ok c) (cc_questions c)"

lemma missing_questions_Nil: "missing_questions c = [] \<longleftrightarrow> {1..cc_plan c} \<subseteq> set (map cq_question (cc_questions c))"
  by (auto simp: missing_questions_def filter_empty_conv)

lemma question_problems_ok:
  "question_problems c q = [] \<and> \<not> wants_round c q \<longleftrightarrow> question_ok c q"
  using card_problems_Nil [of c q] by (auto simp: question_problems_def question_ok_def wants_round_def)

lemma completion_problems_Nil: "completion_problems c = [] \<longleftrightarrow> completion_ok c"
proof -
  have "concat (map (question_problems c) (cc_questions c)) = [] \<and> retry_questions c = [] \<longleftrightarrow> list_all (question_ok c) (cc_questions c)"
    unfolding list_all_iff question_problems_ok [symmetric]
    by (auto simp: retry_questions_def filter_empty_conv)
  then show ?thesis
    by (auto simp: completion_problems_def completion_ok_def missing_questions_Nil declared_problems_Nil)
qed

lemma sorted_questions: "distinct (map cq_question qs) \<Longrightarrow> sorted_wrt (<) (map cq_question (sort_key cq_question qs))"
proof -
  assume "distinct (map cq_question qs)"
  then have "distinct (map cq_question (sort_key cq_question qs))"
    by (metis distinct_map distinct_sort set_sort)
  moreover have "sorted (map cq_question (sort_key cq_question qs))" by (rule sorted_sort_key)
  ultimately show ?thesis by (simp add: strict_sorted_iff)
qed

section \<open>One more round, once\<close>

lemma retry_step_had: "set (snd s) \<subseteq> set (snd (retry_step s p))"
  by (auto simp: retry_step_def split: prod.splits)

lemma retry_fold_had: "set (snd s) \<subseteq> set (snd (foldl retry_step s ps))"
proof (induction ps arbitrary: s)
  case (Cons p ps)
  have "set (snd s) \<subseteq> set (snd (retry_step s p))" by (rule retry_step_had)
  also have "\<dots> \<subseteq> set (snd (foldl retry_step (retry_step s p) ps))" by (rule Cons.IH)
  finally show ?case by simp
qed simp

lemma retry_step_asked: "n \<in> set (asked_in p) \<Longrightarrow> n \<in> set (fst (retry_step s p)) \<or> n \<in> set (snd (retry_step s p))"
  by (auto simp: retry_step_def Let_def split: prod.splits)

lemma retry_step_waits:
  "n \<in> set (fst s) \<or> n \<in> set (snd s) \<Longrightarrow>
   (if searched_in p then n \<in> set (snd (retry_step s p)) else n \<in> set (fst (retry_step s p)) \<or> n \<in> set (snd (retry_step s p)))"
  by (auto simp: retry_step_def Let_def split: prod.splits)

lemma retry_fold_waits:
  "n \<in> set (fst s) \<or> n \<in> set (snd s) \<Longrightarrow>
   n \<in> set (fst (foldl retry_step s ps)) \<or> n \<in> set (snd (foldl retry_step s ps))"
proof (induction ps arbitrary: s)
  case (Cons p ps)
  have "n \<in> set (fst (retry_step s p)) \<or> n \<in> set (snd (retry_step s p))"
    using retry_step_waits [OF Cons.prems, of p] by (auto split: if_splits)
  from Cons.IH [OF this] show ?case by simp
qed simp

lemma retried_after_search:
  assumes "cx_proposals p = xs @ asking # ys @ searching # zs" and "n \<in> set (asked_in asking)" and "searched_in searching"
  shows "n \<in> set (retried_questions p)"
proof -
  let ?a = "foldl retry_step (retry_step (foldl retry_step ([], []) xs) asking) ys"
  have "n \<in> set (fst ?a) \<or> n \<in> set (snd ?a)"
    by (rule retry_fold_waits) (rule retry_step_asked [OF assms(2)])
  from retry_step_waits [OF this, of searching] assms(3) have "n \<in> set (snd (retry_step ?a searching))" by simp
  with retry_fold_had [of "retry_step ?a searching" zs] show ?thesis by (auto simp: retried_questions_def assms(1))
qed

section \<open>No card is counted twice\<close>

definition uncollected :: "(gostring \<times> nat) list \<Rightarrow> gostring list \<Rightarrow> nat" where
  "uncollected cards got = sum_list (map snd (filter (\<lambda>(i, n). i \<notin> set got) cards))"

lemma uncollected_Cons:
  "distinct (map fst cards) \<Longrightarrow> map_of cards i = Some n \<Longrightarrow> i \<notin> set got \<Longrightarrow> uncollected cards (i # got) + n = uncollected cards got"
proof (induction cards)
  case (Cons c cards)
  obtain j m where c: "c = (j, m)" by (cases c)
  show ?case
  proof (cases "j = i")
    case True
    with Cons.prems c have "n = m" "i \<notin> fst ` set cards" by auto
    moreover from this have "filter (\<lambda>(k, n). k \<notin> set (i # got)) cards = filter (\<lambda>(k, n). k \<notin> set got) cards"
      by (intro filter_cong) (force simp: image_iff)+
    ultimately show ?thesis using True Cons.prems(3) c by (simp add: uncollected_def)
  next
    case False
    with Cons c show ?thesis by (auto simp: uncollected_def)
  qed
qed simp

lemma collect_agents_total:
  "collect_agents cards (got, r) is = (got', r') \<Longrightarrow> distinct (map fst cards) \<Longrightarrow> sr_new_cards r' + uncollected cards got' = sr_new_cards r + uncollected cards got"
proof (induction cards "(got, r)" "is" arbitrary: got r rule: collect_agents.induct)
  case (2 cards got r i "is")
  show ?case
  proof (cases "i \<in> set got")
    case True
    with 2 show ?thesis by simp
  next
    case False
    show ?thesis
    proof (cases "map_of cards i")
      case None
      with False 2 show ?thesis by simp
    next
      case (Some n)
      with False "2.prems" have
        "collect_agents cards (i # got, r\<lparr>sr_readers := sr_readers r + 1, sr_new_cards := sr_new_cards r + n\<rparr>) is = (got', r')" by simp
      from "2.hyps"(3) [OF False Some this "2.prems"(2)] uncollected_Cons [OF "2.prems"(2) Some False] show ?thesis by simp
    qed
  qed
qed simp

lemma saturation_rounds_total:
  assumes "distinct (map fst cards)"
  shows "saturation_rounds cards got ps = (got', rs) \<Longrightarrow>
    sum_list (map sr_new_cards rs) + uncollected cards got' = count_usable_cards ps + uncollected cards got"
proof (induction ps arbitrary: got got' rs)
  case Nil
  then show ?case by (simp add: count_usable_cards_def)
next
  case (Cons p ps)
  obtain got1 r where r: "saturation_round_of cards got p = (got1, r)" by (cases "saturation_round_of cards got p")
  obtain got2 rs2 where rs: "saturation_rounds cards got1 ps = (got2, rs2)" by (cases "saturation_rounds cards got1 ps")
  from Cons.prems r rs have out: "got' = got2" "rs = (if sr_reads r > 0 \<or> sr_readers r > 0 \<or> sr_new_cards r > 0 then r # rs2 else rs2)"
    by simp_all
  have "sr_new_cards r + uncollected cards got1 = count_usable_cards [p] + uncollected cards got"
    using collect_agents_total [OF r [unfolded saturation_round_of_def] assms] by simp
  moreover have "sum_list (map sr_new_cards rs) = sr_new_cards r + sum_list (map sr_new_cards rs2)" using out(2) by auto
  moreover have "count_usable_cards (p # ps) = count_usable_cards [p] + count_usable_cards ps" by (simp add: count_usable_cards_def)
  ultimately show ?case using Cons.IH [OF rs] out(1) by simp
qed

lemma sort_members_same_set: "distinct (map fst ms) \<Longrightarrow> set (sort_members ms) = set ms"
proof -
  assume d: "distinct (map fst ms)"
  then have "distinct (map fst (rev ms))" by (simp add: rev_map [symmetric])
  moreover have "distinct (map fst (sort_members ms))" using sort_members_sorted [of ms] strict_sorted_iff by (auto simp: sorted_members_def)
  ultimately have "set (sort_members ms) = set (rev ms)" using map_of_inject_set map_of_sort_members by metis
  then show ?thesis by simp
qed

lemma sum_list_members:
  assumes "distinct (map fst xs)" "distinct (map fst ys)" "set xs = set ys"
  shows "sum_list (map snd xs) = (sum_list (map snd ys) :: nat)"
  using assms by (metis distinct_map sum_list_distinct_conv_sum_set)

lemma child_cards_total:
  assumes "distinct (map cr_run_id tree)" "tree_run tree root = Some r"
  shows "distinct (map fst (child_cards tree root))"
    "count_usable_cards (cx_proposals (cr_prefix r)) + sum_list (map snd (child_cards tree root))
      = sum_list (map (\<lambda>r. count_usable_cards (cx_proposals (cr_prefix r))) tree)"
proof -
  let ?n = "\<lambda>r. count_usable_cards (cx_proposals (cr_prefix r))"
  let ?ms = "map (\<lambda>r. (cr_run_id r, ?n r)) (filter (\<lambda>r. cr_run_id r \<noteq> root) tree)"
  have "map fst ?ms = map cr_run_id (filter (\<lambda>r. cr_run_id r \<noteq> root) tree)" by simp
  moreover have "distinct (map cr_run_id (filter (\<lambda>r. cr_run_id r \<noteq> root) tree))" by (rule distinct_map_filter [OF assms(1)])
  ultimately have ms: "distinct (map fst ?ms)" by (simp only:)
  show d: "distinct (map fst (child_cards tree root))"
    using sort_members_sorted [of ?ms] strict_sorted_iff by (auto simp: child_cards_def sorted_members_def)
  have "sum_list (map snd (child_cards tree root)) = sum_list (map snd ?ms)"
    by (rule sum_list_members [OF d ms]) (simp add: child_cards_def sort_members_same_set [OF ms])
  moreover have "?n r + sum_list (map snd ?ms) = sum_list (map ?n tree)"
    using assms
  proof (induction tree)
    case (Cons x tree)
    show ?case
    proof (cases "cr_run_id x = root")
      case True
      with Cons.prems have "r = x" by (simp add: tree_run_def)
      have "cr_run_id x \<notin> cr_run_id ` set tree" using Cons.prems(1) by simp
      then have "\<forall>y \<in> set tree. cr_run_id y \<noteq> root" using True by (metis imageI)
      then have "filter (\<lambda>r. cr_run_id r \<noteq> root) (x # tree) = tree" using True by (simp add: filter_id_conv)
      with \<open>r = x\<close> show ?thesis by (simp only: list.map(2) sum_list.Cons) (simp add: comp_def)
    next
      case False
      with Cons have "?n r + sum_list (map snd (map (\<lambda>r. (cr_run_id r, ?n r)) (filter (\<lambda>r. cr_run_id r \<noteq> root) tree))) = sum_list (map ?n tree)"
        by (simp add: tree_run_def)
      with False show ?thesis by simp
    qed
  qed (simp add: tree_run_def)
  ultimately show "?n r + sum_list (map snd (child_cards tree root)) = sum_list (map ?n tree)" by simp
qed

section \<open>The last declaration\<close>

lemma accepted_completion_last:
  "foldl completion_step None as = Some out \<Longrightarrow>
   \<exists>xs a ys. as = xs @ a # ys \<and> declared_by a = Some out \<and> de_accepted out \<and> list_all (\<lambda>b. \<not> succeeded_as ''assemble_research_report'' b) ys"
proof (induction as arbitrary: out rule: rev_induct)
  case (snoc b as)
  show ?case
  proof (cases "declared_by b = Some out \<and> de_accepted out")
    case True
    then show ?thesis by (intro exI [of _ as] exI [of _ b] exI [of _ "[]"]) simp
  next
    case False
    from snoc.prems have "completion_step (foldl completion_step None as) b = Some out" by simp
    with False have old: "foldl completion_step None as = Some out" "\<not> succeeded_as ''assemble_research_report'' b"
      unfolding completion_step_def Let_def by (auto split: option.splits if_splits)
    from snoc.IH [OF old(1)] obtain xs a ys where "as = xs @ a # ys" "declared_by a = Some out" "de_accepted out"
      "list_all (\<lambda>b. \<not> succeeded_as ''assemble_research_report'' b) ys" by blast
    with old(2) show ?thesis by (intro exI [of _ xs] exI [of _ a] exI [of _ "ys @ [b]"]) simp
  qed
qed simp

lemma assembled_after_imports_append:
  assumes "list_all (\<lambda>b. \<not> succeeded_as ''assemble_research_report'' b) ys"
  shows "assembled_after_imports (xs @ ys) \<longleftrightarrow> assembled_after_imports xs \<and> list_all (\<lambda>b. \<not> succeeded_as ''save_url_as_source'' b) ys"
  using assms by (induction ys rule: rev_induct) (auto simp: assembled_after_imports_def simp flip: append_assoc)

lemma assembled_has_report: "assembled_after_imports xs \<Longrightarrow> list_ex (succeeded_as ''assemble_research_report'') xs"
  by (induction xs rule: rev_induct) (auto simp: assembled_after_imports_def split: if_splits)

lemma declared_not_assembled: "declared_by a = Some out \<Longrightarrow> \<not> succeeded_as ''assemble_research_report'' a"
  by (auto simp: declared_by_def succeeded_output_def succeeded_as_def split: if_splits option.splits)

lemma completion_source_first: "is_research_completion_execution other ex \<Longrightarrow> is_source_first_research_execution other ex"
  by (auto simp: is_research_completion_execution_def is_source_first_research_execution_def research_executor_from_def
      research_completion_version_def split: sum.splits)

section \<open>Properties\<close>

text \<open>
  C7: a declaration is accepted exactly when it is complete and every answer is backed. Accepted means no
  subagent runs, every question of the plan is declared once and no other, each card named is recorded,
  was found in its Source and is cited by the report, an answer names at least one, and a not_found has a
  card anyway, or had its extra round, or the budget is spent. Then the questions are returned in order
  with the stop reason (the budget's, or answered if all are, else partial); otherwise problems are named.
\<close>

theorem completion_accepted_iff:
  "if completion_ok c
   then check_research_completion c =
       \<lparr>cm_accepted = True, cm_stop = stop_reason c, cm_questions = sort_key cq_question (cc_questions c), cm_problems = [], cm_retry = []\<rparr>
     \<and> sorted_wrt (<) (map cq_question (sort_key cq_question (cc_questions c)))
   else \<not> cm_accepted (check_research_completion c) \<and> cm_problems (check_research_completion c) \<noteq> []"
proof (cases "completion_ok c")
  case True
  then have "distinct (map cq_question (cc_questions c))" by (simp add: completion_ok_def)
  with True show ?thesis by (simp add: check_research_completion_def completion_problems_Nil sorted_questions)
next
  case False
  then show ?thesis by (simp add: check_research_completion_def completion_problems_Nil)
qed

text \<open>
  C36: a question is sent back at most once. If a declaration sent question n back and a later decision of
  the Run searched for or read evidence, then no later declaration is asked for n again, whatever it says;
  and a Run whose budget is spent is asked for nothing.
\<close>

theorem not_found_sent_back_once:
  assumes "cx_proposals p = xs @ asking # ys @ searching # zs" and "n \<in> set (asked_in asking)" and "searched_in searching"
    and "cc_retried c = retried_questions p"
  shows "n \<notin> set (cm_retry (check_research_completion c))
    \<and> cm_retry (check_research_completion (c\<lparr>cc_exhausted := True\<rparr>)) = []"
  using retried_after_search [OF assms(1-3)] assms(4)
  by (auto simp: check_research_completion_def retry_questions_def wants_round_def)

definition sample_action :: "gostring \<Rightarrow> (gostring \<times> json) list \<Rightarrow> accepted_action" where
  "sample_action name ms = \<lparr>aa_action_id = ''a'', aa_index = 0, aa_name = name, aa_input = Raw (JObj []), aa_result = Some (succeeded ms)\<rparr>"

definition sample_rounds :: checkpoint_prefix where
  "sample_rounds = empty_prefix\<lparr>cx_proposals :=
     [\<lparr>apr_decision_no = 1, apr_actions = [sample_action ''complete_research'' [(''retry_questions'', JArr [JNum ''2''])]]\<rparr>,
      \<lparr>apr_decision_no = 2, apr_actions = [sample_action ''web_search'' []]\<rparr>]\<rparr>"

definition sample_check :: "int list \<Rightarrow> completion_check" where
  "sample_check had = \<lparr>cc_questions = [\<lparr>cq_question = 2, cq_status = question_not_found, cq_cards = [], cq_note = []\<rparr>], cc_claims = [],
     cc_cited = [], cc_plan = 0, cc_running = [], cc_exhausted = False, cc_retried = had\<rparr>"

theorem not_found_sent_back_once_witness:
  "2 \<in> set (cm_retry (check_research_completion (sample_check [])))
   \<and> 2 \<notin> set (cm_retry (check_research_completion (sample_check (retried_questions sample_rounds))))"
proof
  show "2 \<in> set (cm_retry (check_research_completion (sample_check [])))" by code_simp
  have "2 \<notin> set (cm_retry (check_research_completion (sample_check (retried_questions sample_rounds))))
      \<and> cm_retry (check_research_completion ((sample_check (retried_questions sample_rounds))\<lparr>cc_exhausted := True\<rparr>)) = []"
  proof (rule not_found_sent_back_once)
    show "cx_proposals sample_rounds = [] @ hd (cx_proposals sample_rounds) # [] @ last (cx_proposals sample_rounds) # []"
      by (simp add: sample_rounds_def)
    show "2 \<in> set (asked_in (hd (cx_proposals sample_rounds)))" by code_simp
    show "searched_in (last (cx_proposals sample_rounds))" by code_simp
    show "cc_retried (sample_check (retried_questions sample_rounds)) = retried_questions sample_rounds" by (simp add: sample_check_def)
  qed
  then show "2 \<notin> set (cm_retry (check_research_completion (sample_check (retried_questions sample_rounds))))" ..
qed


definition sample_final_prefix :: checkpoint_prefix where
  "sample_final_prefix = empty_prefix\<lparr>cx_proposals :=
     [\<lparr>apr_decision_no = 1, apr_actions =
        [sample_action ''assemble_research_report'' [(''path'', JStr ''report.md''), (''object_key'', JStr ''research-workspaces/x''),
           (''sha256'', JStr (replicate 64 CHR ''0'')), (''bytes'', JNum ''1'')]]\<rparr>,
      \<lparr>apr_decision_no = 2, apr_actions = [sample_action ''complete_research'' [(''accepted'', JBool True)]]\<rparr>]\<rparr>"

definition sample_research_execution :: execution where
  "sample_research_execution = \<lparr>ex_attempt = sample_attempt, ex_user_id = [], ex_chat_id = [], ex_time_zone = [],
     ex_agent_config_id = ''research.executor@42'', ex_action_decision_limit = 9, ex_final_decision_limit = 1, ex_action_limit = 9,
     ex_action_batch_limit = 1, ex_action_result_byte_limit = 1, ex_action_results_byte_limit = 1, ex_overflow_retry_limit = 0,
     ex_existing_child_count = 0\<rparr>"


text \<open>
  C37: the record of card yield counts every usable card of the tree once. The new cards of the recorded
  rounds and the cards of subagents that were never collected add up to the usable cards of all Runs,
  however often a subagent was waited for.
\<close>

theorem saturation_counts_every_card:
  assumes "distinct (map cr_run_id tree)" and "tree_run tree root = Some r"
  shows "sum_list (map sr_new_cards (sa_rounds (measure_research_saturation tree root))) + sa_uncollected (measure_research_saturation tree root)
    = sum_list (map (\<lambda>r. count_usable_cards (cx_proposals (cr_prefix r))) tree)"
proof -
  note cards = child_cards_total [OF assms]
  obtain got rounds where run: "saturation_rounds (child_cards tree root) [] (cx_proposals (cr_prefix r)) = (got, rounds)"
    by (cases "saturation_rounds (child_cards tree root) [] (cx_proposals (cr_prefix r))")
  from saturation_rounds_total [OF cards(1) run] cards(2) show ?thesis
    by (simp add: measure_research_saturation_def assms(2) run uncollected_def)
qed

definition sample_saturation_tree :: claim_tree where
  "sample_saturation_tree =
     [\<lparr>cr_run_id = ''r'', cr_namespace = [], cr_prefix = empty_prefix\<lparr>cx_proposals :=
         [\<lparr>apr_decision_no = 1, apr_actions =
            [sample_action ''wait_agent'' [(''agents'', JArr [JObj [(''agent_id'', JStr ''k''), (''status'', JStr ''completed'')]])]]\<rparr>]\<rparr>\<rparr>,
      \<lparr>cr_run_id = ''k'', cr_namespace = ''a'', cr_prefix = empty_prefix\<lparr>cx_proposals :=
         [\<lparr>apr_decision_no = 1, apr_actions = [sample_action record_claim_action_name [(''status'', JStr ''verified'')]]\<rparr>]\<rparr>\<rparr>]"

theorem saturation_counts_every_card_witness:
  "sum_list (map sr_new_cards (sa_rounds (measure_research_saturation sample_saturation_tree ''r'')))
     + sa_uncollected (measure_research_saturation sample_saturation_tree ''r'') = 1"
proof -
  have "distinct (map cr_run_id sample_saturation_tree)" by code_simp
  moreover have "tree_run sample_saturation_tree ''r'' = Some (hd sample_saturation_tree)"
    by (simp add: tree_run_def sample_saturation_tree_def)
  moreover have "sum_list (map (\<lambda>r. count_usable_cards (cx_proposals (cr_prefix r))) sample_saturation_tree) = 1" by code_simp
  ultimately show ?thesis using saturation_counts_every_card [of sample_saturation_tree "''r''"] by simp
qed

end
