(* ===== verification/Spec2Isabelle.thy ===== *)
theory Spec2Isabelle
  imports Run_Budget Todo Lane_Store Decision_Request Job_Progress Research_Completion
begin

text \<open>
  Verification library of the Nano Notebook backend: the durable Agent runtime (Go packages
  \<open>internal/agent\<close>, \<open>internal/jobs\<close>, \<open>internal/worker\<close>, \<open>internal/models\<close>,
  \<open>internal/agentcatalog\<close>).

  \<^bold>\<open>The program.\<close> A question in a Chat becomes an Agent Run with one Job. A worker leases the Job and
  executes an attempt: the Controller asks the model for a decision, accepts it only within the Run's
  budgets, executes the proposed Actions, and appends every accepted outcome to the Run's checkpoint
  log. A crashed attempt is continued by another, which loads the log and goes on after the last
  accepted outcome; at the end the accepted Final Draft is published once. What the model reads is
  projected from the same log, aged and compacted to its context window.

  \<^bold>\<open>Theories.\<close> Definitions keep the names of the code where they can; errors are the left values of
  a sum, a nil pointer is \<^term>\<open>None\<close>, an \<open>int\<close> of the code is an unbounded \<^typ>\<open>int\<close> unless its
  width matters, a hash or a bit operation is over words.

  \<^item> \<open>Prelude\<close>, \<open>Go_Strings\<close>, \<open>Go_Runes\<close>, \<open>Sha256\<close>, \<open>Json_Values\<close>: the vocabulary. Result values and
    the interfaces \<open>transition_system\<close> and \<open>append_only_log\<close>; bytes, UTF-8, decimal and trimming
    functions of Go; SHA-256; JSON values and their canonical form (\<open>CanonicalJSONObject\<close>).
  \<^item> \<open>Checkpoint\<close> (\<open>agent/checkpoint.go\<close>, \<open>agent/actions.go\<close>, \<open>models/decision.go\<close>): the four kinds of
    checkpoints and their constructors. \<open>Action_Errors\<close> (\<open>agent/action_error_catalog.go\<close>).
  \<^item> \<open>Checkpoint_Prefix\<close> (\<open>agent/checkpoint_prefix.go\<close>): \<open>LoadCheckpointPrefix\<close> as a fold of
    \<open>load_step\<close>; what loads is well formed, what the constructors built loads again.
    \<open>Checkpoint_Rows\<close>: the strict reading of stored rows.
  \<^item> \<open>Checkpoint_Store\<close>, \<open>Checkpoint_Log\<close> (\<open>agent/postgres_checkpoint_store.go\<close>, \<open>tree_budget.go\<close>): the
    transactions on one Run under connection faults, and what any sequence of them keeps: at most
    once, immutable rows, budgets of the Agent Tree, leases.
  \<^item> \<open>Action_Registry\<close> (\<open>agent/actions.go\<close>, \<open>mcp_tool_plane.go\<close>), \<open>Controller_Budget\<close>, \<open>Controller\<close>
    (\<open>agent/controller.go\<close>): the budgets, and the loop of \<open>Execute\<close> over a record of functions that
    stands for the runtime, the model and the tools. \<open>Controller_Steps\<close> and \<open>Controller_History\<close> hold
    the interfaces of a runtime and what the loop keeps of any of them.
  \<^item> \<open>Run_Publication\<close> and \<open>Agent_Runtime\<close> (\<open>agent/postgres_runtime.go\<close>): publication and failure of a
    Run, and the runtime of Chat and Studio Runs. \<open>Run_Budget\<close> interprets the interfaces of the loop on
    it: a whole run of the Controller on the database stays within its budgets.
  \<^item> \<open>Todo\<close> (\<open>agent/todo.go\<close>, \<open>todo_action.go\<close>): the TODO list of a request, by replacement of snapshots.
  \<^item> \<open>Chat_Lane\<close> (\<open>agent/context_projection.go\<close>), \<open>Compaction\<close> (\<open>compaction.go\<close>), \<open>Result_Aging\<close>
    (\<open>tool_result_aging.go\<close>, \<open>compacted_tool_result.go\<close>), \<open>Agent_References\<close> (\<open>agentcatalog/catalog.go\<close>):
    the projection of the log to messages, where it may be cut, which results become shells, and the
    references the shells hold. \<open>Lane_Store\<close>: the readers of the log of a Run that has ended.
    \<open>Decision_Request\<close> (\<open>agent/postgres_compaction.go\<close>): a request put together within the input limit,
    under concurrent compactions of the same Chat.
  \<^item> \<open>Attempt_Disposition\<close> (\<open>agent/attempt_disposition.go\<close>): the error of an attempt becomes a disposition,
    and a retry waits for a backoff.
  \<^item> \<open>Job_Store\<close> (\<open>agent/attempt_terminal.go\<close>, \<open>delegation_kernel.go\<close>, \<open>store.go\<close>, the trigger of
    \<open>app/runtime_subagent_schema.go\<close>), \<open>Job_Queue\<close> (\<open>jobs/queue.go\<close>), \<open>Run_Handoff\<close>
    (\<open>agent/leader_executor.go\<close>, \<open>runtime_subagent.go\<close>, \<open>postgres_runtime.go\<close>, \<open>studio_executor.go\<close>): Runs with
    their Jobs as rows, and the transactions that claim, retry, end, expire, cancel, delegate, spawn,
    wait and publish. \<open>Job_Rows\<close> and \<open>Job_Moves\<close> hold what one statement and one transaction do to the
    rows, \<open>Job_Lifecycle\<close> that each keeps the invariant \<open>jobs_ok\<close>. \<open>Job_Machine\<close> puts all of them into one
    step relation (interface \<open>step_system\<close>), \<open>Job_Progress\<close> holds what leases and claims guarantee.
  \<^item> \<open>Go_Regexp\<close>: the regular expressions of Go's \<open>regexp\<close> with captures and leftmost matching, and their
    agreement with the language of an expression. \<open>Research_Cards\<close> and \<open>Card_Citations\<close>
    (\<open>agent/research_claims.go\<close>): the claim cards of a Research, the ids that the log determines, and what a
    report cites and publishes. \<open>Object_Store\<close> (\<open>objectstore\<close>, interface \<open>object_storage\<close>) and
    \<open>Research_Workspace\<close> (\<open>agent/research_workspace_action.go\<close>): the files of a Research, their immutable
    objects, editing and assembly. \<open>Research_Completion\<close> (\<open>agent/research_completion.go\<close>, the Final guard of
    \<open>research_runtime.go\<close>): the declaration that ends a Research and the record kept of it.

  \<^bold>\<open>Parameters.\<close> Code outside the repository and effects are arguments of the definitions: what
  PostgreSQL makes of a JSON value in a \<open>jsonb\<close> column, the faults of a connection (a transaction fails
  before it takes effect, or commits and loses the acknowledgement), the model, the tools, the clock,
  what other transactions do meanwhile, Unicode classes outside ASCII. Where a property needs something
  of them it is a hypothesis, with a witness.

  \<^bold>\<open>Bounds and fuel.\<close> \<open>Controller.execute_run\<close> takes fuel, one unit for each iteration, since the code
  loops until its deadline; the properties hold for every fuel. Asking for one decision, loading,
  compacting and aging are total. \<open>Result_Aging.read_pages\<close> reads page after page with fuel
  \<open>Suc (length body)\<close>, which is enough because every page is not empty; this is the termination
  property. \<open>Job_Queue.claim_next\<close> takes a list with one environment for each round of its loop (the new
  token, the rows that other workers lock, what other transactions do before); one more than there are
  unfinished Jobs is enough. The loop over a range of cited cards counts in 64 bits and may not end:
  \<open>Card_Citations.range_loop\<close> is a partial function to an option. A repetition in \<open>Go_Regexp.runs\<close> takes as
  fuel the bytes left, each round consuming one. The UTF-8 recursions are on the number of bytes left.

  \<^bold>\<open>Not modelled.\<close> Database schema, HTTP handlers and identity (\<open>internal/app\<close>), the web client, model
  and storage transports, tracing, metrics and delivery of traces, the ingestion of sources, retrieval
  and evaluation harnesses; they are mostly effects, or separate products. Of Research, the runtime with its
  compaction, planning and document readers, the matching of a quote against its Source (similarity in
  floating point over normalised Unicode) and the advisory checks of an assembled report are left out; so is
  the dispatch to executors.
  Of the transactions on the queue, trace rows, notifications and metrics are left out.
\<close>

end
